(* ===== verification/Prelude.thy ===== *)
theory Prelude
  imports Main "HOL-Library.Word"
begin

text \<open>
  Shared vocabulary of the development.  C scalars are words of their width, a buffer is a list
  of bytes, and a C function that may fail and that changes an object is an \<open>act\<close>: a function
  from the object to its result and the object afterwards.  The result is \<open>Inr v\<close> for a normal
  return, \<open>Inl (Err e)\<close> for \<open>return -e\<close> and \<open>Inl Fault\<close> for an access that the C standard
  leaves undefined (outside a buffer, through a NULL or a freed pointer).  The object after a
  failing call is kept, because the code keeps it.
\<close>

unbundle bit_operations_syntax

section \<open>Machine types and results\<close>

type_synonym u8 = "8 word"
type_synonym u16 = "16 word"
type_synonym u32 = "32 word"
type_synonym u64 = "64 word"
type_synonym byte = "8 word"

datatype errno = EINVAL | ENOMEM | ENOENT | ENOSPC | EOVERFLOW | EEXIST | EAGAIN | ENOTSUP | EPERM

datatype cerr = Err errno | Fault

type_synonym ('s, 'a) act = "'s \<Rightarrow> (cerr + 'a) \<times> 's"

named_theorems act_simps \<open>unfolding of the statement combinators\<close>

definition ret :: "'a \<Rightarrow> ('s, 'a) act" where
  [act_simps]: "ret x = (\<lambda>s. (Inr x, s))"

definition fail :: "cerr \<Rightarrow> ('s, 'a) act" where
  [act_simps]: "fail e = (\<lambda>s. (Inl e, s))"

definition bnd :: "('s, 'a) act \<Rightarrow> ('a \<Rightarrow> ('s, 'b) act) \<Rightarrow> ('s, 'b) act" where
  "bnd m f = (\<lambda>s. case m s of (Inl e, t) \<Rightarrow> (Inl e, t) | (Inr x, t) \<Rightarrow> f x t)"

definition sq :: "('s, 'a) act \<Rightarrow> ('s, 'b) act \<Rightarrow> ('s, 'b) act" where
  "sq m n = bnd m (\<lambda>_. n)"

definition modify :: "('s \<Rightarrow> 's) \<Rightarrow> ('s, unit) act" where
  [act_simps]: "modify f = (\<lambda>s. (Inr (), f s))"

definition reads :: "('s \<Rightarrow> 'a) \<Rightarrow> ('s, 'a) act" where
  [act_simps]: "reads f = (\<lambda>s. (Inr (f s), s))"

text \<open>\<open>if (m) return -e;\<close>: every error return of \<open>m\<close> becomes \<open>e\<close>; a fault stays a fault.\<close>

definition or_else :: "errno \<Rightarrow> ('s, 'a) act \<Rightarrow> ('s, 'a) act" where
  "or_else e m = (\<lambda>s. case m s of (Inl (Err _), t) \<Rightarrow> (Inl (Err e), t) | r \<Rightarrow> r)"

fun each :: "('x \<Rightarrow> ('s, unit) act) \<Rightarrow> 'x list \<Rightarrow> ('s, unit) act" where
  "each f [] = ret ()"
| "each f (x # xs) = sq (f x) (each f xs)"

fun times :: "nat \<Rightarrow> ('s, 'a) act \<Rightarrow> ('s, 'a list) act" where
  "times 0 m = ret []"
| "times (Suc n) m = bnd m (\<lambda>x. bnd (times n m) (\<lambda>xs. ret (x # xs)))"

lemma bnd_Inl [simp]: "m s = (Inl e, t) \<Longrightarrow> bnd m f s = (Inl e, t)"
  by (simp add: bnd_def)

lemma bnd_Inr [simp]: "m s = (Inr x, t) \<Longrightarrow> bnd m f s = f x t"
  by (simp add: bnd_def)

lemma sq_Inl [simp]: "m s = (Inl e, t) \<Longrightarrow> sq m n s = (Inl e, t)"
  by (simp add: sq_def)

lemma sq_Inr [simp]: "m s = (Inr x, t) \<Longrightarrow> sq m n s = n t"
  by (simp add: sq_def)

lemma bnd_assoc: "bnd (bnd m f) h = bnd m (\<lambda>x. bnd (f x) h)"
  by (rule ext) (simp add: bnd_def split: prod.splits sum.splits)

lemma bnd_ret [simp]: "bnd (ret x) f = f x"
  by (simp add: bnd_def ret_def)

lemma bnd_fail [simp]: "bnd (fail e) f = fail e"
  by (simp add: bnd_def fail_def)

lemma bnd_if: "bnd (if b then m else n) f = (if b then bnd m f else bnd n f)"
  by simp

lemma ret_bnd [simp]: "bnd m ret = m"
  by (rule ext) (simp add: bnd_def ret_def split: prod.splits sum.splits)

lemma bnd_cases:
  assumes "bnd m f s = (r, t)"
  obtains (err) e where "m s = (Inl e, t)" and "r = Inl e"
    | (ok) x u where "m s = (Inr x, u)" and "f x u = (r, t)"
  using assms by (cases "m s"; cases "fst (m s)") (auto simp: bnd_def)

lemma bnd_InrE:
  assumes "bnd m f s = (Inr y, t)"
  obtains x u where "m s = (Inr x, u)" and "f x u = (Inr y, t)"
  using assms by (rule bnd_cases) auto

lemma sq_InrE:
  assumes "sq m n s = (Inr y, t)"
  obtains x u where "m s = (Inr x, u)" and "n u = (Inr y, t)"
  using assms unfolding sq_def by (rule bnd_InrE) auto

lemma sq_cases:
  assumes "sq m n s = (r, t)"
  obtains (err) e where "m s = (Inl e, t)" and "r = Inl e"
    | (ok) x u where "m s = (Inr x, u)" and "n u = (r, t)"
  using assms unfolding sq_def by (rule bnd_cases) auto

lemma or_else_Inr [simp]: "m s = (Inr x, t) \<Longrightarrow> or_else e m s = (Inr x, t)"
  by (simp add: or_else_def)

lemma or_else_Err [simp]: "m s = (Inl (Err a), t) \<Longrightarrow> or_else e m s = (Inl (Err e), t)"
  by (simp add: or_else_def)

lemma or_else_Fault [simp]: "m s = (Inl Fault, t) \<Longrightarrow> or_else e m s = (Inl Fault, t)"
  by (simp add: or_else_def)

lemma or_else_InrD: "or_else e m s = (Inr x, t) \<Longrightarrow> m s = (Inr x, t)"
  by (auto simp: or_else_def split: prod.splits sum.splits cerr.splits)

lemma or_else_FaultD: "or_else e m s = (Inl Fault, t) \<Longrightarrow> m s = (Inl Fault, t)"
  by (auto simp: or_else_def split: prod.splits sum.splits cerr.splits)

section \<open>Regions of a buffer\<close>

definition slice :: "nat \<Rightarrow> nat \<Rightarrow> 'a list \<Rightarrow> 'a list" where
  "slice i n xs = take n (drop i xs)"

definition overwrite :: "nat \<Rightarrow> 'a list \<Rightarrow> 'a list \<Rightarrow> 'a list" where
  "overwrite i ys xs = take i xs @ ys @ drop (i + length ys) xs"

lemma length_slice [simp]: "i + n \<le> length xs \<Longrightarrow> length (slice i n xs) = n"
  by (simp add: slice_def)

lemma length_overwrite [simp]:
  "i + length ys \<le> length xs \<Longrightarrow> length (overwrite i ys xs) = length xs"
  by (simp add: overwrite_def)

lemma take_overwrite [simp]:
  "j \<le> i \<Longrightarrow> i \<le> length xs \<Longrightarrow> take j (overwrite i ys xs) = take j xs"
  by (simp add: overwrite_def min_def)

lemma slice_overwrite [simp]:
  "i \<le> length xs \<Longrightarrow> n = length ys \<Longrightarrow> slice i n (overwrite i ys xs) = ys"
  by (simp add: overwrite_def slice_def)

lemma slice_take: "i + n \<le> m \<Longrightarrow> slice i n (take m xs) = slice i n xs"
  by (simp add: slice_def drop_take)

lemma slice_cong_take:
  "take m xs = take m ys \<Longrightarrow> i + n \<le> m \<Longrightarrow> slice i n xs = slice i n ys"
  by (metis slice_take)

lemma take_le_cong: "take m xs = take m ys \<Longrightarrow> k \<le> m \<Longrightarrow> take k xs = take k ys"
  by (metis min.absorb1 take_take)

section \<open>Byte orders\<close>

text \<open>The memory image of an unsigned integer of \<open>n\<close> bytes.\<close>

fun le_bytes :: "nat \<Rightarrow> nat \<Rightarrow> byte list" where
  "le_bytes 0 v = []"
| "le_bytes (Suc n) v = word_of_nat (v mod 256) # le_bytes n (v div 256)"

fun le_nat :: "byte list \<Rightarrow> nat" where
  "le_nat [] = 0"
| "le_nat (b # bs) = unat b + 256 * le_nat bs"

definition be_bytes :: "nat \<Rightarrow> nat \<Rightarrow> byte list" where
  "be_bytes n v = rev (le_bytes n v)"

definition be_nat :: "byte list \<Rightarrow> nat" where
  "be_nat bs = le_nat (rev bs)"

lemma length_le_bytes [simp]: "length (le_bytes n v) = n"
  by (induction n arbitrary: v) auto

lemma length_be_bytes [simp]: "length (be_bytes n v) = n"
  by (simp add: be_bytes_def)

lemma unat_byte_of_nat: "unat (word_of_nat (v mod 256) :: byte) = v mod 256"
  by (simp add: unat_of_nat)

lemma le_nat_le_bytes: "le_nat (le_bytes n v) = v mod 256 ^ n"
proof (induction n arbitrary: v)
  case 0
  then show ?case by simp
next
  case (Suc n)
  have "v mod (256 * 256 ^ n) = 256 * (v div 256 mod 256 ^ n) + v mod 256"
    by (rule mod_mult2_eq)
  with Suc show ?case by (simp add: unat_byte_of_nat)
qed

lemma be_nat_be_bytes: "be_nat (be_bytes n v) = v mod 256 ^ n"
  by (simp add: be_nat_def be_bytes_def le_nat_le_bytes)

lemma le_nat_bound: "le_nat bs < 256 ^ length bs"
proof (induction bs)
  case Nil
  then show ?case by simp
next
  case (Cons b bs)
  have "unat b < 256"
    using unsigned_less [of b] by simp
  with Cons show ?case by simp
qed

lemma le_bytes_le_nat: "n = length bs \<Longrightarrow> le_bytes n (le_nat bs) = bs"
proof (induction bs arbitrary: n)
  case Nil
  then show ?case by simp
next
  case (Cons b bs)
  have b: "unat b < 256"
    using unsigned_less [of b] by simp
  then have "(unat b + 256 * le_nat bs) div 256 = le_nat bs"
    and "(unat b + 256 * le_nat bs) mod 256 = unat b"
    by simp_all
  with Cons show ?case by simp
qed

end
