(* ===== verification/Tools.thy ===== *)
theory Tools
  imports Prelude
begin

text \<open>
  The helpers of \<open>src/tools/tools.c\<close> that the other components call: charset conversion with
  its alternative names, and the two text transformations of the JSON logger.  GLib's
  \<open>g_convert\<close> is a parameter, a function of the target charset, the source charset and the
  bytes that returns the converted bytes or fails.
\<close>

section \<open>Charset conversion\<close>

definition KSMBD_CHARSET_UTF8 :: nat where "KSMBD_CHARSET_UTF8 = 0"
definition KSMBD_CHARSET_UTF16LE :: nat where "KSMBD_CHARSET_UTF16LE = 1"
definition KSMBD_CHARSET_UCS2LE :: nat where "KSMBD_CHARSET_UCS2LE = 2"
definition KSMBD_CHARSET_UTF16BE :: nat where "KSMBD_CHARSET_UTF16BE = 3"
definition KSMBD_CHARSET_UCS2BE :: nat where "KSMBD_CHARSET_UCS2BE = 4"
definition KSMBD_CHARSET_MAX :: nat where "KSMBD_CHARSET_MAX = 5"

lemmas charset_defs = KSMBD_CHARSET_UTF8_def KSMBD_CHARSET_UTF16LE_def KSMBD_CHARSET_UCS2LE_def
  KSMBD_CHARSET_UTF16BE_def KSMBD_CHARSET_UCS2BE_def KSMBD_CHARSET_MAX_def

definition ksmbd_conv_charsets :: "string list" where
  "ksmbd_conv_charsets = [''UTF-8'', ''UTF-16LE'', ''UCS-2LE'', ''UTF-16BE'', ''UCS-2BE'', ''OOPS'']"

type_synonym g_convert = "string \<Rightarrow> string \<Rightarrow> byte list \<Rightarrow> byte list option"

definition codeset_has_altname :: "nat \<Rightarrow> bool" where
  "codeset_has_altname c \<longleftrightarrow> c = KSMBD_CHARSET_UTF16LE \<or> c = KSMBD_CHARSET_UTF16BE"

function ksmbd_gconvert :: "g_convert \<Rightarrow> byte list \<Rightarrow> nat \<Rightarrow> nat \<Rightarrow> byte list option" where
  "ksmbd_gconvert g str to_codeset from_codeset =
    (if from_codeset \<ge> KSMBD_CHARSET_MAX then None
     else if to_codeset \<ge> KSMBD_CHARSET_MAX then None
     else case g (ksmbd_conv_charsets ! to_codeset) (ksmbd_conv_charsets ! from_codeset) str of
       Some converted \<Rightarrow> Some converted
     | None \<Rightarrow>
        if codeset_has_altname to_codeset \<or> codeset_has_altname from_codeset
        then ksmbd_gconvert g str
          (if codeset_has_altname to_codeset then Suc to_codeset else to_codeset)
          (if codeset_has_altname from_codeset then Suc from_codeset else from_codeset)
        else None)"
  by pat_completeness auto
termination
  by (relation "measure (\<lambda>(g, s, t, f). of_bool (codeset_has_altname t) + of_bool (codeset_has_altname f))")
    (auto simp: codeset_has_altname_def charset_defs)

declare ksmbd_gconvert.simps [simp del]

section \<open>Logger text\<close>

text \<open>
  \<open>json_escape_string\<close> into a buffer of \<open>dst_sz\<close> bytes.  The accumulator holds the bytes
  written so far, so its length is \<open>di\<close>; the result is the string left in the buffer, without
  its final zero.
\<close>

fun json_escape_from :: "nat \<Rightarrow> byte list \<Rightarrow> byte list \<Rightarrow> byte list" where
  "json_escape_from dst_sz dst [] = dst"
| "json_escape_from dst_sz dst (c # src) =
    (if \<not> length dst + 2 < dst_sz then dst
     else if c = 0x22 \<or> c = 0x5C then
       (if length (dst @ [0x5C]) + 1 \<ge> dst_sz then dst @ [0x5C]
        else json_escape_from dst_sz (dst @ [0x5C, c]) src)
     else if c = 0x0A then
       (if length (dst @ [0x5C]) + 1 \<ge> dst_sz then dst @ [0x5C]
        else json_escape_from dst_sz (dst @ [0x5C, 0x6E]) src)
     else if c = 0x09 then
       (if length (dst @ [0x5C]) + 1 \<ge> dst_sz then dst @ [0x5C]
        else json_escape_from dst_sz (dst @ [0x5C, 0x74]) src)
     else if c \<ge> 0x20 then json_escape_from dst_sz (dst @ [c]) src
     else json_escape_from dst_sz dst src)"

definition json_escape_string :: "byte list \<Rightarrow> nat \<Rightarrow> byte list" where
  "json_escape_string src dst_sz = json_escape_from dst_sz [] src"

text \<open>
  \<open>strip_log_prefix\<close>: the escape codes, then the \<open>[tool/pid]: LEVEL:\<close> prefix, then trailing
  line ends.
\<close>

definition bytes_of :: "string \<Rightarrow> byte list" where
  "bytes_of s = map (\<lambda>c. word_of_nat (of_char c)) s"

function strip_ansi :: "byte list \<Rightarrow> byte list" where
  "strip_ansi [] = []"
| "strip_ansi (c # s) =
    (if c = 0x1B
     then (case dropWhile (\<lambda>x. x \<noteq> 0x6D) s of [] \<Rightarrow> [] | m # rest \<Rightarrow> strip_ansi rest)
     else c # strip_ansi s)"
  by pat_completeness auto
termination
proof (relation "measure length", goal_cases)
  case (2 c s x21 x22)
  then show ?case
    using length_dropWhile_le [of "\<lambda>x. x \<noteq> 0x6D" s] by simp
qed auto

definition strip_level :: "byte list \<Rightarrow> byte list" where
  "strip_level s =
    (if take 7 s = bytes_of ''ERROR: '' then drop 7 s
     else if take 6 s = bytes_of ''INFO: '' then drop 6 s
     else if take 7 s = bytes_of ''DEBUG: '' then drop 7 s
     else s)"

definition strip_app :: "byte list \<Rightarrow> byte list" where
  "strip_app s =
    (if s \<noteq> [] \<and> hd s = 0x5B \<and> 0x5D \<in> set s
     then strip_level (dropWhile (\<lambda>c. c = 0x3A \<or> c = 0x20) (tl (dropWhile (\<lambda>c. c \<noteq> 0x5D) s)))
     else s)"

definition strip_log_prefix :: "byte list \<Rightarrow> byte list" where
  "strip_log_prefix msg =
     rev (dropWhile (\<lambda>c. c = 0x0A \<or> c = 0x0D) (rev (strip_app (strip_ansi msg))))"

section \<open>What the helpers guarantee\<close>

lemma ksmbd_gconvert_first:
  "g (ksmbd_conv_charsets ! t) (ksmbd_conv_charsets ! f) s = Some out \<Longrightarrow> t < KSMBD_CHARSET_MAX \<Longrightarrow>
   f < KSMBD_CHARSET_MAX \<Longrightarrow> ksmbd_gconvert g s t f = Some out"
  by (simp add: ksmbd_gconvert.simps)

lemma length_charsets: "length ksmbd_conv_charsets = Suc KSMBD_CHARSET_MAX"
  by (simp add: ksmbd_conv_charsets_def charset_defs)

lemma ksmbd_gconvert_some:
  assumes "ksmbd_gconvert g s t f = Some out"
  shows "\<exists>a b. g a b s = Some out \<and> a \<in> set ksmbd_conv_charsets \<and> b \<in> set ksmbd_conv_charsets"
  using assms
proof (induction g s t f rule: ksmbd_gconvert.induct)
  case (1 g s t f)
  show ?case
  proof (cases "t < KSMBD_CHARSET_MAX \<and> f < KSMBD_CHARSET_MAX")
    case True
    then have m: "ksmbd_conv_charsets ! t \<in> set ksmbd_conv_charsets"
        "ksmbd_conv_charsets ! f \<in> set ksmbd_conv_charsets"
      by (auto intro!: nth_mem simp: charset_defs length_charsets)
    show ?thesis
    proof (cases "g (ksmbd_conv_charsets ! t) (ksmbd_conv_charsets ! f) s")
      case None
      with True 1 show ?thesis
        by (subst (asm) (2) ksmbd_gconvert.simps) (auto split: if_splits)
    next
      case (Some c)
      with True 1(2) m show ?thesis
        by (auto simp: ksmbd_gconvert.simps [of g s t f])
    qed
  next
    case False
    with 1(2) show ?thesis by (auto simp: ksmbd_gconvert.simps [of g s t f] not_less split: if_splits)
  qed
qed

text \<open>A JSON string body: no bare quote or control byte, and every backslash starts an escape.\<close>

fun json_body :: "byte list \<Rightarrow> bool" where
  "json_body [] = True"
| "json_body [c] = (c \<noteq> 0x22 \<and> c \<noteq> 0x5C \<and> c \<ge> 0x20)"
| "json_body (c # e # cs) =
    (if c = 0x5C then e \<in> {0x22, 0x5C, 0x6E, 0x74} \<and> json_body cs
     else c \<noteq> 0x22 \<and> c \<ge> 0x20 \<and> json_body (e # cs))"

lemma json_body_append_plain:
  "json_body xs \<Longrightarrow> c \<noteq> 0x22 \<Longrightarrow> c \<noteq> 0x5C \<Longrightarrow> c \<ge> 0x20 \<Longrightarrow> json_body (xs @ [c])"
  by (induction xs rule: json_body.induct) (auto split: if_splits)

lemma json_body_append_escape:
  "json_body xs \<Longrightarrow> e \<in> {0x22, 0x5C, 0x6E, 0x74} \<Longrightarrow> json_body (xs @ [0x5C, e])"
  by (induction xs rule: json_body.induct) (auto split: if_splits)

lemma json_escape_from_ok:
  "json_body dst \<Longrightarrow> length dst < dst_sz \<Longrightarrow>
   json_body (json_escape_from dst_sz dst src) \<and> length (json_escape_from dst_sz dst src) < dst_sz"
proof (induction dst_sz dst src rule: json_escape_from.induct)
  case (2 dst_sz dst c src)
  then show ?case
    by (auto simp: json_body_append_plain json_body_append_escape)
qed simp

lemma strip_ansi_no_escape: "0x1B \<notin> set (strip_ansi s)"
proof (induction s rule: strip_ansi.induct)
  case (2 c s)
  then show ?case by (simp split: list.split) metis
qed simp

lemma set_strip_ansi: "set (strip_ansi s) \<subseteq> set s"
proof (induction s rule: strip_ansi.induct)
  case (2 c s)
  have "set rest \<subseteq> set s" if "dropWhile (\<lambda>x. x \<noteq> 0x6D) s = m # rest" for m rest
    using that set_dropWhileD [of _ "\<lambda>x. x \<noteq> 0x6D" s] by auto
  with 2 show ?case
    by (auto split: list.splits if_splits) (metis subsetD)
qed simp

lemma set_strip_level: "set (strip_level s) \<subseteq> set s"
  by (auto simp: strip_level_def dest: in_set_dropD)

lemma set_strip_app: "set (strip_app s) \<subseteq> set s"
proof -
  have tl: "set (tl xs) \<subseteq> set xs" for xs :: "byte list"
    by (cases xs) auto
  have dw: "set (dropWhile P xs) \<subseteq> set xs" for P and xs :: "byte list"
    by (auto dest: set_dropWhileD)
  have "set (dropWhile Q (tl (dropWhile P s))) \<subseteq> set s" for P Q
    using dw [of Q] tl dw [of P s] by (rule subset_trans [OF subset_trans])
  then show ?thesis
    using subset_trans [OF set_strip_level] by (simp add: strip_app_def)
qed

section \<open>Properties of the logger text\<close>

text \<open>What \<open>json_escape_string\<close> leaves in a buffer of \<open>dst_sz\<close> bytes is the body of a JSON
  string, whatever the input is and wherever the buffer ends, and with its final zero it fits
  the buffer.\<close>

theorem json_escape_string_ok:
  assumes "0 < dst_sz"
  shows "json_body (json_escape_string src dst_sz) \<and> length (json_escape_string src dst_sz) < dst_sz"
  unfolding json_escape_string_def using assms by (intro json_escape_from_ok) simp_all

theorem json_escape_string_ok_witness:
  "json_escape_string [0x61, 0x22, 0x0A, 0x62] 6 = [0x61, 0x5C, 0x22, 0x5C, 0x6E]
   \<and> json_body (json_escape_string [0x61, 0x22, 0x0A, 0x62] 6)
   \<and> length (json_escape_string [0x61, 0x22, 0x0A, 0x62] 6) < 6"
  using json_escape_string_ok [of 6 "[0x61, 0x22, 0x0A, 0x62]"] by (simp add: json_escape_string_def)

text \<open>A stripped log line has no escape byte, does not end in a line end, and has only bytes
  of the message.\<close>

theorem strip_log_prefix_clean:
  "0x1B \<notin> set (strip_log_prefix msg) \<and> set (strip_log_prefix msg) \<subseteq> set msg
   \<and> (strip_log_prefix msg = [] \<or> last (strip_log_prefix msg) \<notin> {0x0A, 0x0D})"
proof -
  let ?t = "strip_app (strip_ansi msg)"
  have s: "set (strip_log_prefix msg) \<subseteq> set ?t"
    unfolding strip_log_prefix_def by (auto dest: set_dropWhileD)
  then have "0x1B \<notin> set (strip_log_prefix msg)" and "set (strip_log_prefix msg) \<subseteq> set msg"
    using set_strip_app [of "strip_ansi msg"] set_strip_ansi [of msg] strip_ansi_no_escape [of msg] by blast+
  moreover have "strip_log_prefix msg = [] \<or> last (strip_log_prefix msg) \<notin> {0x0A, 0x0D}"
    using hd_dropWhile [of "\<lambda>c. c = 0x0A \<or> c = 0x0D" "rev ?t"]
    by (auto simp: strip_log_prefix_def last_rev)
  ultimately show ?thesis by blast
qed

theorem strip_log_prefix_clean_witness:
  "strip_log_prefix (bytes_of ''[a]: INFO: hi'' @ [0x0A]) = bytes_of ''hi''
   \<and> last (strip_log_prefix (bytes_of ''[a]: INFO: hi'' @ [0x0A])) \<notin> {0x0A, 0x0D}"
proof -
  have "strip_log_prefix (bytes_of ''[a]: INFO: hi'' @ [0x0A]) = bytes_of ''hi''"
    by (simp add: strip_log_prefix_def strip_app_def strip_level_def bytes_of_def of_char_def)
  moreover have "bytes_of ''hi'' \<noteq> []"
    by (simp add: bytes_of_def)
  ultimately show ?thesis
    using strip_log_prefix_clean [of "bytes_of ''[a]: INFO: hi'' @ [0x0A]"] by simp
qed

end
