(* ===== verification/Ndr.thy ===== *)
theory Ndr
  imports Prelude Tools
begin

text \<open>
  The NDR marshalling layer of \<open>src/mountd/rpc.c\<close>: the cursor part of
  \<open>struct ksmbd_dcerpc\<close>, alignment, the growing of the payload, the integer, union and byte
  readers and writers, and the conformant-varying strings.  \<open>dce_payload\<close> is the memory behind
  the payload pointer; \<open>dce_payload_sz\<close> is what the code believes its size to be.
\<close>

section \<open>The cursor\<close>

record ksmbd_dcerpc =
  dce_flags :: u32
  dce_offset :: u64
  dce_payload_sz :: u64
  dce_payload :: "byte list"
  dce_num_pointers :: u32

definition KSMBD_DCERPC_LITTLE_ENDIAN :: u32 where "KSMBD_DCERPC_LITTLE_ENDIAN = 0x01"
definition KSMBD_DCERPC_ALIGN4 :: u32 where "KSMBD_DCERPC_ALIGN4 = 0x04"
definition KSMBD_DCERPC_ALIGN8 :: u32 where "KSMBD_DCERPC_ALIGN8 = 0x08"
definition KSMBD_DCERPC_ASCII_STRING :: u32 where "KSMBD_DCERPC_ASCII_STRING = 0x10"
definition KSMBD_DCERPC_FIXED_PAYLOAD_SZ :: u32 where "KSMBD_DCERPC_FIXED_PAYLOAD_SZ = 0x20"
definition KSMBD_DCERPC_EXTERNAL_PAYLOAD :: u32 where "KSMBD_DCERPC_EXTERNAL_PAYLOAD = 0x40"
definition KSMBD_DCERPC_RETURN_READY :: u32 where "KSMBD_DCERPC_RETURN_READY = 0x80"

lemmas dce_flag_defs = KSMBD_DCERPC_LITTLE_ENDIAN_def KSMBD_DCERPC_ALIGN4_def
  KSMBD_DCERPC_ALIGN8_def KSMBD_DCERPC_ASCII_STRING_def KSMBD_DCERPC_FIXED_PAYLOAD_SZ_def
  KSMBD_DCERPC_EXTERNAL_PAYLOAD_def KSMBD_DCERPC_RETURN_READY_def

definition dce_test :: "u32 \<Rightarrow> 'x ksmbd_dcerpc_scheme \<Rightarrow> bool" where
  "dce_test f d \<longleftrightarrow> dce_flags d AND f \<noteq> 0"

definition dcerpc_set_ext_payload ::
    "byte list \<Rightarrow> u64 \<Rightarrow> 'x ksmbd_dcerpc_scheme \<Rightarrow> 'x ksmbd_dcerpc_scheme" where
  "dcerpc_set_ext_payload p sz d = d\<lparr>dce_num_pointers := 1, dce_payload := p,
     dce_payload_sz := sz, dce_offset := 0,
     dce_flags := dce_flags d OR KSMBD_DCERPC_EXTERNAL_PAYLOAD OR KSMBD_DCERPC_FIXED_PAYLOAD_SZ\<rparr>"

section \<open>Alignment and room\<close>

definition ALIGN_MASK :: "u64 \<Rightarrow> u64 \<Rightarrow> u64" where
  "ALIGN_MASK x m = (x + m) AND NOT m"

definition ALIGN :: "u64 \<Rightarrow> u64 \<Rightarrow> u64" where
  "ALIGN x a = (if x AND (a - 1) \<noteq> 0 then ALIGN_MASK x (a - 1) else x)"

definition align_offset :: "u64 \<Rightarrow> ('x ksmbd_dcerpc_scheme, unit) act" where
  "align_offset n = modify (\<lambda>d. d\<lparr>dce_offset := ALIGN (dce_offset d) n\<rparr>)"

definition auto_align_offset :: "('x ksmbd_dcerpc_scheme, unit) act" where
  "auto_align_offset = modify (\<lambda>d.
     if dce_test KSMBD_DCERPC_ALIGN8 d then d\<lparr>dce_offset := ALIGN (dce_offset d) 8\<rparr>
     else if dce_test KSMBD_DCERPC_ALIGN4 d then d\<lparr>dce_offset := ALIGN (dce_offset d) 4\<rparr>
     else d)"

text \<open>
  \<open>try_realloc_payload\<close>: the payload grows by one step of 4096 bytes, whatever \<open>data_sz\<close> is.
  The \<open>memset\<close> after it runs from the offset to the new end, so an offset beyond that end is an
  access outside the buffer.  \<open>g_try_realloc\<close> is taken to succeed; bytes it leaves
  indeterminate are represented by zero.
\<close>

definition try_realloc_payload :: "u64 \<Rightarrow> ('x ksmbd_dcerpc_scheme, unit) act" where
  "try_realloc_payload data_sz = (\<lambda>d.
     if data_sz > - 1 - dce_offset d then (Inl (Err ENOMEM), d)
     else if dce_offset d + data_sz \<le> dce_payload_sz d then (Inr (), d)
     else if dce_test KSMBD_DCERPC_FIXED_PAYLOAD_SZ d then (Inl (Err ENOMEM), d)
     else let buf = dce_payload d @ replicate 4096 0; off = unat (dce_offset d);
              sz = dce_payload_sz d + 4096
          in if off + unat (sz - dce_offset d) \<le> length buf
             then (Inr (), d\<lparr>dce_payload_sz := sz,
                dce_payload := overwrite off (replicate (unat (sz - dce_offset d)) 0) buf\<rparr>)
             else (Inl Fault, d\<lparr>dce_payload_sz := sz, dce_payload := buf\<rparr>))"

text \<open>\<open>memcpy\<close> to and from \<open>PAYLOAD_HEAD\<close>, and the advance of the offset.\<close>

definition dce_store :: "byte list \<Rightarrow> ('x ksmbd_dcerpc_scheme, unit) act" where
  "dce_store bs = (\<lambda>d.
     if unat (dce_offset d) + length bs \<le> length (dce_payload d)
     then (Inr (), d\<lparr>dce_payload := overwrite (unat (dce_offset d)) bs (dce_payload d)\<rparr>)
     else (Inl Fault, d))"

definition dce_load :: "nat \<Rightarrow> ('x ksmbd_dcerpc_scheme, byte list) act" where
  "dce_load n = (\<lambda>d.
     if unat (dce_offset d) + n \<le> length (dce_payload d)
     then (Inr (slice (unat (dce_offset d)) n (dce_payload d)), d)
     else (Inl Fault, d))"

definition dce_advance :: "nat \<Rightarrow> ('x ksmbd_dcerpc_scheme, unit) act" where
  "dce_advance n = modify (\<lambda>d. d\<lparr>dce_offset := dce_offset d + word_of_nat n\<rparr>)"

section \<open>Integers, unions and byte runs\<close>

definition enc_int :: "bool \<Rightarrow> nat \<Rightarrow> nat \<Rightarrow> byte list" where
  "enc_int le n v = (if le then le_bytes n v else be_bytes n v)"

definition dec_int :: "bool \<Rightarrow> byte list \<Rightarrow> nat" where
  "dec_int le bs = (if le then le_nat bs else be_nat bs)"

text \<open>\<open>NDR_WRITE_INT\<close> and \<open>NDR_READ_INT\<close> for a type of \<open>n\<close> bytes, and their four instances.\<close>

definition ndr_write_int :: "nat \<Rightarrow> nat \<Rightarrow> ('x ksmbd_dcerpc_scheme, unit) act" where
  "ndr_write_int n v =
     sq (align_offset (word_of_nat n))
    (sq (or_else ENOMEM (try_realloc_payload (word_of_nat n)))
    (sq (bnd (reads (dce_test KSMBD_DCERPC_LITTLE_ENDIAN)) (\<lambda>le. dce_store (enc_int le n v)))
        (dce_advance n)))"

definition ndr_read_int :: "nat \<Rightarrow> ('x ksmbd_dcerpc_scheme, nat) act" where
  "ndr_read_int n =
     sq (align_offset (word_of_nat n))
    (sq (\<lambda>d. if dce_offset d + word_of_nat n > dce_payload_sz d
              then (Inl (Err EINVAL), d) else (Inr (), d))
    (bnd (dce_load n) (\<lambda>raw.
     bnd (reads (\<lambda>d. dec_int (dce_test KSMBD_DCERPC_LITTLE_ENDIAN d) raw)) (\<lambda>v.
     sq (dce_advance n) (ret v)))))"

definition ndr_write_int8 :: "u8 \<Rightarrow> ('x ksmbd_dcerpc_scheme, unit) act" where
  "ndr_write_int8 v = ndr_write_int 1 (unat v)"
definition ndr_write_int16 :: "u16 \<Rightarrow> ('x ksmbd_dcerpc_scheme, unit) act" where
  "ndr_write_int16 v = ndr_write_int 2 (unat v)"
definition ndr_write_int32 :: "u32 \<Rightarrow> ('x ksmbd_dcerpc_scheme, unit) act" where
  "ndr_write_int32 v = ndr_write_int 4 (unat v)"
definition ndr_write_int64 :: "u64 \<Rightarrow> ('x ksmbd_dcerpc_scheme, unit) act" where
  "ndr_write_int64 v = ndr_write_int 8 (unat v)"

definition ndr_read_int8 :: "('x ksmbd_dcerpc_scheme, u8) act" where
  "ndr_read_int8 = bnd (ndr_read_int 1) (\<lambda>v. ret (word_of_nat v))"
definition ndr_read_int16 :: "('x ksmbd_dcerpc_scheme, u16) act" where
  "ndr_read_int16 = bnd (ndr_read_int 2) (\<lambda>v. ret (word_of_nat v))"
definition ndr_read_int32 :: "('x ksmbd_dcerpc_scheme, u32) act" where
  "ndr_read_int32 = bnd (ndr_read_int 4) (\<lambda>v. ret (word_of_nat v))"
definition ndr_read_int64 :: "('x ksmbd_dcerpc_scheme, u64) act" where
  "ndr_read_int64 = bnd (ndr_read_int 8) (\<lambda>v. ret (word_of_nat v))"

definition ndr_write_union_int16 :: "u16 \<Rightarrow> ('x ksmbd_dcerpc_scheme, unit) act" where
  "ndr_write_union_int16 v = sq (ndr_write_int16 v) (ndr_write_int16 v)"
definition ndr_write_union_int32 :: "u32 \<Rightarrow> ('x ksmbd_dcerpc_scheme, unit) act" where
  "ndr_write_union_int32 v = sq (ndr_write_int32 v) (ndr_write_int32 v)"

definition ndr_read_union_int32 :: "('x ksmbd_dcerpc_scheme, u32) act" where
  "ndr_read_union_int32 =
     bnd (or_else EINVAL ndr_read_int32) (\<lambda>val1.
     bnd (or_else EINVAL ndr_read_int32) (\<lambda>val2.
     if val1 \<noteq> val2 then fail (Err EINVAL) else ret val1))"

definition ndr_write_bytes :: "byte list \<Rightarrow> ('x ksmbd_dcerpc_scheme, unit) act" where
  "ndr_write_bytes bs =
     sq (align_offset 2)
    (sq (or_else ENOMEM (try_realloc_payload (word_of_nat (length bs))))
    (sq (dce_store bs) (dce_advance (length bs))))"

definition ndr_read_bytes :: "nat \<Rightarrow> ('x ksmbd_dcerpc_scheme, byte list) act" where
  "ndr_read_bytes n =
     sq (align_offset 2)
    (sq (\<lambda>d. if dce_offset d + word_of_nat n > dce_payload_sz d
              then (Inl (Err EINVAL), d) else (Inr (), d))
    (bnd (dce_load n) (\<lambda>bs. sq (dce_advance n) (ret bs))))"

section \<open>Strings\<close>

text \<open>
  Strings of the C code are byte lists without their terminator; \<open>None\<close> is the NULL pointer.
  \<open>g_utf8_strlen\<close> is a parameter like \<open>g_convert\<close>.  A NULL result of \<open>ndr_read_vstring\<close> is
  the error \<open>EINVAL\<close>, which is what every caller makes of it.
\<close>

definition ndr_charset :: "'x ksmbd_dcerpc_scheme \<Rightarrow> nat" where
  "ndr_charset d =
    (if dce_test KSMBD_DCERPC_ASCII_STRING d then KSMBD_CHARSET_UTF8
     else if \<not> dce_test KSMBD_DCERPC_LITTLE_ENDIAN d then KSMBD_CHARSET_UTF16BE
     else KSMBD_CHARSET_UTF16LE)"

definition ndr_convert_char_to_unicode ::
    "g_convert \<Rightarrow> byte list \<Rightarrow> ('x ksmbd_dcerpc_scheme, byte list) act" where
  "ndr_convert_char_to_unicode g str =
     bnd (reads (\<lambda>d. ksmbd_gconvert g str (ndr_charset d) KSMBD_CHARSET_UTF8)) (\<lambda>out.
     case out of None \<Rightarrow> fail (Err EINVAL) | Some bs \<Rightarrow> ret bs)"

definition cstr :: "byte list option \<Rightarrow> byte list" where
  "cstr s = (case s of None \<Rightarrow> [] | Some bs \<Rightarrow> bs)"

definition ndr_write_vstring ::
    "g_convert \<Rightarrow> (byte list \<Rightarrow> nat) \<Rightarrow> byte list option \<Rightarrow> ('x ksmbd_dcerpc_scheme, unit) act" where
  "ndr_write_vstring g g_utf8_strlen value =
     bnd (ndr_convert_char_to_unicode g (cstr value @ [0])) (\<lambda>out.
     let str_len = word_of_nat (g_utf8_strlen (cstr value) + 1) in
     sq (ndr_write_int32 str_len)
    (sq (ndr_write_int32 0)
    (sq (ndr_write_int32 str_len)
    (sq (ndr_write_bytes out) auto_align_offset))))"

text \<open>\<open>ndr_write_string\<close> and \<open>ndr_write_lsa_string\<close> align even when the last write failed.\<close>

definition ndr_write_bytes_aligned :: "byte list \<Rightarrow> ('x ksmbd_dcerpc_scheme, unit) act" where
  "ndr_write_bytes_aligned out =
     (\<lambda>d. case ndr_write_bytes out d of (r, t) \<Rightarrow> (r, snd (auto_align_offset t)))"

definition ndr_write_string :: "g_convert \<Rightarrow> byte list option \<Rightarrow> ('x ksmbd_dcerpc_scheme, unit) act" where
  "ndr_write_string g str =
     bnd (ndr_convert_char_to_unicode g (cstr str @ [0])) (\<lambda>out.
     let len = length (cstr str) in
     sq (ndr_write_int32 (word_of_nat (len + 1)))
    (sq (ndr_write_int32 0)
    (sq (ndr_write_int32 (word_of_nat (len + 1)))
        (ndr_write_bytes_aligned out))))"

definition ndr_write_lsa_string :: "g_convert \<Rightarrow> byte list option \<Rightarrow> ('x ksmbd_dcerpc_scheme, unit) act" where
  "ndr_write_lsa_string g str =
     bnd (ndr_convert_char_to_unicode g (cstr str)) (\<lambda>out.
     let len = length (cstr str) in
     sq (ndr_write_int32 (word_of_nat (len + 1)))
    (sq (ndr_write_int32 0)
    (sq (ndr_write_int32 (word_of_nat len))
        (ndr_write_bytes_aligned out))))"

definition vstring_bytes :: "u32 \<Rightarrow> ('x ksmbd_dcerpc_scheme, nat) act" where
  "vstring_bytes actual_len = (\<lambda>d.
     if dce_offset d > dce_payload_sz d then (Inl (Err EINVAL), d)
     else if dce_test KSMBD_DCERPC_ASCII_STRING d then
       (if ucast actual_len > dce_payload_sz d - dce_offset d then (Inl (Err EINVAL), d)
        else (Inr (unat actual_len), d))
     else if ucast actual_len > (dce_payload_sz d - dce_offset d) div 2 then (Inl (Err EINVAL), d)
     else (Inr (unat actual_len * 2), d))"

definition ndr_read_vstring :: "g_convert \<Rightarrow> ('x ksmbd_dcerpc_scheme, byte list) act" where
  "ndr_read_vstring g =
     bnd (or_else EINVAL ndr_read_int32) (\<lambda>raw_len.
     sq (or_else EINVAL ndr_read_int32)
    (bnd (or_else EINVAL ndr_read_int32) (\<lambda>actual_len.
     if actual_len > raw_len then fail (Err EINVAL)
     else if actual_len = 0 then ret []
     else
     bnd (vstring_bytes actual_len) (\<lambda>raw_bytes.
     bnd (dce_load raw_bytes) (\<lambda>raw.
     bnd (reads (\<lambda>d. ksmbd_gconvert g raw KSMBD_CHARSET_UTF8 (ndr_charset d))) (\<lambda>out.
     case out of None \<Rightarrow> fail (Err EINVAL)
     | Some bs \<Rightarrow> sq (dce_advance raw_bytes) (sq auto_align_offset
                  (ret (takeWhile (\<lambda>b. b \<noteq> 0) bs)))))))))"

record ndr_uniq_char_ptr =
  uniq_ref_id :: u32
  uniq_str :: "byte list option"

definition ndr_read_vstring_ptr :: "g_convert \<Rightarrow> ('x ksmbd_dcerpc_scheme, byte list) act" where
  "ndr_read_vstring_ptr g = or_else EINVAL (ndr_read_vstring g)"

definition ndr_read_uniq_vstring_ptr :: "g_convert \<Rightarrow> ('x ksmbd_dcerpc_scheme, ndr_uniq_char_ptr) act" where
  "ndr_read_uniq_vstring_ptr g =
     bnd (or_else EINVAL ndr_read_int32) (\<lambda>ref_id.
     if ref_id = 0 then ret \<lparr>uniq_ref_id = 0, uniq_str = None\<rparr>
     else bnd (or_else EINVAL (ndr_read_vstring g)) (\<lambda>s.
          ret \<lparr>uniq_ref_id = ref_id, uniq_str = Some s\<rparr>))"

definition ndr_read_ptr :: "('x ksmbd_dcerpc_scheme, u32) act" where
  "ndr_read_ptr = or_else EINVAL ndr_read_int32"

text \<open>\<open>ndr_read_uniq_ptr\<close> returns the referent id and the pointee.\<close>

definition ndr_read_uniq_ptr :: "('x ksmbd_dcerpc_scheme, u32 \<times> u32) act" where
  "ndr_read_uniq_ptr =
     bnd (or_else EINVAL ndr_read_int32) (\<lambda>ref_id.
     if ref_id = 0 then ret (0, 0)
     else bnd (or_else EINVAL ndr_read_int32) (\<lambda>p. ret (ref_id, p)))"

section \<open>Alignment lemmas and the invariant of the cursor\<close>

lemma and_not_mask: "(x :: 'a::len word) AND NOT (mask k) = push_bit k (drop_bit k x)"
  by (rule bit_word_eqI) (auto simp: bit_simps)

lemma unat_and_not_mask:
  "unat ((x :: u64) AND NOT (mask k)) = unat x div 2 ^ k * 2 ^ k"
proof -
  have "unat (push_bit k (drop_bit k x)) = take_bit 64 (push_bit k (unat (drop_bit k x)))"
    using unsigned_push_bit_eq [of k "drop_bit k x", where ?'a = nat] by simp
  also have "\<dots> = unat x div 2 ^ k * 2 ^ k mod 2 ^ 64"
    unfolding unat_drop_bit_eq by (simp only: push_bit_eq_mult drop_bit_eq_div take_bit_eq_mod)
  also have "\<dots> = unat x div 2 ^ k * 2 ^ k"
  proof (rule mod_less)
    have "unat x div 2 ^ k * 2 ^ k \<le> unat x" by simp
    also have "\<dots> < 2 ^ 64" using unsigned_less [of x] by simp
    finally show "unat x div 2 ^ k * 2 ^ k < 2 ^ 64" .
  qed
  finally show ?thesis by (simp only: and_not_mask)
qed

lemma unat_and_mask: "unat ((x :: u64) AND mask k) = unat x mod 2 ^ k"
proof -
  have "unat (take_bit k x) = take_bit k (unat x)"
    by (rule unsigned_take_bit_eq)
  also have "\<dots> = unat x mod 2 ^ k"
    by (rule take_bit_eq_mod)
  finally show ?thesis by (simp only: take_bit_eq_mask)
qed

text \<open>Rounding up to a multiple.\<close>

definition up :: "nat \<Rightarrow> nat \<Rightarrow> nat" where
  "up n x = n * ((x + (n - 1)) div n)"

definition ndr_width :: "nat \<Rightarrow> bool" where
  "ndr_width n \<longleftrightarrow> n = 1 \<or> n = 2 \<or> n = 4 \<or> n = 8"

lemma ndr_width_simps [simp]: "ndr_width 1" "ndr_width (Suc 0)" "ndr_width 2" "ndr_width 4" "ndr_width 8"
  by (simp_all add: ndr_width_def)

lemma up_ge: "ndr_width n \<Longrightarrow> x \<le> up n x"
  by (auto simp: ndr_width_def up_def)

lemma up_less: "ndr_width n \<Longrightarrow> up n x < x + 8"
  unfolding ndr_width_def up_def by (elim disjE; simp; presburger)

lemma up_le: "ndr_width n \<Longrightarrow> x \<le> 8 * k \<Longrightarrow> up n x \<le> 8 * k"
  unfolding ndr_width_def up_def by (elim disjE; simp; presburger)

lemma unat_ALIGN:
  assumes k: "k \<le> 3" and x: "unat x + 8 < 2 ^ 64"
  shows "unat (ALIGN x (2 ^ k)) = up (2 ^ k) (unat x)"
proof -
  let ?a = "2 ^ k :: nat"
  have m: "(2 ^ k - 1 :: u64) = mask k"
    by (simp add: mask_eq_exp_minus_1)
  have a8: "?a \<le> 2 ^ 3"
    by (rule power_increasing [OF k]) simp
  have "k = 0 \<or> k = 1 \<or> k = 2 \<or> k = 3"
    using k by linarith
  then have um: "unat (mask k :: u64) = ?a - 1"
    by (auto simp: mask_eq_exp_minus_1)
  have sum: "unat (x + mask k) = unat x + (?a - 1)"
    using x a8 by (simp add: unat_word_ariths um)
  have low: "x AND mask k = 0 \<longleftrightarrow> unat x mod ?a = 0"
    by (metis unat_and_mask unat_eq_zero)
  show ?thesis
  proof (cases "unat x mod ?a = 0")
    case True
    then obtain q where q: "unat x = ?a * q" by auto
    have "(?a - 1) div ?a = 0"
      by (rule div_less) simp
    then have "(?a * q + (?a - 1)) div ?a = q"
      by (subst div_mult_self4) simp_all
    with True q show ?thesis
      by (simp add: ALIGN_def m low up_def)
  next
    case False
    then show ?thesis
      by (simp add: ALIGN_def ALIGN_MASK_def m low unat_and_not_mask sum up_def mult.commute [of "?a"])
  qed
qed

lemma unat_ALIGN_width:
  assumes "ndr_width n" and "unat x + 8 < 2 ^ 64"
  shows "unat (ALIGN x (word_of_nat n)) = up n (unat x)"
  using assms unat_ALIGN [of 0 x] unat_ALIGN [of 1 x] unat_ALIGN [of 2 x] unat_ALIGN [of 3 x]
  by (auto simp: ndr_width_def)

text \<open>The state in which the marshalling code works: the size is the true one, and the cursor is at
  most 64 bytes behind the end rounded up to eight, as callers place it at the end of a header
  that a short payload may not have.\<close>

definition ndr_inv :: "'x ksmbd_dcerpc_scheme \<Rightarrow> bool" where
  "ndr_inv d \<longleftrightarrow> length (dce_payload d) = unat (dce_payload_sz d)
     \<and> unat (dce_payload_sz d) < 2 ^ 63
     \<and> unat (dce_offset d) \<le> up 8 (unat (dce_payload_sz d)) + 64
     \<and> dce_test KSMBD_DCERPC_FIXED_PAYLOAD_SZ d"

definition seek :: "nat \<Rightarrow> 'x ksmbd_dcerpc_scheme \<Rightarrow> 'x ksmbd_dcerpc_scheme" where
  "seek k d = d\<lparr>dce_offset := word_of_nat k\<rparr>"

definition patch :: "nat \<Rightarrow> byte list \<Rightarrow> 'x ksmbd_dcerpc_scheme \<Rightarrow> 'x ksmbd_dcerpc_scheme" where
  "patch k bs d = d\<lparr>dce_payload := overwrite k bs (dce_payload d)\<rparr>"

lemma ndr_inv_offset: "ndr_inv d \<Longrightarrow> unat (dce_offset d) < 2 ^ 63 + 72"
  using up_less [of 8 "unat (dce_payload_sz d)"] by (auto simp: ndr_inv_def)

lemma align_offset_eq:
  assumes "ndr_inv d" and "ndr_width n"
  shows "align_offset (word_of_nat n) d =
    (Inr (), seek (up n (unat (dce_offset d))) d)"
proof -
  have "unat (ALIGN (dce_offset d) (word_of_nat n)) = up n (unat (dce_offset d))"
    using assms ndr_inv_offset [of d] by (intro unat_ALIGN_width) auto
  then have "word_of_nat (unat (ALIGN (dce_offset d) (word_of_nat n))) =
      (word_of_nat (up n (unat (dce_offset d))) :: u64)"
    by (rule arg_cong)
  then have "ALIGN (dce_offset d) (word_of_nat n) = word_of_nat (up n (unat (dce_offset d)))"
    by simp
  then show ?thesis by (simp add: align_offset_def modify_def seek_def)
qed

lemma try_realloc_payload_fixed:
  assumes "length (dce_payload d) = unat (dce_payload_sz d)" and "unat (dce_payload_sz d) < 2 ^ 63"
    and "dce_test KSMBD_DCERPC_FIXED_PAYLOAD_SZ d" and "dce_offset d = word_of_nat j"
    and "j < 2 ^ 63 + 80" and "n < 2 ^ 62"
  shows "try_realloc_payload (word_of_nat n) d =
     ((if j + n \<le> length (dce_payload d) then Inr () else Inl (Err ENOMEM)), d)"
proof -
  have j: "unat (word_of_nat j :: u64) = j" and n: "unat (word_of_nat n :: u64) = n"
    using assms by (simp_all add: unat_of_nat)
  have "unat (- 1 - word_of_nat j :: u64) = 2 ^ 64 - 1 - j"
  proof -
    have "(word_of_nat j :: u64) \<le> - 1" by simp
    then show ?thesis
      by (simp add: unat_sub j unsigned_minus_1_eq_mask mask_eq_exp_minus_1)
  qed
  then have g1: "\<not> - 1 - word_of_nat j < (word_of_nat n :: u64)"
    using assms by (simp add: word_less_nat_alt n)
  have "unat (word_of_nat j + word_of_nat n :: u64) = j + n"
    using assms by (simp add: unat_word_ariths j n)
  then have g2: "(word_of_nat j + word_of_nat n \<le> dce_payload_sz d) = (j + n \<le> length (dce_payload d))"
    using assms by (simp add: word_le_nat_alt)
  show ?thesis
    using assms g1 g2 by (simp add: try_realloc_payload_def)
qed

abbreviation off :: "'x ksmbd_dcerpc_scheme \<Rightarrow> nat" where
  "off d \<equiv> unat (dce_offset d)"

abbreviation psz :: "'x ksmbd_dcerpc_scheme \<Rightarrow> nat" where
  "psz d \<equiv> unat (dce_payload_sz d)"

abbreviation le_mode :: "'x ksmbd_dcerpc_scheme \<Rightarrow> bool" where
  "le_mode d \<equiv> dce_test KSMBD_DCERPC_LITTLE_ENDIAN d"

lemma dce_test_update [simp]:
  "dce_test f (d\<lparr>dce_offset := a\<rparr>) = dce_test f d"
  "dce_test f (d\<lparr>dce_payload := p\<rparr>) = dce_test f d"
  "dce_test f (d\<lparr>dce_payload_sz := q\<rparr>) = dce_test f d"
  "dce_test f (d\<lparr>dce_num_pointers := r\<rparr>) = dce_test f d"
  by (simp_all add: dce_test_def)

lemma seek_simps [simp]:
  "dce_payload (seek k d) = dce_payload d" "dce_payload_sz (seek k d) = dce_payload_sz d"
  "dce_flags (seek k d) = dce_flags d" "dce_test f (seek k d) = dce_test f d"
  "k < 2 ^ 64 \<Longrightarrow> off (seek k d) = k" "seek k (seek j d) = seek k d"
  by (simp_all add: seek_def unat_of_nat dce_test_def)

lemma patch_simps [simp]:
  "dce_payload (patch k bs d) = overwrite k bs (dce_payload d)"
  "dce_payload_sz (patch k bs d) = dce_payload_sz d" "dce_offset (patch k bs d) = dce_offset d"
  "dce_flags (patch k bs d) = dce_flags d" "dce_test f (patch k bs d) = dce_test f d"
  by (simp_all add: patch_def dce_test_def)

lemma length_enc_int [simp]: "length (enc_int le n v) = n"
  by (simp add: enc_int_def)

lemma up_bound: "ndr_inv d \<Longrightarrow> ndr_width n \<Longrightarrow> up n (off d) < 2 ^ 63 + 80"
  using up_less [of n "off d"] ndr_inv_offset [of d] by simp

text \<open>What a write of an integer and of a run of bytes does, on every branch.\<close>

lemma ndr_write_int_eq:
  assumes d: "ndr_inv d" and n: "ndr_width n"
  shows "ndr_write_int n v d =
     (let j = up n (off d) in
      if j + n \<le> psz d
      then (Inr (), seek (j + n) (patch j (enc_int (le_mode d) n v) d))
      else (Inl (Err ENOMEM), seek j d))"
proof -
  let ?j = "up n (off d)"
  have j: "unat (word_of_nat ?j :: u64) = ?j"
    using up_bound [OF d n] by (simp add: unat_of_nat)
  have n8: "n < 2 ^ 62"
    using n by (auto simp: ndr_width_def)
  have r: "try_realloc_payload (word_of_nat n) (seek ?j d) =
     ((if ?j + n \<le> psz d then Inr () else Inl (Err ENOMEM)), seek ?j d)"
    using d up_bound [OF d n] n8
    by (subst try_realloc_payload_fixed [where j = ?j]) (auto simp: ndr_inv_def seek_def)
  show ?thesis
    using d j
    by (simp add: ndr_write_int_def sq_def bnd_def align_offset_eq [OF d n] or_else_def r [unfolded seek_def] Let_def
        reads_def dce_store_def dce_advance_def modify_def ndr_inv_def seek_def patch_def)
qed

lemma ndr_read_int_eq:
  assumes d: "ndr_inv d" and n: "ndr_width n"
  shows "ndr_read_int n d =
     (let j = up n (off d) in
      if j + n \<le> psz d
      then (Inr (dec_int (le_mode d) (slice j n (dce_payload d))),
            seek (j + n) d)
      else (Inl (Err EINVAL), seek j d))"
proof -
  let ?j = "up n (off d)"
  have j: "unat (word_of_nat ?j :: u64) = ?j"
    using up_bound [OF d n] by (simp add: unat_of_nat)
  have jn: "unat (word_of_nat ?j + word_of_nat n :: u64) = ?j + n"
    using up_bound [OF d n] n by (auto simp: ndr_width_def unat_word_ariths j)
  show ?thesis
    using d j jn
    by (simp add: ndr_read_int_def sq_def bnd_def align_offset_eq [OF d n] Let_def not_less
        reads_def dce_load_def dce_advance_def modify_def ret_def ndr_inv_def word_less_nat_alt seek_def)
qed

lemma ndr_write_bytes_eq:
  assumes d: "ndr_inv d" and n: "length bs < 2 ^ 62"
  shows "ndr_write_bytes bs d =
     (let j = up 2 (off d) in
      if j + length bs \<le> psz d
      then (Inr (), seek (j + length bs) (patch j bs d))
      else (Inl (Err ENOMEM), seek j d))"
proof -
  let ?j = "up 2 (off d)"
  have b: "?j < 2 ^ 63 + 80"
    using up_bound [OF d, of 2] by simp
  have j: "unat (word_of_nat ?j :: u64) = ?j"
    using b by (simp add: unat_of_nat)
  have r: "try_realloc_payload (word_of_nat (length bs)) (seek ?j d) =
     ((if ?j + length bs \<le> psz d then Inr () else Inl (Err ENOMEM)),
      seek ?j d)"
    using d b n
    by (subst try_realloc_payload_fixed [where j = ?j]) (auto simp: ndr_inv_def seek_def)
  show ?thesis
    using d j align_offset_eq [OF d, of 2]
    by (simp add: ndr_write_bytes_def sq_def bnd_def or_else_def r [unfolded seek_def] Let_def
        dce_store_def dce_advance_def modify_def ndr_inv_def seek_def patch_def)
qed

lemma ndr_read_bytes_eq:
  assumes d: "ndr_inv d" and n: "n < 2 ^ 62"
  shows "ndr_read_bytes n d =
     (let j = up 2 (off d) in
      if j + n \<le> psz d
      then (Inr (slice j n (dce_payload d)), seek (j + n) d)
      else (Inl (Err EINVAL), seek j d))"
proof -
  let ?j = "up 2 (off d)"
  have b: "?j < 2 ^ 63 + 80"
    using up_bound [OF d, of 2] by simp
  have j: "unat (word_of_nat ?j :: u64) = ?j"
    using b by (simp add: unat_of_nat)
  have "unat (word_of_nat n :: u64) = n"
    using n by (simp add: unat_of_nat)
  then have jn: "unat (word_of_nat ?j + word_of_nat n :: u64) = ?j + n"
    using b n by (simp add: unat_word_ariths j)
  show ?thesis
    using d j jn align_offset_eq [OF d, of 2]
    by (simp add: ndr_read_bytes_def sq_def bnd_def Let_def not_less
        dce_load_def dce_advance_def modify_def ret_def ndr_inv_def word_less_nat_alt seek_def)
qed

text \<open>What a marshalling step may change: the cursor moves forward, the bytes before it stay.\<close>

definition ndr_step :: "'x ksmbd_dcerpc_scheme \<Rightarrow> 'x ksmbd_dcerpc_scheme \<Rightarrow> bool" where
  "ndr_step d d' \<longleftrightarrow> off d \<le> off d' \<and> take (off d) (dce_payload d') = take (off d) (dce_payload d)
     \<and> d' = d\<lparr>dce_offset := dce_offset d', dce_payload := dce_payload d'\<rparr>"

definition ndr_agree :: "nat \<Rightarrow> 'x ksmbd_dcerpc_scheme \<Rightarrow> 'x ksmbd_dcerpc_scheme \<Rightarrow> bool" where
  "ndr_agree k d e \<longleftrightarrow> take k (dce_payload e) = take k (dce_payload d)
     \<and> length (dce_payload e) = length (dce_payload d)
     \<and> dce_payload_sz e = dce_payload_sz d \<and> dce_flags e = dce_flags d"

lemma ndr_step_refl [simp]: "ndr_step d d"
  by (simp add: ndr_step_def)

lemma ndr_step_trans: "ndr_step a b \<Longrightarrow> ndr_step b c \<Longrightarrow> ndr_step a c"
  by (cases a; cases b; cases c) (auto simp: ndr_step_def intro: trans [OF take_le_cong])

lemma ndr_agree_trans: "ndr_agree k a b \<Longrightarrow> ndr_agree k b c \<Longrightarrow> ndr_agree k a c"
  by (simp add: ndr_agree_def)

lemma ndr_agree_mono: "ndr_agree k a b \<Longrightarrow> j \<le> k \<Longrightarrow> ndr_agree j a b"
  by (auto simp: ndr_agree_def intro: take_le_cong)

lemma ndr_step_flags: "ndr_step a b \<Longrightarrow> dce_flags b = dce_flags a \<and> dce_payload_sz b = dce_payload_sz a"
  by (cases a; cases b) (simp add: ndr_step_def)

lemma ndr_step_agree: "ndr_step a b \<Longrightarrow> ndr_inv a \<Longrightarrow> ndr_inv b \<Longrightarrow> ndr_agree (off a) a b"
  using ndr_step_flags [of a b] by (auto simp: ndr_agree_def ndr_step_def ndr_inv_def)

lemma ndr_inv_agree: "ndr_inv d \<Longrightarrow> ndr_agree k d e \<Longrightarrow> off e \<le> off d \<Longrightarrow> ndr_inv e"
  by (auto simp: ndr_inv_def ndr_agree_def dce_test_def)

lemma ndr_inv_moved:
  assumes "ndr_inv d"
  shows "ndr_width n \<Longrightarrow> ndr_inv (seek (up n (off d)) d)"
    and "k \<le> psz d \<Longrightarrow> ndr_inv (seek k d)"
    and "k = j + length bs \<Longrightarrow> k \<le> psz d \<Longrightarrow> ndr_inv (seek k (patch j bs d))"
proof -
  assume n: "ndr_width n"
  then have "up n (off d) < 2 ^ 64"
    using up_bound [OF assms] by fastforce
  moreover have "up n (off d) \<le> 8 * ((psz d + 7) div 8 + 8)"
    using assms by (intro up_le [OF n]) (simp add: ndr_inv_def up_def)
  ultimately show "ndr_inv (seek (up n (off d)) d)"
    using assms by (simp add: ndr_inv_def up_def [of 8])
next
  assume k: "k \<le> psz d"
  then have "k < 2 ^ 64" and "k \<le> up 8 (psz d) + 64"
    using assms up_ge [of 8 "psz d"] by (auto simp: ndr_inv_def)
  then show "ndr_inv (seek k d)"
    using assms by (simp add: ndr_inv_def)
next
  assume k: "k = j + length bs" "k \<le> psz d"
  then have "k < 2 ^ 64" and "k \<le> up 8 (psz d) + 64"
    using assms up_ge [of 8 "psz d"] by (auto simp: ndr_inv_def)
  then show "ndr_inv (seek k (patch j bs d))"
    using assms k by (simp add: ndr_inv_def)
qed

lemma ndr_step_moved:
  assumes "ndr_inv d"
  shows "ndr_width n \<Longrightarrow> ndr_step d (seek (up n (off d)) d)"
    and "k \<le> psz d \<Longrightarrow> off d \<le> k \<Longrightarrow> ndr_step d (seek k d)"
    and "k = j + length bs \<Longrightarrow> k \<le> psz d \<Longrightarrow> off d \<le> j \<Longrightarrow> ndr_step d (seek k (patch j bs d))"
proof -
  assume n: "ndr_width n"
  then have "up n (off d) < 2 ^ 64"
    using up_bound [OF assms] by fastforce
  then show "ndr_step d (seek (up n (off d)) d)"
    using up_ge [OF n] by (simp add: ndr_step_def) (simp add: seek_def)
next
  assume k: "k \<le> psz d" "off d \<le> k"
  then have "k < 2 ^ 64"
    using assms by (auto simp: ndr_inv_def)
  then show "ndr_step d (seek k d)"
    using k by (simp add: ndr_step_def) (simp add: seek_def)
next
  assume k: "k = j + length bs" "k \<le> psz d" "off d \<le> j"
  then have "k < 2 ^ 64"
    using assms by (auto simp: ndr_inv_def)
  then show "ndr_step d (seek k (patch j bs d))"
    using k assms by (simp add: ndr_step_def ndr_inv_def) (simp add: seek_def patch_def)
qed

text \<open>
  Safe code: from the invariant it neither faults nor leaves the invariant; and it only moves
  forward.
\<close>

definition ndr_safe :: "('x ksmbd_dcerpc_scheme, 'a) act \<Rightarrow> bool" where
  "ndr_safe m \<longleftrightarrow> (\<forall>d. ndr_inv d \<longrightarrow> fst (m d) \<noteq> Inl Fault \<and> ndr_inv (snd (m d)))"

definition ndr_forward :: "('x ksmbd_dcerpc_scheme, 'a) act \<Rightarrow> bool" where
  "ndr_forward m \<longleftrightarrow> (\<forall>d. ndr_inv d \<longrightarrow> ndr_step d (snd (m d)))"

named_theorems ndr_safe \<open>safety of the marshalling code, by its structure\<close>

lemma ndr_safeD: "ndr_safe m \<Longrightarrow> ndr_inv d \<Longrightarrow> m d = (r, t) \<Longrightarrow> r \<noteq> Inl Fault \<and> ndr_inv t"
  unfolding ndr_safe_def by force

lemma ndr_forwardD: "ndr_forward m \<Longrightarrow> ndr_inv d \<Longrightarrow> m d = (r, t) \<Longrightarrow> ndr_step d t"
  unfolding ndr_forward_def by force

lemma ndr_safe_ret [ndr_safe]: "ndr_safe (ret x)" "ndr_forward (ret x)"
  by (simp_all add: ndr_safe_def ndr_forward_def ret_def)

lemma ndr_safe_fail [ndr_safe]: "ndr_safe (fail (Err e))" "ndr_forward (fail f)"
  by (simp_all add: ndr_safe_def ndr_forward_def fail_def)

lemma ndr_safe_reads [ndr_safe]: "ndr_safe (reads f)" "ndr_forward (reads f)"
  by (simp_all add: ndr_safe_def ndr_forward_def reads_def)

lemma ndr_safe_bnd [ndr_safe]:
  assumes "ndr_safe m" and "\<And>x. ndr_safe (f x)"
  shows "ndr_safe (bnd m f)"
  unfolding ndr_safe_def
proof (intro allI impI)
  fix d :: "'a ksmbd_dcerpc_scheme"
  assume d: "ndr_inv d"
  obtain r t where t: "bnd m f d = (r, t)" by (cases "bnd m f d")
  from t show "fst (bnd m f d) \<noteq> Inl Fault \<and> ndr_inv (snd (bnd m f d))"
  proof (cases rule: bnd_cases)
    case (err e)
    with t ndr_safeD [OF assms(1) d] show ?thesis by simp
  next
    case (ok x u)
    with t ndr_safeD [OF assms(1) d] ndr_safeD [OF assms(2)] show ?thesis by simp
  qed
qed

lemma ndr_forward_bnd [ndr_safe]:
  assumes "ndr_safe m" and "ndr_forward m" and "\<And>x. ndr_forward (f x)"
  shows "ndr_forward (bnd m f)"
  unfolding ndr_forward_def
proof (intro allI impI)
  fix d :: "'a ksmbd_dcerpc_scheme"
  assume d: "ndr_inv d"
  obtain r t where t: "bnd m f d = (r, t)" by (cases "bnd m f d")
  from t show "ndr_step d (snd (bnd m f d))"
  proof (cases rule: bnd_cases)
    case (err e)
    with t ndr_forwardD [OF assms(2) d] show ?thesis by simp
  next
    case (ok x u)
    have "ndr_inv u" and "ndr_step d u"
      using ndr_safeD [OF assms(1) d ok(1)] ndr_forwardD [OF assms(2) d ok(1)] by simp_all
    moreover from this(1) ok(2) have "ndr_step u t"
      by (rule ndr_forwardD [OF assms(3)])
    ultimately show ?thesis
      using t by (simp add: ndr_step_trans [of d u t])
  qed
qed

lemma ndr_safe_sq [ndr_safe]: "ndr_safe m \<Longrightarrow> ndr_safe n \<Longrightarrow> ndr_safe (sq m n)"
  by (simp add: sq_def ndr_safe_bnd)

lemma ndr_forward_sq [ndr_safe]: "ndr_safe m \<Longrightarrow> ndr_forward m \<Longrightarrow> ndr_forward n \<Longrightarrow> ndr_forward (sq m n)"
  by (simp add: sq_def ndr_forward_bnd)

lemma ndr_safe_or_else [ndr_safe]:
  "ndr_safe m \<Longrightarrow> ndr_safe (or_else e m)" "ndr_forward m \<Longrightarrow> ndr_forward (or_else e m)"
  by (auto simp: ndr_safe_def ndr_forward_def or_else_def split: prod.splits sum.splits cerr.splits)

lemma ndr_safe_if [ndr_safe]:
  "(b \<Longrightarrow> ndr_safe m) \<Longrightarrow> (\<not> b \<Longrightarrow> ndr_safe n) \<Longrightarrow> ndr_safe (if b then m else n)"
  "(b \<Longrightarrow> ndr_forward m) \<Longrightarrow> (\<not> b \<Longrightarrow> ndr_forward n) \<Longrightarrow> ndr_forward (if b then m else n)"
  by auto

lemma ndr_safe_each [ndr_safe]:
  assumes "\<And>x. ndr_safe (f x)" and "\<And>x. ndr_forward (f x)"
  shows "ndr_safe (each f xs)" and "ndr_forward (each f xs)"
  by (induction xs) (simp_all add: ndr_safe assms)

lemma ndr_safe_times [ndr_safe]:
  assumes "ndr_safe m" and "ndr_forward m"
  shows "ndr_safe (times n m)" and "ndr_forward (times n m)"
  by (induction n) (simp_all add: ndr_safe assms)

lemma ndr_write_int_safe [ndr_safe]:
  assumes n: "ndr_width n"
  shows "ndr_safe (ndr_write_int n v)" and "ndr_forward (ndr_write_int n v)"
  using up_ge [OF n]
  by (auto simp: n ndr_safe_def ndr_forward_def ndr_write_int_eq Let_def ndr_inv_moved ndr_step_moved)

lemma ndr_read_int_safe [ndr_safe]:
  assumes n: "ndr_width n"
  shows "ndr_safe (ndr_read_int n)" and "ndr_forward (ndr_read_int n)"
  using up_ge [OF n]
  by (auto simp: n ndr_safe_def ndr_forward_def ndr_read_int_eq Let_def ndr_inv_moved ndr_step_moved
      trans_le_add1)

lemma ndr_write_bytes_safe [ndr_safe]:
  assumes n: "length bs < 2 ^ 62"
  shows "ndr_safe (ndr_write_bytes bs)" and "ndr_forward (ndr_write_bytes bs)"
  using up_ge [of 2]
  by (auto simp: ndr_write_bytes_eq [OF _ n] ndr_safe_def ndr_forward_def Let_def ndr_inv_moved ndr_step_moved)

lemma ndr_read_bytes_safe [ndr_safe]:
  assumes n: "n < 2 ^ 62"
  shows "ndr_safe (ndr_read_bytes n)" and "ndr_forward (ndr_read_bytes n)"
  using up_ge [of 2]
  by (auto simp: ndr_read_bytes_eq [OF _ n] ndr_safe_def ndr_forward_def Let_def ndr_inv_moved ndr_step_moved trans_le_add1)

lemma auto_align_offset_eq:
  assumes d: "ndr_inv d"
  shows "auto_align_offset d = (Inr (),
     if dce_test KSMBD_DCERPC_ALIGN8 d then seek (up 8 (off d)) d
     else if dce_test KSMBD_DCERPC_ALIGN4 d then seek (up 4 (off d)) d else d)"
  using align_offset_eq [OF d, of 8] align_offset_eq [OF d, of 4]
  by (auto simp: auto_align_offset_def align_offset_def modify_def)

lemma auto_align_offset_safe [ndr_safe]:
  "ndr_safe auto_align_offset" "ndr_forward auto_align_offset"
  by (simp_all add: ndr_safe_def ndr_forward_def auto_align_offset_eq ndr_inv_moved ndr_step_moved)

lemmas ndr_int_defs = ndr_write_int8_def ndr_write_int16_def ndr_write_int32_def ndr_write_int64_def
  ndr_read_int8_def ndr_read_int16_def ndr_read_int32_def ndr_read_int64_def

lemma ndr_ints_safe [ndr_safe]:
  "ndr_safe (ndr_write_int8 a)" "ndr_forward (ndr_write_int8 a)"
  "ndr_safe (ndr_write_int16 b)" "ndr_forward (ndr_write_int16 b)"
  "ndr_safe (ndr_write_int32 c)" "ndr_forward (ndr_write_int32 c)"
  "ndr_safe (ndr_write_int64 e)" "ndr_forward (ndr_write_int64 e)"
  "ndr_safe ndr_read_int8" "ndr_forward ndr_read_int8"
  "ndr_safe ndr_read_int16" "ndr_forward ndr_read_int16"
  "ndr_safe ndr_read_int32" "ndr_forward ndr_read_int32"
  "ndr_safe ndr_read_int64" "ndr_forward ndr_read_int64"
  by (simp_all add: ndr_int_defs ndr_safe)

section \<open>Codecs\<close>

text \<open>
  The contract between a writer and the reader of the same wire type.  Both stay inside the
  buffer and keep the invariant; what the writer puts is what the reader gets, also from a
  buffer that has been written further behind the value.
\<close>

locale ndr_codec =
  fixes put :: "'v \<Rightarrow> ('x ksmbd_dcerpc_scheme, unit) act"
    and get :: "('x ksmbd_dcerpc_scheme, 'v) act"
    and ok :: "'v \<Rightarrow> bool"
  assumes put_safe: "ok v \<Longrightarrow> ndr_safe (put v)"
    and put_forward: "ok v \<Longrightarrow> ndr_forward (put v)"
    and get_safe: "ndr_safe get"
    and put_get: "ndr_inv d \<Longrightarrow> ok v \<Longrightarrow> put v d = (Inr (), d') \<Longrightarrow> ndr_agree (off d') d' e \<Longrightarrow>
      dce_offset e = dce_offset d \<Longrightarrow> get e = (Inr v, e\<lparr>dce_offset := dce_offset d'\<rparr>)"
begin

lemma roundtrip:
  assumes "ndr_inv d" and "ok v" and "put v d = (Inr (), d')"
  shows "get (d'\<lparr>dce_offset := dce_offset d\<rparr>) = (Inr v, d')"
proof -
  have "ndr_agree (off d') d' (d'\<lparr>dce_offset := dce_offset d\<rparr>)"
    by (simp add: ndr_agree_def)
  then show ?thesis
    using put_get [OF assms] by simp
qed

lemma put_get_later:
  assumes "ndr_inv d" and "ok v" and p: "put v d = (Inr (), d')" and z: "ndr_step d' z" "ndr_inv z"
  shows "get (z\<lparr>dce_offset := dce_offset d\<rparr>) = (Inr v, z\<lparr>dce_offset := dce_offset d'\<rparr>)"
proof -
  have "ndr_inv d'"
    using ndr_safeD [OF put_safe assms(1) p] assms(2) by simp
  then have "ndr_agree (off d') d' (z\<lparr>dce_offset := dce_offset d\<rparr>)"
    using ndr_step_agree [OF z(1) _ z(2)] by (simp add: ndr_agree_def)
  then show ?thesis
    using put_get [OF assms(1,2) p] by simp
qed

lemma put_injective:
  assumes "ndr_inv d" and "ok v" and "ok w" and "put v d = (Inr (), d')" and "put w d = (Inr (), d')"
  shows "v = w"
  using roundtrip [of d v d'] roundtrip [of d w d'] assms by simp

end

lemma codec_dep:
  assumes c1: "ndr_codec p1 g1 ok1" and c2: "\<And>a. ok1 a \<Longrightarrow> ndr_codec (p2 a) (g2 a) (ok2 a)"
    and g2: "\<And>a. ndr_safe (g2 a)"
  shows "ndr_codec (\<lambda>(a, b). sq (p1 a) (p2 a b)) (bnd g1 (\<lambda>a. bnd (g2 a) (\<lambda>b. ret (a, b))))
     (\<lambda>(a, b). ok1 a \<and> ok2 a b)"
proof (unfold_locales, goal_cases)
  case (1 v)
  then show ?case
    by (cases v) (simp add: ndr_safe ndr_codec.put_safe [OF c1] ndr_codec.put_safe [OF c2])
next
  case (2 v)
  then show ?case
    by (cases v) (simp add: ndr_safe ndr_codec.put_safe [OF c1] ndr_codec.put_forward [OF c1]
        ndr_codec.put_forward [OF c2])
next
  case 3
  show ?case
    by (simp add: ndr_safe ndr_codec.get_safe [OF c1] g2)
next
  case (4 d v d' e)
  obtain a b where ab: "v = (a, b)" by (cases v)
  with 4 have oka: "ok1 a" and okb: "ok2 a b" and p: "sq (p1 a) (p2 a b) d = (Inr (), d')"
    by auto
  from p obtain x u where u: "p1 a d = (Inr x, u)" and d': "p2 a b u = (Inr (), d')"
    by (rule sq_InrE)
  have iu: "ndr_inv u"
    using ndr_safeD [OF ndr_codec.put_safe [OF c1 oka] 4(1) u] by simp
  have id': "ndr_inv d'" and sd: "ndr_step u d'"
    using ndr_safeD [OF ndr_codec.put_safe [OF c2 [OF oka] okb] iu d']
      ndr_forwardD [OF ndr_codec.put_forward [OF c2 [OF oka] okb] iu d'] by simp_all
  have "ndr_agree (off u) d' e"
    using ndr_agree_mono [OF 4(4)] sd by (simp add: ndr_step_def)
  with ndr_step_agree [OF sd iu id'] have "ndr_agree (off u) u e"
    by (rule ndr_agree_trans)
  then have ga: "g1 e = (Inr a, e\<lparr>dce_offset := dce_offset u\<rparr>)"
    using ndr_codec.put_get [OF c1 4(1) oka, of u e] u 4(5) by simp
  have "g2 a (e\<lparr>dce_offset := dce_offset u\<rparr>) = (Inr b, e\<lparr>dce_offset := dce_offset d'\<rparr>)"
    using ndr_codec.put_get [OF c2 [OF oka] iu okb d', of "e\<lparr>dce_offset := dce_offset u\<rparr>"] 4(4)
    by (simp add: ndr_agree_def)
  with ga ab show ?case
    by (simp add: bnd_def ret_def)
qed

lemma codec_map:
  assumes c: "ndr_codec p g ok" and f: "\<And>v. ok' v \<Longrightarrow> ok (f v) \<and> h (f v) = v"
  shows "ndr_codec (\<lambda>v. p (f v)) (bnd g (\<lambda>x. ret (h x))) ok'"
proof (unfold_locales, goal_cases)
  case (4 d v d' e)
  then have "g e = (Inr (f v), e\<lparr>dce_offset := dce_offset d'\<rparr>)"
    using f by (intro ndr_codec.put_get [OF c]) auto
  with f [OF 4(2)] show ?case by (simp add: bnd_def ret_def)
qed (use f in \<open>simp_all add: ndr_safe ndr_codec.put_safe [OF c] ndr_codec.put_forward [OF c]
       ndr_codec.get_safe [OF c]\<close>)

lemma codec_cong:
  assumes "ndr_codec p g ok" and "\<And>v. ok' v \<Longrightarrow> ok v \<and> p' v = p v" and "g' = g"
  shows "ndr_codec p' g' ok'"
  using assms unfolding ndr_codec_def by metis

lemma codec_or_get:
  assumes c: "ndr_codec p g ok"
  shows "ndr_codec p (or_else b g) ok"
proof (unfold_locales, goal_cases)
  case (4 d v d' e)
  then have "g e = (Inr v, e\<lparr>dce_offset := dce_offset d'\<rparr>)"
    by (rule ndr_codec.put_get [OF c])
  then show ?case by (simp add: or_else_def)
qed (simp_all add: ndr_safe ndr_codec.put_safe [OF c] ndr_codec.put_forward [OF c]
       ndr_codec.get_safe [OF c])

lemma codec_or_put:
  assumes c: "ndr_codec p g ok"
  shows "ndr_codec (\<lambda>v. or_else a (p v)) g ok"
proof (unfold_locales, goal_cases)
  case (4 d v d' e)
  then show ?case
    by (intro ndr_codec.put_get [OF c]) (auto dest: or_else_InrD)
qed (simp_all add: ndr_safe ndr_codec.put_safe [OF c] ndr_codec.put_forward [OF c]
       ndr_codec.get_safe [OF c])

lemma codec_check:
  assumes c: "ndr_codec p g ok" and f: "\<And>v. ok' v \<Longrightarrow> ok v \<and> \<not> bad v"
  shows "ndr_codec p (bnd g (\<lambda>v. if bad v then fail (Err e) else ret v)) ok'"
proof (unfold_locales, goal_cases)
  case (4 d v d' t)
  then have "g t = (Inr v, t\<lparr>dce_offset := dce_offset d'\<rparr>)"
    using f by (intro ndr_codec.put_get [OF c]) auto
  with f [OF 4(2)] show ?case by (simp add: bnd_def ret_def)
qed (use f in \<open>simp_all add: ndr_safe ndr_codec.put_safe [OF c] ndr_codec.put_forward [OF c]
       ndr_codec.get_safe [OF c]\<close>)

lemma codec_nil: "ndr_codec (each p) (ret []) (\<lambda>xs. xs = [])"
  by unfold_locales (simp_all add: ndr_safe, simp add: ret_def)

lemma codec_times:
  assumes c: "ndr_codec p g ok" and g: "ndr_forward g"
  shows "ndr_codec (each p) (times n g) (\<lambda>xs. length xs = n \<and> list_all ok xs)"
proof (induction n)
  case 0
  show ?case
    by (rule codec_cong [OF codec_nil]) auto
next
  case (Suc n)
  let ?f = "\<lambda>xs. (hd xs, tl xs)" and ?h = "\<lambda>(x, xs). x # xs"
  have "ndr_codec (\<lambda>(a, b). sq (p a) (each p b)) (bnd g (\<lambda>a. bnd (times n g) (\<lambda>b. ret (a, b))))
     (\<lambda>(a, b). ok a \<and> length b = n \<and> list_all ok b)"
    by (rule codec_dep [OF c Suc]) (simp add: ndr_safe ndr_codec.get_safe [OF c] g)
  then have "ndr_codec (\<lambda>v. (\<lambda>(a, b). sq (p a) (each p b)) (?f v))
     (bnd (bnd g (\<lambda>a. bnd (times n g) (\<lambda>b. ret (a, b)))) (\<lambda>x. ret (?h x)))
     (\<lambda>xs. length xs = Suc n \<and> list_all ok xs)"
    by (rule codec_map) (auto simp: length_Suc_conv)
  then show ?case
    by (rule codec_cong) (auto simp: length_Suc_conv bnd_assoc)
qed


lemma dec_enc_int: "v < 256 ^ n \<Longrightarrow> dec_int le (enc_int le n v) = v"
  by (simp add: dec_int_def enc_int_def le_nat_le_bytes be_nat_be_bytes)

lemma seek_self: "d' = seek k x \<Longrightarrow> e\<lparr>dce_offset := dce_offset d'\<rparr> = seek k e"
  by (simp add: seek_def)

lemma ndr_agree_inv: "ndr_inv d \<Longrightarrow> ndr_agree k d' e \<Longrightarrow> dce_payload_sz d' = dce_payload_sz d \<Longrightarrow>
   length (dce_payload d') = length (dce_payload d) \<Longrightarrow> dce_flags d' = dce_flags d \<Longrightarrow>
   dce_offset e = dce_offset d \<Longrightarrow> ndr_inv e"
  by (simp add: ndr_inv_def ndr_agree_def dce_test_def)

text \<open>A region that was written is read back from every buffer that agrees up to its end.\<close>

lemma slice_agree:
  assumes "ndr_inv d" and "j + length bs \<le> psz d"
    and "ndr_agree (off (seek (j + length bs) (patch j bs d))) (seek (j + length bs) (patch j bs d)) e"
  shows "slice j (length bs) (dce_payload e) = bs"
proof -
  have k: "j + length bs < 2 ^ 64"
    using assms by (simp add: ndr_inv_def)
  then have "take (j + length bs) (dce_payload e) = take (j + length bs) (overwrite j bs (dce_payload d))"
    using assms(3) by (simp add: ndr_agree_def)
  then have "slice j (length bs) (dce_payload e) = slice j (length bs) (overwrite j bs (dce_payload d))"
    by (rule slice_cong_take) simp
  also have "\<dots> = bs"
    using assms by (simp add: ndr_inv_def)
  finally show ?thesis .
qed

lemma codec_int:
  assumes n: "ndr_width n"
  shows "ndr_codec (ndr_write_int n) (ndr_read_int n) (\<lambda>v. v < 256 ^ n)"
proof (unfold_locales, goal_cases)
  case (4 d v d' e)
  let ?j = "up n (off d)" and ?bs = "enc_int (le_mode d) n v"
  from 4(1,3) n have r: "?j + n \<le> psz d" and d': "d' = seek (?j + n) (patch ?j ?bs d)"
    by (auto simp: ndr_write_int_eq Let_def split: if_splits)
  have e: "ndr_inv e"
    using 4(1,4,5) d' r by (intro ndr_agree_inv [of d _ d' e]) (auto simp: ndr_inv_def)
  have "slice ?j (length ?bs) (dce_payload e) = ?bs"
    using 4(1,4) d' r by (intro slice_agree [of d]) auto
  moreover have "psz e = psz d" and "le_mode e = le_mode d" and "off e = off d"
    using 4(4,5) d' by (auto simp: ndr_agree_def dce_test_def)
  ultimately show ?case
    using e n r 4(2) by (simp add: ndr_read_int_eq Let_def dec_enc_int seek_self [OF d'])
qed (simp_all add: ndr_safe n)

lemma codec_bytes:
  assumes n: "n < 2 ^ 62"
  shows "ndr_codec ndr_write_bytes (ndr_read_bytes n) (\<lambda>bs. length bs = n)"
proof (unfold_locales, goal_cases)
  case (4 d v d' e)
  let ?j = "up 2 (off d)"
  from 4(1,2,3) n have r: "?j + n \<le> psz d" and d': "d' = seek (?j + n) (patch ?j v d)"
    by (auto simp: ndr_write_bytes_eq Let_def split: if_splits)
  have e: "ndr_inv e"
    using 4(1,2,4,5) d' r by (intro ndr_agree_inv [of d _ d' e]) (auto simp: ndr_inv_def)
  have "slice ?j (length v) (dce_payload e) = v"
    using 4(1,2,4) d' r by (intro slice_agree [of d]) auto
  moreover have "psz e = psz d" and "off e = off d"
    using 4(4,5) d' by (auto simp: ndr_agree_def dce_test_def)
  ultimately show ?case
    using e n r 4(2) by (simp add: ndr_read_bytes_eq Let_def seek_self [OF d'])
qed (use n in \<open>simp_all add: ndr_safe\<close>)

interpretation i8: ndr_codec ndr_write_int8 ndr_read_int8 "\<lambda>_. True"
  unfolding ndr_write_int8_def ndr_read_int8_def
  by (rule codec_map [OF codec_int]) (use unsigned_less [where ?'a = nat and ?'b = 8] in auto)
interpretation i16: ndr_codec ndr_write_int16 ndr_read_int16 "\<lambda>_. True"
  unfolding ndr_write_int16_def ndr_read_int16_def
  by (rule codec_map [OF codec_int]) (use unsigned_less [where ?'a = nat and ?'b = 16] in auto)
interpretation i32: ndr_codec ndr_write_int32 ndr_read_int32 "\<lambda>_. True"
  unfolding ndr_write_int32_def ndr_read_int32_def
  by (rule codec_map [OF codec_int]) (use unsigned_less [where ?'a = nat and ?'b = 32] in auto)
interpretation i64: ndr_codec ndr_write_int64 ndr_read_int64 "\<lambda>_. True"
  unfolding ndr_write_int64_def ndr_read_int64_def
  by (rule codec_map [OF codec_int]) (use unsigned_less [where ?'a = nat and ?'b = 64] in auto)

lemma codec_union32: "ndr_codec ndr_write_union_int32 ndr_read_union_int32 (\<lambda>_. True)"
proof -
  have "ndr_codec (\<lambda>(a, b). sq (ndr_write_int32 a) (ndr_write_int32 b))
     (bnd (or_else EINVAL ndr_read_int32) (\<lambda>a. bnd (or_else EINVAL ndr_read_int32) (\<lambda>b. ret (a, b))))
     (\<lambda>(a, b). True \<and> True)"
    by (intro codec_dep codec_or_get i32.ndr_codec_axioms ndr_safe)
  then have "ndr_codec (\<lambda>(a, b). sq (ndr_write_int32 a) (ndr_write_int32 b))
     (bnd (bnd (or_else EINVAL ndr_read_int32) (\<lambda>a. bnd (or_else EINVAL ndr_read_int32) (\<lambda>b. ret (a, b))))
       (\<lambda>v. if fst v \<noteq> snd v then fail (Err EINVAL) else ret v)) (\<lambda>(a, b). a = b)"
    by (rule codec_check) auto
  then have "ndr_codec (\<lambda>v. (\<lambda>(a, b). sq (ndr_write_int32 a) (ndr_write_int32 b)) (v, v))
     (bnd (bnd (bnd (or_else EINVAL ndr_read_int32) (\<lambda>a. bnd (or_else EINVAL ndr_read_int32) (\<lambda>b. ret (a, b))))
       (\<lambda>v. if fst v \<noteq> snd v then fail (Err EINVAL) else ret v)) (\<lambda>v. ret (fst v))) (\<lambda>_. True)"
    by (rule codec_map) auto
  then show ?thesis
    by (rule codec_cong) (auto simp: ndr_write_union_int32_def ndr_read_union_int32_def bnd_assoc bnd_if
        cong: if_cong)
qed

lemma vstring_bytes_cases:
  assumes d: "ndr_inv d" and v: "vstring_bytes a d = (r, t)"
  shows "t = d \<and> (r = Inl (Err EINVAL) \<or> (\<exists>n. r = Inr n \<and> off d + n \<le> psz d))"
proof -
  have a64: "unat (ucast a :: u64) = unat a"
    using unsigned_less [of a, where ?'a = nat]
    by (simp add: unsigned_ucast_eq take_bit_nat_eq_self_iff)
  have "unat (dce_payload_sz d - dce_offset d) = psz d - off d" if "\<not> dce_payload_sz d < dce_offset d"
    using that by (simp add: unat_sub not_less)
  moreover have "unat ((dce_payload_sz d - dce_offset d) div 2) = unat (dce_payload_sz d - dce_offset d) div 2"
    by (simp add: unat_div_distrib)
  ultimately show ?thesis
    using v a64 by (auto simp: vstring_bytes_def word_less_nat_alt not_less word_le_nat_alt split: if_splits)
qed

lemma dce_load_ok: "ndr_inv d \<Longrightarrow> off d + n \<le> psz d \<Longrightarrow> dce_load n d = (Inr (slice (off d) n (dce_payload d)), d)"
  by (simp add: dce_load_def ndr_inv_def)

lemma dce_advance_ok: "dce_advance n d = (Inr (), seek (off d + n) d)"
  by (simp add: dce_advance_def modify_def seek_def)

text \<open>The part of \<open>ndr_read_vstring\<close> behind the three counts.\<close>

lemma vstring_tail_eq:
  assumes d: "ndr_inv d" and v: "vstring_bytes a d = (Inr n, d)"
  shows "bnd (vstring_bytes a) (\<lambda>raw_bytes. bnd (dce_load raw_bytes) (\<lambda>raw.
     bnd (reads (\<lambda>d. ksmbd_gconvert g raw KSMBD_CHARSET_UTF8 (ndr_charset d))) (\<lambda>out.
     case out of None \<Rightarrow> fail (Err EINVAL)
     | Some bs \<Rightarrow> sq (dce_advance raw_bytes) (sq auto_align_offset (ret (takeWhile (\<lambda>b. b \<noteq> 0) bs)))))) d =
    (case ksmbd_gconvert g (slice (off d) n (dce_payload d)) KSMBD_CHARSET_UTF8 (ndr_charset d) of
       None \<Rightarrow> (Inl (Err EINVAL), d)
     | Some bs \<Rightarrow> (Inr (takeWhile (\<lambda>b. b \<noteq> 0) bs), snd (auto_align_offset (seek (off d + n) d))))"
proof -
  have n: "off d + n \<le> psz d"
    using vstring_bytes_cases [OF d v] by auto
  then have s: "ndr_inv (seek (off d + n) d)"
    by (rule ndr_inv_moved(2) [OF d])
  show ?thesis
    by (simp add: bnd_def v dce_load_ok [OF d n] reads_def sq_def dce_advance_ok
        auto_align_offset_eq [OF s] ret_def fail_def split: option.split)
qed

lemma vstring_tail_safe:
  "ndr_safe (bnd (vstring_bytes a) (\<lambda>raw_bytes. bnd (dce_load raw_bytes) (\<lambda>raw.
     bnd (reads (\<lambda>d. ksmbd_gconvert g raw KSMBD_CHARSET_UTF8 (ndr_charset d))) (\<lambda>out.
     case out of None \<Rightarrow> fail (Err EINVAL)
     | Some bs \<Rightarrow> sq (dce_advance raw_bytes) (sq auto_align_offset (ret (takeWhile (\<lambda>b. b \<noteq> 0) bs)))))))"
    (is "ndr_safe ?m")
  unfolding ndr_safe_def
proof (intro allI impI)
  fix d :: "'a ksmbd_dcerpc_scheme"
  assume d: "ndr_inv d"
  obtain r t where v: "vstring_bytes a d = (r, t)" by (cases "vstring_bytes a d")
  with vstring_bytes_cases [OF d v] consider "r = Inl (Err EINVAL)" "t = d"
    | n where "r = Inr n" "t = d" "off d + n \<le> psz d" by auto
  then show "fst (?m d) \<noteq> Inl Fault \<and> ndr_inv (snd (?m d))"
  proof cases
    case 1
    with v d show ?thesis by (simp add: bnd_def)
  next
    case (2 n)
    have s: "ndr_inv (seek (off d + n) d)"
      by (rule ndr_inv_moved(2) [OF d 2(3)])
    have "ndr_inv (snd (auto_align_offset (seek (off d + n) d)))"
      using auto_align_offset_safe(1) s by (auto simp: ndr_safe_def)
    then show ?thesis
      using vstring_tail_eq [OF d, of a n g] v 2 d by (simp split: option.split)
  qed
qed

lemma ndr_read_vstring_safe [ndr_safe]: "ndr_safe (ndr_read_vstring g)"
  unfolding ndr_read_vstring_def by (intro ndr_safe vstring_tail_safe)

lemma ndr_convert_safe [ndr_safe]:
  "ndr_safe (ndr_convert_char_to_unicode g s)" "ndr_forward (ndr_convert_char_to_unicode g s)"
  unfolding ndr_convert_char_to_unicode_def
  by (auto intro!: ndr_safe_bnd ndr_forward_bnd ndr_safe_reads split: option.split
      simp: ndr_safe_ret ndr_safe_fail)

lemma ndr_write_bytes_aligned_eq: "ndr_write_bytes_aligned out d =
   (case ndr_write_bytes out d of (r, t) \<Rightarrow> (r, snd (auto_align_offset t)))"
  by (simp add: ndr_write_bytes_aligned_def)

lemma ndr_write_bytes_aligned_safe [ndr_safe]:
  assumes "length out < 2 ^ 62"
  shows "ndr_safe (ndr_write_bytes_aligned out)"
  using ndr_write_bytes_safe(1) [OF assms] auto_align_offset_safe(1)
  by (auto simp: ndr_safe_def ndr_write_bytes_aligned_eq split: prod.split)


lemma ndr_write_int32_off:
  assumes "ndr_inv d" and "ndr_write_int32 v d = (Inr (), d')"
  shows "4 dvd off d' \<and> off d' \<le> psz d'"
proof -
  have "up 4 (off d) + 4 \<le> psz d" and d': "d' = seek (up 4 (off d) + 4) (patch (up 4 (off d)) (enc_int (le_mode d) 4 (unat v)) d)"
    using assms by (auto simp: ndr_write_int32_def ndr_write_int_eq Let_def split: if_splits)
  moreover have "psz d < 2 ^ 64"
    using assms(1) by (simp add: ndr_inv_def)
  ultimately have "off d' = up 4 (off d) + 4"
    by simp
  moreover have "4 dvd up 4 (off d)"
    by (simp add: up_def)
  ultimately show ?thesis
    using d' \<open>up 4 (off d) + 4 \<le> psz d\<close> by simp
qed

lemma up_dvd: "ndr_width n \<Longrightarrow> n dvd x \<Longrightarrow> up n x = x"
  by (auto simp: ndr_width_def up_def)

lemma vstring_bytes_utf16:
  assumes "off d + 2 * k \<le> psz d" and "k < 2 ^ 32" and "\<not> dce_test KSMBD_DCERPC_ASCII_STRING d"
  shows "vstring_bytes (word_of_nat k) d = (Inr (2 * k), d)"
proof -
  have k: "unat (word_of_nat k :: u32) = k" and k64: "unat (ucast (word_of_nat k :: u32) :: u64) = k"
    using assms(2) by (simp_all add: unat_of_nat unsigned_ucast_eq take_bit_nat_eq_self_iff)
  have o: "dce_offset d \<le> dce_payload_sz d"
    using assms(1) by (simp add: word_le_nat_alt)
  then have "unat ((dce_payload_sz d - dce_offset d) div 2) = (psz d - off d) div 2"
    by (simp add: unat_div_distrib unat_sub)
  with o assms show ?thesis
    by (simp add: vstring_bytes_def k k64 word_less_nat_alt [of "_ div _"] word_less_nat_alt [of "dce_payload_sz d"] word_le_nat_alt)
qed

text \<open>The three counts in front of a string, read back behind later writes.\<close>

lemma ndr_write_counts:
  assumes d: "ndr_inv d"
    and w: "sq (ndr_write_int32 a) (sq (ndr_write_int32 b) (sq (ndr_write_int32 c) m)) d = (Inr (), d')"
  obtains d3 where "ndr_inv d3" and "4 dvd off d3" and "m d3 = (Inr (), d')" and "dce_flags d3 = dce_flags d"
    and "\<And>z f. ndr_step d3 z \<Longrightarrow> ndr_inv z \<Longrightarrow>
      bnd (or_else EINVAL ndr_read_int32) (\<lambda>x. sq (or_else EINVAL ndr_read_int32)
        (bnd (or_else EINVAL ndr_read_int32) (\<lambda>y. f x y))) (z\<lparr>dce_offset := dce_offset d\<rparr>) =
      f a c (z\<lparr>dce_offset := dce_offset d3\<rparr>)"
proof -
  from w obtain d1 d2 d3 where w1: "ndr_write_int32 a d = (Inr (), d1)" and w2: "ndr_write_int32 b d1 = (Inr (), d2)"
    and w3: "ndr_write_int32 c d2 = (Inr (), d3)" and m: "m d3 = (Inr (), d')"
    by (auto elim!: sq_InrE)
  have i1: "ndr_inv d1" and i2: "ndr_inv d2" and i3: "ndr_inv d3"
    using ndr_safeD [OF ndr_ints_safe(5) d w1] ndr_safeD [OF ndr_ints_safe(5) _ w2]
      ndr_safeD [OF ndr_ints_safe(5) _ w3] by auto
  have s1: "ndr_step d d1" and s2: "ndr_step d1 d2" and s3: "ndr_step d2 d3"
    using ndr_forwardD [OF ndr_ints_safe(6)] d i1 i2 w1 w2 w3 by blast+
  show thesis
  proof (rule that [OF i3 _ m])
    show "4 dvd off d3" using ndr_write_int32_off [OF i2 w3] by simp
    show "dce_flags d3 = dce_flags d"
      using ndr_step_flags [OF s1] ndr_step_flags [OF s2] ndr_step_flags [OF s3] by simp
    fix z f
    assume z: "ndr_step d3 z" "ndr_inv z"
    have z2: "ndr_step d2 z" by (rule ndr_step_trans [OF s3 z(1)])
    have z1: "ndr_step d1 z" by (rule ndr_step_trans [OF s2 z2])
    show "bnd (or_else EINVAL ndr_read_int32) (\<lambda>x. sq (or_else EINVAL ndr_read_int32)
        (bnd (or_else EINVAL ndr_read_int32) (\<lambda>y. f x y))) (z\<lparr>dce_offset := dce_offset d\<rparr>) =
      f a c (z\<lparr>dce_offset := dce_offset d3\<rparr>)"
      by (simp add: i32.put_get_later [OF d TrueI w1 z1 z(2)] i32.put_get_later [OF i1 TrueI w2 z2 z(2)]
          i32.put_get_later [OF i2 TrueI w3 z])
  qed
qed

text \<open>The bytes of the string, written behind the counts and read back.\<close>

lemma ndr_write_bytes_vstring:
  assumes i3: "ndr_inv d3" and al: "4 dvd off d3" and lo: "length out = 2 * k" "k < 2 ^ 32"
    and uni: "\<not> dce_test KSMBD_DCERPC_ASCII_STRING d3"
    and w: "sq (ndr_write_bytes out) auto_align_offset d3 = (Inr (), d')"
    and e: "e = d'\<lparr>dce_offset := dce_offset d3\<rparr>"
  shows "ndr_step d3 d'" and "ndr_inv d'" and "ndr_inv e"
    and "slice (off e) (length out) (dce_payload e) = out"
    and "vstring_bytes (word_of_nat k) e = (Inr (length out), e)"
    and "auto_align_offset (seek (off e + length out) e) = (Inr (), d')"
proof -
  have lo': "length out < 2 ^ 62" using lo by simp
  from w obtain d4 where w4: "ndr_write_bytes out d3 = (Inr (), d4)" and w5: "auto_align_offset d4 = (Inr (), d')"
    by (auto elim!: sq_InrE)
  have i4: "ndr_inv d4"
    using ndr_safeD [OF ndr_write_bytes_safe(1) [OF lo'] i3 w4] by simp
  show i5: "ndr_inv d'" using ndr_safeD [OF auto_align_offset_safe(1) i4 w5] by simp
  show s35: "ndr_step d3 d'"
    by (rule ndr_step_trans [OF ndr_forwardD [OF ndr_write_bytes_safe(2) [OF lo'] i3 w4]
          ndr_forwardD [OF auto_align_offset_safe(2) i4 w5]])
  show ie: "ndr_inv e" unfolding e
    by (rule ndr_inv_agree [OF i5, of 0]) (use s35 in \<open>simp_all add: ndr_agree_def ndr_step_def\<close>)
  have "up 2 (off d3) = off d3"
    using al by (intro up_dvd) (auto intro: dvd_trans [of 2 4])
  then have fit: "off d3 + length out \<le> psz d3" and d4: "d4 = seek (off d3 + length out) (patch (off d3) out d3)"
    using w4 ndr_write_bytes_eq [OF i3 lo'] by (auto simp: Let_def split: if_splits)
  have k: "d' = d4\<lparr>dce_offset := dce_offset d'\<rparr>"
    using w5 auto_align_offset_eq [OF i4] by (auto simp: seek_def)
  show "slice (off e) (length out) (dce_payload e) = out"
    unfolding e by (subst k, subst d4) (use fit i3 in \<open>simp add: ndr_inv_def\<close>)
  have "seek (off d3 + length out) e = d4"
    unfolding e by (subst k, subst (2) d4) (simp add: seek_def d4)
  then show "auto_align_offset (seek (off e + length out) e) = (Inr (), d')"
    using w5 e by simp
  show "vstring_bytes (word_of_nat k) e = (Inr (length out), e)"
    using vstring_bytes_utf16 [of e k] fit lo uni ndr_step_flags [OF s35] e by (simp add: dce_test_def)
qed

lemma vstring_roundtrip:
  assumes d: "ndr_inv d" and w: "ndr_write_vstring g strlen (Some s) (d :: 'a ksmbd_dcerpc_scheme) = (Inr (), d')"
    and uni: "\<not> dce_test KSMBD_DCERPC_ASCII_STRING d"
    and enc: "ksmbd_gconvert g (s @ [0]) (ndr_charset d) KSMBD_CHARSET_UTF8 = Some out"
    and dec: "ksmbd_gconvert g out KSMBD_CHARSET_UTF8 (ndr_charset d) = Some (s @ [0])"
    and len: "length out = 2 * (strlen s + 1)" and small: "strlen s + 1 < 2 ^ 32" and s: "0 \<notin> set s"
  shows "ndr_read_vstring g (d'\<lparr>dce_offset := dce_offset d\<rparr>) = (Inr s, d')"
proof -
  let ?n = "word_of_nat (strlen s + 1) :: u32"
  have "ndr_convert_char_to_unicode g (s @ [0]) d = (Inr out, d)"
    using enc by (simp add: ndr_convert_char_to_unicode_def bnd_def reads_def ret_def)
  then have "sq (ndr_write_int32 ?n) (sq (ndr_write_int32 0) (sq (ndr_write_int32 ?n)
      (sq (ndr_write_bytes out) auto_align_offset))) d = (Inr (), d')"
    using w by (simp add: ndr_write_vstring_def bnd_def cstr_def Let_def)
  from ndr_write_counts [OF d this] obtain d3 where i3: "ndr_inv d3" and al: "4 dvd off d3"
    and w3: "sq (ndr_write_bytes out) auto_align_offset d3 = (Inr (), d')" and fl: "dce_flags d3 = dce_flags d"
    and rd: "\<And>z (f :: u32 \<Rightarrow> u32 \<Rightarrow> ('a ksmbd_dcerpc_scheme, byte list) act). ndr_step d3 z \<Longrightarrow> ndr_inv z \<Longrightarrow>
      bnd (or_else EINVAL ndr_read_int32) (\<lambda>x. sq (or_else EINVAL ndr_read_int32)
        (bnd (or_else EINVAL ndr_read_int32) (\<lambda>y. f x y))) (z\<lparr>dce_offset := dce_offset d\<rparr>) =
      f ?n ?n (z\<lparr>dce_offset := dce_offset d3\<rparr>)"
    by blast
  define e where "e = d'\<lparr>dce_offset := dce_offset d3\<rparr>"
  have "\<not> dce_test KSMBD_DCERPC_ASCII_STRING d3"
    using uni fl by (simp add: dce_test_def)
  note tail = ndr_write_bytes_vstring [OF i3 al len small this w3 e_def]
  have cs: "ndr_charset e = ndr_charset d"
    using fl ndr_step_flags [OF tail(1)] by (simp add: e_def ndr_charset_def dce_test_def)
  have nz: "?n \<noteq> 0"
    using small by (simp add: unat_of_nat flip: unat_eq_zero del: of_nat_Suc of_nat_add)
  have "takeWhile (\<lambda>b. b \<noteq> 0) (s @ [0]) = s"
    using s by (induction s) auto
  then show ?thesis
    unfolding ndr_read_vstring_def rd [OF tail(1,2)] e_def [symmetric]
    using vstring_tail_eq [OF tail(3,5), of g] tail(4,6) cs dec nz by simp
qed


lemma dcerpc_set_ext_payload_inv:
  assumes "length p = unat sz" and "unat sz < 2 ^ 63"
  shows "ndr_inv (dcerpc_set_ext_payload p sz d)"
proof -
  have "(dce_flags d OR KSMBD_DCERPC_EXTERNAL_PAYLOAD OR KSMBD_DCERPC_FIXED_PAYLOAD_SZ) AND
      KSMBD_DCERPC_FIXED_PAYLOAD_SZ = KSMBD_DCERPC_FIXED_PAYLOAD_SZ"
    by (simp add: or.assoc [symmetric] and.commute [of _ KSMBD_DCERPC_FIXED_PAYLOAD_SZ] bit.conj_disj_distrib)
  then show ?thesis
    using assms by (simp add: dcerpc_set_ext_payload_def ndr_inv_def dce_test_def up_def dce_flag_defs)
qed

section \<open>Properties of the marshalling layer\<close>

text \<open>A cursor as the pipe code sets it up, and a conversion for characters below 256, for the
  concrete instances below.\<close>

definition ndr_sample :: "ksmbd_dcerpc" where
  "ndr_sample = \<lparr>dce_flags = 0x65, dce_offset = 0, dce_payload_sz = 32,
      dce_payload = replicate 32 0, dce_num_pointers = 1\<rparr>"

definition ucs2 :: g_convert where
  "ucs2 to frm str = (if to = ''UTF-16LE'' then Some (concat (map (\<lambda>b. [b, 0]) str))
     else if to = ''UTF-8'' then Some (map (\<lambda>i. str ! (2 * i)) [0..<length str div 2]) else None)"

lemmas ndr_eval = ndr_sample_def ndr_int_defs ndr_write_int_def ndr_read_int_def act_simps sq_def bnd_def
  or_else_def align_offset_def auto_align_offset_def ALIGN_def ALIGN_MASK_def try_realloc_payload_def
  dce_store_def dce_load_def dce_advance_def dce_test_def dce_flag_defs

lemma ndr_sample_inv: "ndr_inv ndr_sample"
  by (simp add: ndr_inv_def ndr_sample_def dce_test_def dce_flag_defs up_def)

text \<open>C3: no reader of the NDR layer leaves the payload it is given: from a cursor within its
  payload, whatever the bytes are, reading a union, a unique pointer, a byte run, a
  conformant-varying string or a unique pointer to one ends without an access outside the
  payload, and with the cursor invariant intact.\<close>

theorem ndr_readers_safe:
  "ndr_safe ndr_read_union_int32 \<and> ndr_safe ndr_read_uniq_ptr \<and> ndr_safe ndr_read_ptr
   \<and> ndr_safe (ndr_read_bytes (unat (n :: u32)))
   \<and> ndr_safe (ndr_read_vstring g) \<and> ndr_safe (ndr_read_vstring_ptr g) \<and> ndr_safe (ndr_read_uniq_vstring_ptr g)"
proof -
  have "unat n < 2 ^ 62"
    using unsigned_less [of n, where ?'a = nat] by simp
  then show ?thesis
    unfolding ndr_read_uniq_vstring_ptr_def ndr_read_vstring_ptr_def ndr_read_union_int32_def
      ndr_read_uniq_ptr_def ndr_read_ptr_def
    by (intro conjI ndr_safe)
qed

text \<open>C10: an integer of any width, or a union discriminant, that was written successfully is
  read back unchanged from the offset where it was written, and the reader stops where the
  writer stopped.\<close>

theorem ndr_int_roundtrip:
  assumes "ndr_inv d"
  shows "(ndr_write_int8 a d = (Inr (), e) \<longrightarrow> ndr_read_int8 (e\<lparr>dce_offset := dce_offset d\<rparr>) = (Inr a, e))
    \<and> (ndr_write_int16 b d = (Inr (), e) \<longrightarrow> ndr_read_int16 (e\<lparr>dce_offset := dce_offset d\<rparr>) = (Inr b, e))
    \<and> (ndr_write_int32 c d = (Inr (), e) \<longrightarrow> ndr_read_int32 (e\<lparr>dce_offset := dce_offset d\<rparr>) = (Inr c, e))
    \<and> (ndr_write_int64 v d = (Inr (), e) \<longrightarrow> ndr_read_int64 (e\<lparr>dce_offset := dce_offset d\<rparr>) = (Inr v, e))
    \<and> (ndr_write_union_int32 c d = (Inr (), e) \<longrightarrow> ndr_read_union_int32 (e\<lparr>dce_offset := dce_offset d\<rparr>) = (Inr c, e))"
  using i8.roundtrip [OF assms TrueI] i16.roundtrip [OF assms TrueI] i32.roundtrip [OF assms TrueI]
    i64.roundtrip [OF assms TrueI] ndr_codec.roundtrip [OF codec_union32 assms TrueI]
  by simp

theorem ndr_int_roundtrip_witness:
  "\<exists>e. ndr_write_int32 0xdeadbeef ndr_sample = (Inr (), e)
     \<and> ndr_read_int32 (e\<lparr>dce_offset := dce_offset ndr_sample\<rparr>) = (Inr 0xdeadbeef, e)"
proof -
  have "fst (ndr_write_int32 0xdeadbeef ndr_sample) = Inr ()"
    by (simp add: ndr_eval)
  then obtain e where "ndr_write_int32 0xdeadbeef ndr_sample = (Inr (), e)"
    by (cases "ndr_write_int32 0xdeadbeef ndr_sample") simp
  with ndr_int_roundtrip [OF ndr_sample_inv, of _ e _ "0xdeadbeef"] show ?thesis by blast
qed

text \<open>C8: a string written with \<open>ndr_write_vstring\<close> is read back by \<open>ndr_read_vstring\<close> in the
  UTF-16 modes, provided that the conversion of the terminated string has two bytes per
  character of \<open>g_utf8_strlen\<close> and that converting back inverts it.\<close>

theorem ndr_vstring_roundtrip:
  assumes "ndr_inv d" and "ndr_write_vstring g strlen (Some s) d = (Inr (), d')"
    and "\<not> dce_test KSMBD_DCERPC_ASCII_STRING d"
    and "ksmbd_gconvert g (s @ [0]) (ndr_charset d) KSMBD_CHARSET_UTF8 = Some out"
    and "ksmbd_gconvert g out KSMBD_CHARSET_UTF8 (ndr_charset d) = Some (s @ [0])"
    and "length out = 2 * (strlen s + 1)" and "strlen s + 1 < 2 ^ 32" and "0 \<notin> set s"
  shows "ndr_read_vstring g (d'\<lparr>dce_offset := dce_offset d\<rparr>) = (Inr s, d')"
  by (rule vstring_roundtrip [OF assms])

theorem ndr_vstring_roundtrip_witness:
  "\<exists>d'. ndr_write_vstring ucs2 length (Some [73, 80, 67, 36]) ndr_sample = (Inr (), d')
     \<and> ndr_read_vstring ucs2 (d'\<lparr>dce_offset := dce_offset ndr_sample\<rparr>) = (Inr [73, 80, 67, 36], d')"
proof -
  have cs: "ndr_charset ndr_sample = KSMBD_CHARSET_UTF16LE" and a: "\<not> dce_test KSMBD_DCERPC_ASCII_STRING ndr_sample"
    by (simp_all add: ndr_charset_def ndr_eval)
  have c: "ksmbd_gconvert ucs2 ([73, 80, 67, 36] @ [0]) KSMBD_CHARSET_UTF16LE KSMBD_CHARSET_UTF8 =
      Some [73, 0, 80, 0, 67, 0, 36, 0, 0, 0]"
    and r: "ksmbd_gconvert ucs2 [73, 0, 80, 0, 67, 0, 36, 0, 0, 0] KSMBD_CHARSET_UTF8 KSMBD_CHARSET_UTF16LE =
      Some ([73, 80, 67, 36] @ [0])"
    by (simp_all add: ucs2_def ksmbd_gconvert.simps ksmbd_conv_charsets_def charset_defs upt_rec)
  have "fst (ndr_write_vstring ucs2 length (Some [73, 80, 67, 36]) ndr_sample) = Inr ()"
    using c cs by (simp add: ndr_write_vstring_def ndr_convert_char_to_unicode_def cstr_def ndr_write_bytes_def ndr_eval)
  then obtain d' where w: "ndr_write_vstring ucs2 length (Some [73, 80, 67, 36]) ndr_sample = (Inr (), d')"
    by (cases "ndr_write_vstring ucs2 length (Some [73, 80, 67, 36]) ndr_sample") simp
  from ndr_vstring_roundtrip [OF ndr_sample_inv w a c [folded cs] r [folded cs]] w show ?thesis by simp
qed



end
