(* ===== verification/Objects.thy ===== *)
theory Objects
  imports Prelude
begin

text \<open>
  What the management components (users, shares, sessions) share: C strings and fixed-size
  character arrays, GLib hash tables as association lists under a key function (the hash and
  equality callbacks compare \<open>key k\<close>), the triples in which invariants are stated, and the
  contract of a table of reference counted objects.  An object lives at an address; the heap is
  a partial map from addresses, and an access to an address outside it (a freed object) is a
  \<open>Fault\<close>.  Addresses are not reused.
\<close>

section \<open>Strings, arrays, tables\<close>

type_synonym addr = nat
type_synonym bytes = "byte list"

text \<open>The C string in a character array, and \<open>strnlen\<close>.\<close>

definition c_str :: "bytes \<Rightarrow> bytes" where
  "c_str raw = takeWhile (\<lambda>b. b \<noteq> 0) raw"

definition strnlen :: "bytes \<Rightarrow> nat \<Rightarrow> nat" where
  "strnlen raw n = length (c_str (take n raw))"

definition ht_lookup :: "('k \<Rightarrow> 'c) \<Rightarrow> ('k \<times> 'v) list \<Rightarrow> 'k \<Rightarrow> 'v option" where
  "ht_lookup key t k = map_option snd (find (\<lambda>p. key (fst p) = key k) t)"

text \<open>\<open>g_hash_table_insert\<close>: the old key stays when the key is present, and the result says
  whether the key is new.\<close>

definition ht_insert :: "('k \<Rightarrow> 'c) \<Rightarrow> 'k \<Rightarrow> 'v \<Rightarrow> ('k \<times> 'v) list \<Rightarrow> bool \<times> ('k \<times> 'v) list" where
  "ht_insert key k v t =
    (if ht_lookup key t k = None then (True, t @ [(k, v)])
     else (False, map (\<lambda>p. if key (fst p) = key k then (fst p, v) else p) t))"

definition ht_remove :: "('k \<Rightarrow> 'c) \<Rightarrow> 'k \<Rightarrow> ('k \<times> 'v) list \<Rightarrow> bool \<times> ('k \<times> 'v) list" where
  "ht_remove key k t = (ht_lookup key t k \<noteq> None, filter (\<lambda>p. key (fst p) \<noteq> key k) t)"

definition ht_ok :: "('k \<Rightarrow> 'c) \<Rightarrow> ('k \<times> 'v) list \<Rightarrow> bool" where
  "ht_ok key t \<longleftrightarrow> distinct (map (\<lambda>p. key (fst p)) t)"

text \<open>A call whose result is not looked at.\<close>

definition ignore :: "('s, 'a) act \<Rightarrow> ('s, unit) act" where
  "ignore m = (\<lambda>s. case m s of (Inl Fault, t) \<Rightarrow> (Inl Fault, t) | (_, t) \<Rightarrow> (Inr (), t))"

text \<open>A triple: from \<open>P\<close> the code does not fault, ends in \<open>Q\<close> when it returns and in \<open>E\<close>
  when it returns an error.\<close>

definition valid :: "('s \<Rightarrow> bool) \<Rightarrow> ('s, 'a) act \<Rightarrow> ('a \<Rightarrow> 's \<Rightarrow> bool) \<Rightarrow> ('s \<Rightarrow> bool) \<Rightarrow> bool" where
  "valid P m Q E \<longleftrightarrow> (\<forall>s. P s \<longrightarrow>
     (case m s of (Inr x, t) \<Rightarrow> Q x t | (Inl (Err e), t) \<Rightarrow> E t | (Inl Fault, t) \<Rightarrow> False))"

section \<open>Laws of the tables\<close>

lemma ht_lookup_Nil [simp]: "ht_lookup key [] k = None"
  by (simp add: ht_lookup_def)

lemma ht_lookup_Cons: "ht_lookup key (p # t) k = (if key (fst p) = key k then Some (snd p) else ht_lookup key t k)"
  by (simp add: ht_lookup_def)

lemma ht_lookup_append: "ht_lookup key (t @ u) k = (case ht_lookup key t k of None \<Rightarrow> ht_lookup key u k | Some v \<Rightarrow> Some v)"
  by (induction t) (auto simp: ht_lookup_Cons)

lemma ht_lookup_None: "ht_lookup key t k = None \<longleftrightarrow> key k \<notin> (\<lambda>p. key (fst p)) ` set t"
  by (induction t) (auto simp: ht_lookup_Cons)

lemma ht_lookup_SomeD: "ht_lookup key t k = Some v \<Longrightarrow> \<exists>k'. (k', v) \<in> set t \<and> key k' = key k"
  by (induction t) (auto simp: ht_lookup_Cons split: if_splits)

lemma ht_lookup_SomeI: "ht_ok key t \<Longrightarrow> (k', v) \<in> set t \<Longrightarrow> key k' = key k \<Longrightarrow> ht_lookup key t k = Some v"
  by (induction t) (force simp: ht_lookup_Cons ht_ok_def)+

lemma ht_lookup_insert [simp]:
  "ht_lookup key (snd (ht_insert key k v t)) k' = (if key k = key k' then Some v else ht_lookup key t k')"
proof -
  have "ht_lookup key (map (\<lambda>p. if key (fst p) = key k then (fst p, v) else p) t) k' =
      (if key k = key k' then map_option (\<lambda>_. v) (ht_lookup key t k) else ht_lookup key t k')"
    by (induction t) (auto simp: ht_lookup_Cons)
  moreover have "ht_lookup key t k' = ht_lookup key t k" if "key k = key k'"
    using that by (simp add: ht_lookup_def)
  ultimately show ?thesis
    by (auto simp: ht_insert_def ht_lookup_append ht_lookup_Cons split: option.split)
qed

lemma ht_lookup_remove [simp]:
  "ht_lookup key (snd (ht_remove key k t)) k' = (if key k = key k' then None else ht_lookup key t k')"
  by (induction t) (auto simp: ht_remove_def ht_lookup_Cons)

lemma ht_ok_Nil [simp]: "ht_ok key []"
  by (simp add: ht_ok_def)

lemma ht_ok_insert [simp]: "ht_ok key t \<Longrightarrow> ht_ok key (snd (ht_insert key k v t))"
  by (auto simp: ht_insert_def ht_ok_def ht_lookup_None comp_def if_distrib cong: if_cong)

lemma ht_ok_remove [simp]: "ht_ok key t \<Longrightarrow> ht_ok key (snd (ht_remove key k t))"
  by (induction t) (auto simp: ht_remove_def ht_ok_def)

lemma ht_insert_new: "ht_lookup key t k = None \<Longrightarrow> ht_insert key k v t = (True, t @ [(k, v)])"
  by (simp add: ht_insert_def)

lemma set_ht_remove: "set (snd (ht_remove key k t)) = {p \<in> set t. key (fst p) \<noteq> key k}"
  by (simp add: ht_remove_def)

text \<open>The interface a client of a table uses: a map from keys.\<close>

locale table =
  fixes empty_t :: 't and lookup_t :: "'t \<Rightarrow> 'k \<Rightarrow> 'v option" and insert_t :: "'k \<Rightarrow> 'v \<Rightarrow> 't \<Rightarrow> 't"
    and remove_t :: "'k \<Rightarrow> 't \<Rightarrow> 't" and key_of :: "'k \<Rightarrow> 'c"
  assumes lookup_empty: "lookup_t empty_t k = None"
    and lookup_insert: "lookup_t (insert_t k v t) k' = (if key_of k = key_of k' then Some v else lookup_t t k')"
    and lookup_remove: "lookup_t (remove_t k t) k' = (if key_of k = key_of k' then None else lookup_t t k')"
begin

lemma lookup_insert_same: "lookup_t (insert_t k v t) k = Some v"
  by (simp add: lookup_insert)

lemma remove_insert: "key_of k = key_of j \<Longrightarrow> lookup_t (remove_t k (insert_t j v t)) i = lookup_t (remove_t k t) i"
  by (simp add: lookup_insert lookup_remove)

lemma insert_commute:
  "key_of k \<noteq> key_of j \<Longrightarrow> lookup_t (insert_t k v (insert_t j w t)) i = lookup_t (insert_t j w (insert_t k v t)) i"
  by (auto simp: lookup_insert)

end

interpretation ght: table "[]" "ht_lookup key" "\<lambda>k v t. snd (ht_insert key k v t)"
    "\<lambda>k t. snd (ht_remove key k t)" key for key
  by unfold_locales simp_all

section \<open>Triples\<close>

named_theorems valid \<open>structural rules for triples\<close>

lemma validD: "valid P m Q E \<Longrightarrow> P s \<Longrightarrow>
   (case m s of (Inr x, t) \<Rightarrow> Q x t | (Inl (Err e), t) \<Rightarrow> E t | (Inl Fault, t) \<Rightarrow> False)"
  by (simp add: valid_def)

lemma valid_InrD: "valid P m Q E \<Longrightarrow> P s \<Longrightarrow> m s = (Inr x, t) \<Longrightarrow> Q x t"
  by (auto simp: valid_def)

lemma valid_no_fault: "valid P m Q E \<Longrightarrow> P s \<Longrightarrow> fst (m s) \<noteq> Inl Fault"
  by (cases "m s") (auto simp: valid_def)

lemma valid_returns: "valid P m Q (\<lambda>_. False) \<Longrightarrow> P s \<Longrightarrow> \<exists>x t. m s = (Inr x, t) \<and> Q x t"
  using validD [of P m Q "\<lambda>_. False" s] by (cases "m s"; cases "fst (m s)") (auto split: cerr.splits)

lemma validI:
  "(\<And>s. P s \<Longrightarrow> case m s of (Inr x, t) \<Rightarrow> Q x t | (Inl (Err e), t) \<Rightarrow> E t | (Inl Fault, t) \<Rightarrow> False) \<Longrightarrow> valid P m Q E"
  by (simp add: valid_def)

lemma valid_bnd [valid]:
  assumes "valid P m R E" and "\<And>x. valid (R x) (f x) Q E"
  shows "valid P (bnd m f) Q E"
proof (rule validI)
  fix s assume "P s"
  note m = validD [OF assms(1) this]
  obtain r t where r: "m s = (r, t)" by (cases "m s")
  show "case bnd m f s of (Inr x, t) \<Rightarrow> Q x t | (Inl (Err e), t) \<Rightarrow> E t | (Inl Fault, t) \<Rightarrow> False"
  proof (cases r)
    case (Inl e)
    with m r show ?thesis by (simp split: cerr.splits)
  next
    case (Inr x)
    with m r have "R x t" by simp
    from validD [OF assms(2) this] Inr r show ?thesis by simp
  qed
qed

lemma valid_sq [valid]: "valid P m (\<lambda>_. R) E \<Longrightarrow> valid R n Q E \<Longrightarrow> valid P (sq m n) Q E"
  unfolding sq_def by (rule valid_bnd)

lemma valid_ret: "(\<And>s. P s \<Longrightarrow> Q x s) \<Longrightarrow> valid P (ret x) Q E"
  by (simp add: valid_def ret_def)

lemma valid_fail: "(\<And>s. P s \<Longrightarrow> E s) \<Longrightarrow> valid P (fail (Err e)) Q E"
  by (simp add: valid_def fail_def)

lemma valid_modify: "(\<And>s. P s \<Longrightarrow> Q () (f s)) \<Longrightarrow> valid P (modify f) Q E"
  by (simp add: valid_def modify_def)

lemma valid_reads: "(\<And>s. P s \<Longrightarrow> Q (f s) s) \<Longrightarrow> valid P (reads f) Q E"
  by (simp add: valid_def reads_def)

lemma valid_if [valid]:
  "(b \<Longrightarrow> valid P m Q E) \<Longrightarrow> (\<not> b \<Longrightarrow> valid P n Q E) \<Longrightarrow> valid P (if b then m else n) Q E"
  by simp

lemma valid_option [valid]:
  "(r = None \<Longrightarrow> valid P m Q E) \<Longrightarrow> (\<And>x. r = Some x \<Longrightarrow> valid P (f x) Q E) \<Longrightarrow>
   valid P (case r of None \<Rightarrow> m | Some x \<Rightarrow> f x) Q E"
  by (cases r) simp_all

lemma valid_conseq:
  assumes "valid P m Q E" and "\<And>s. P' s \<Longrightarrow> P s" and "\<And>x s. Q x s \<Longrightarrow> Q' x s" and "\<And>s. E s \<Longrightarrow> E' s"
  shows "valid P' m Q' E'"
proof (rule validI)
  fix s assume "P' s"
  then have "P s" by (rule assms(2))
  from validD [OF assms(1) this]
  show "case m s of (Inr x, t) \<Rightarrow> Q' x t | (Inl (Err e), t) \<Rightarrow> E' t | (Inl Fault, t) \<Rightarrow> False"
    by (cases "m s"; cases "fst (m s)") (auto simp: assms(3,4) split: cerr.splits)
qed

lemma valid_pre: "valid P m Q E \<Longrightarrow> (\<And>s. P' s \<Longrightarrow> P s) \<Longrightarrow> valid P' m Q E"
  by (erule valid_conseq)

lemma valid_post: "valid P m Q E \<Longrightarrow> (\<And>x s. Q x s \<Longrightarrow> Q' x s) \<Longrightarrow> valid P m Q' E"
  by (erule valid_conseq)

lemma valid_total: "valid P m Q (\<lambda>_. False) \<Longrightarrow> valid P m Q E"
  by (erule valid_conseq) simp_all

lemma valid_ignore:
  assumes "valid P m (\<lambda>_. Q) Q"
  shows "valid P (ignore m) (\<lambda>_. Q) E"
proof (rule validI)
  fix s assume "P s"
  from validD [OF assms this]
  show "case ignore m s of (Inr x, t) \<Rightarrow> Q t | (Inl (Err e), t) \<Rightarrow> E t | (Inl Fault, t) \<Rightarrow> False"
    by (cases "m s"; cases "fst (m s)") (auto simp: ignore_def split: cerr.splits)
qed

lemma valid_each:
  assumes "\<And>x. x \<in> set xs \<Longrightarrow> valid P (f x) (\<lambda>_. P) E"
  shows "valid P (each f xs) (\<lambda>_. P) E"
  using assms
proof (induction xs)
  case (Cons x xs)
  then have "valid P (f x) (\<lambda>_. P) E" and "valid P (each f xs) (\<lambda>_. P) E" by simp_all
  then show ?case by (simp add: valid_sq)
qed (simp add: valid_ret)

section \<open>Reference counted objects\<close>

text \<open>
  The contract between a table of reference counted objects and its clients.  \<open>inv h s\<close> says
  that the state is well formed when \<open>h a\<close> references to the object at \<open>a\<close> are held outside
  the table.  A lookup hands out one more reference, a put gives one back.
\<close>

locale refcounted =
  fixes look :: "'k \<Rightarrow> ('s, addr option) act" and put :: "addr option \<Rightarrow> ('s, unit) act"
    and inv :: "(addr \<Rightarrow> nat) \<Rightarrow> 's \<Rightarrow> bool"
  assumes look_law: "valid (inv h) (look k)
      (\<lambda>r. case r of None \<Rightarrow> inv h | Some a \<Rightarrow> inv (h(a := Suc (h a)))) (\<lambda>_. False)"
    and put_law: "0 < h a \<Longrightarrow> valid (inv h) (put (Some a)) (\<lambda>_. inv (h(a := h a - 1))) (\<lambda>_. False)"
    and put_null: "put None s = (Inr (), s)"
begin

lemma put_borrowed: "valid (inv (h(a := Suc (h a)))) (put (Some a)) (\<lambda>_. inv h) (\<lambda>_. False)"
  using put_law [of "h(a := Suc (h a))" a] by simp

text \<open>Look up, use, put: the references held are the same before and after.\<close>

lemma borrow:
  assumes "\<And>a. valid (inv (h(a := Suc (h a)))) (body a) (\<lambda>_. inv (h(a := Suc (h a)))) E"
    and "\<And>x. valid (inv h) (fin x) Q E" and "valid (inv h) other Q E"
  shows "valid (inv h) (bnd (look k) (\<lambda>r. case r of None \<Rightarrow> other
      | Some a \<Rightarrow> bnd (body a) (\<lambda>x. sq (put (Some a)) (fin x)))) Q E"
proof (rule valid_bnd [OF valid_total [OF look_law]])
  fix r
  show "valid (case r of None \<Rightarrow> inv h | Some a \<Rightarrow> inv (h(a := Suc (h a))))
     (case r of None \<Rightarrow> other | Some a \<Rightarrow> bnd (body a) (\<lambda>x. sq (put (Some a)) (fin x))) Q E"
  proof (cases r)
    case None
    with assms(3) show ?thesis by simp
  next
    case (Some a)
    have "valid (inv (h(a := Suc (h a)))) (bnd (body a) (\<lambda>x. sq (put (Some a)) (fin x))) Q E"
      by (rule valid_bnd [OF assms(1) valid_sq [OF valid_total [OF put_borrowed] assms(2)]])
    with Some show ?thesis by simp
  qed
qed

end

end
