(* ===== verification/Users.thy ===== *)
theory Users
  imports Objects
begin

text \<open>
  \<open>src/tools/management/user.c\<close>: the table of users, their reference counts, and the login,
  login-extension and logout handlers; with \<open>struct smbconf_global\<close> of \<open>src/include/tools.h\<close>
  and the request and response frames of \<open>src/include/linux/ksmbd_server.h\<close>.

  The users live in the heap \<open>users\<close>; \<open>users_table\<close> maps names to addresses.  Every critical
  section of the code is one step here.  The system's user database and the Base64 decoder are
  the fields of \<open>sysdb\<close>, a parameter of the definitions that consult them.
\<close>

section \<open>Data\<close>

record smbconf_global =
  gc_flags :: u32
  map_to_guest :: u32
  gc_guest_account :: "bytes option"
  server_string :: "bytes option"
  work_group :: "bytes option"
  netbios_name :: "bytes option"
  server_min_protocol :: "bytes option"
  server_max_protocol :: "bytes option"
  root_dir :: "bytes option"
  server_signing :: u32
  sessions_cap :: int
  restrict_anon :: int
  tcp_port :: u16
  ipc_timeout :: u16
  deadtime :: u32
  bind_interfaces_only :: bool
  interfaces :: "bytes list option"
  file_max :: u64
  smb2_max_read :: u32
  smb2_max_write :: u32
  smb2_max_trans :: u32
  smb2_max_credits :: u32
  smbd_max_io_size :: u32
  gc_max_connections :: u32
  max_ip_connections :: u32
  share_fake_fscaps :: u32
  gen_subauth :: "u32 list"
  krb5_keytab_file :: "bytes option"
  krb5_service_name :: "bytes option"
  krb5_support :: int
  fruit_model :: "bytes option"
  max_worker_threads :: int
  pwddb :: "bytes option"
  smbconf :: "bytes option"
  tcp_recv_timeout :: u32
  tcp_send_timeout :: u32
  quic_recv_timeout :: u32
  quic_send_timeout :: u32
  quic_handshake_delegate :: bool
  quic_tls_cert :: "bytes option"
  quic_tls_key :: "bytes option"
  max_lock_count :: u32
  max_buffer_size :: u32
  session_timeout :: u32
  durable_handle_timeout :: u32
  max_inflight_req :: u32
  max_async_credits :: u32
  max_sessions :: u32
  smb1_max_mpx :: u32

definition KSMBD_CONF_MAP_TO_GUEST_NEVER :: u32 where "KSMBD_CONF_MAP_TO_GUEST_NEVER = 0"
definition KSMBD_CONF_MAP_TO_GUEST_BAD_USER :: u32 where "KSMBD_CONF_MAP_TO_GUEST_BAD_USER = 1"

definition KSMBD_REQ_MAX_ACCOUNT_NAME_SZ :: nat where "KSMBD_REQ_MAX_ACCOUNT_NAME_SZ = 256"
definition KSMBD_REQ_MAX_HASH_SZ :: nat where "KSMBD_REQ_MAX_HASH_SZ = 18"
definition KSMBD_IPC_MAX_MESSAGE_SIZE :: nat where "KSMBD_IPC_MAX_MESSAGE_SIZE = 4096"

definition KSMBD_USER_FLAG_INVALID :: u32 where "KSMBD_USER_FLAG_INVALID = 0"
definition KSMBD_USER_FLAG_OK :: u32 where "KSMBD_USER_FLAG_OK = 0x01"
definition KSMBD_USER_FLAG_BAD_PASSWORD :: u32 where "KSMBD_USER_FLAG_BAD_PASSWORD = 0x02"
definition KSMBD_USER_FLAG_BAD_USER :: u32 where "KSMBD_USER_FLAG_BAD_USER = 0x08"
definition KSMBD_USER_FLAG_GUEST_ACCOUNT :: u32 where "KSMBD_USER_FLAG_GUEST_ACCOUNT = 0x10"
definition KSMBD_USER_FLAG_DELAY_SESSION :: u32 where "KSMBD_USER_FLAG_DELAY_SESSION = 0x20"
definition KSMBD_USER_FLAG_EXTENSION :: u32 where "KSMBD_USER_FLAG_EXTENSION = 0x40"

lemmas user_flag_defs = KSMBD_USER_FLAG_INVALID_def KSMBD_USER_FLAG_OK_def KSMBD_USER_FLAG_BAD_PASSWORD_def
  KSMBD_USER_FLAG_BAD_USER_def KSMBD_USER_FLAG_GUEST_ACCOUNT_def KSMBD_USER_FLAG_DELAY_SESSION_def
  KSMBD_USER_FLAG_EXTENSION_def

definition KSMBD_LOGIN_FLAG_IGNORE_MAP_TO_GUEST :: u32 where "KSMBD_LOGIN_FLAG_IGNORE_MAP_TO_GUEST = 0x01"

text \<open>\<open>(__u16)-1\<close>, as it compares with a \<open>uid_t\<close> or \<open>gid_t\<close>.\<close>

definition KSMBD_SHARE_INVALID_UID :: u32 where "KSMBD_SHARE_INVALID_UID = 0xFFFF"
definition KSMBD_SHARE_INVALID_GID :: u32 where "KSMBD_SHARE_INVALID_GID = 0xFFFF"

record ksmbd_user =
  u_name :: bytes
  u_pass_b64 :: bytes
  u_pass :: bytes
  u_pass_sz :: int
  u_uid :: u32
  u_gid :: u32
  u_ref_count :: int
  u_flags :: u32
  u_freeing :: bool
  u_failed_login_count :: u32
  u_ngroups :: int
  u_sgid :: "u32 list"

record usm =
  global_conf :: smbconf_global
  users_table :: "(bytes \<times> addr) list"
  users :: "addr \<rightharpoonup> ksmbd_user"
  users_next :: addr

text \<open>
  The system interface: \<open>getpwnam\<close> (uid and gid), \<open>getgrouplist\<close> (the list it delivers once the
  array is large enough), \<open>getgrnam\<close> (gid and members), the \<open>getpwent\<close> enumeration (name and
  gid) and GLib's Base64 decoder, UTF-8 check, normalisation and case folding.
\<close>

record sysdb =
  getpwnam :: "bytes \<Rightarrow> (u32 \<times> u32) option"
  getgrouplist :: "bytes \<Rightarrow> u32 \<Rightarrow> u32 list"
  getgrnam :: "bytes \<Rightarrow> (u32 \<times> bytes list) option"
  getpwents :: "(bytes \<times> u32) list"
  g_base64_decode :: "bytes \<Rightarrow> bytes option"
  g_utf8_validate :: "bytes \<Rightarrow> bool"
  g_utf8_normalize_nfd :: "bytes \<Rightarrow> bytes option"
  g_utf8_casefold :: "bytes \<Rightarrow> bytes"

record ksmbd_login_request =
  lreq_handle :: u32
  lreq_account :: bytes
  lreq_flags :: u32

record ksmbd_login_response =
  lres_handle :: u32
  lres_gid :: u32
  lres_uid :: u32
  lres_account :: bytes
  lres_status :: u16
  lres_hash_sz :: u16
  lres_hash :: bytes

record ksmbd_login_response_ext =
  lext_handle :: u32
  lext_ngroups :: int
  lext_payload :: "u32 list"

record ksmbd_logout_request =
  loreq_account :: bytes
  loreq_account_flags :: u32

section \<open>Objects and references\<close>

definition get_user :: "addr \<Rightarrow> ('x usm_scheme, ksmbd_user) act" where
  "get_user a = (\<lambda>s. case users s a of None \<Rightarrow> (Inl Fault, s) | Some u \<Rightarrow> (Inr u, s))"

definition set_user :: "addr \<Rightarrow> (ksmbd_user \<Rightarrow> ksmbd_user) \<Rightarrow> ('x usm_scheme, unit) act" where
  "set_user a f = (\<lambda>s. case users s a of None \<Rightarrow> (Inl Fault, s)
     | Some u \<Rightarrow> (Inr (), s\<lparr>users := (users s)(a \<mapsto> f u)\<rparr>))"

definition test_user_flag :: "ksmbd_user \<Rightarrow> u32 \<Rightarrow> bool" where
  "test_user_flag u f = (u_flags u AND f \<noteq> 0)"

definition kill_ksmbd_user :: "addr \<Rightarrow> ('x usm_scheme, unit) act" where
  "kill_ksmbd_user a = sq (get_user a) (modify (\<lambda>s. s\<lparr>users := (users s)(a := None)\<rparr>))"

definition usm_remove_user :: "addr \<Rightarrow> ('x usm_scheme, unit) act" where
  "usm_remove_user a =
     bnd (get_user a) (\<lambda>u.
     if u_freeing u then kill_ksmbd_user a
     else bnd (reads (\<lambda>s. ht_remove id (u_name u) (users_table s))) (\<lambda>(found, t).
     if \<not> found then fail (Err EINVAL)
     else sq (modify (\<lambda>s. s\<lparr>users_table := t\<rparr>)) (kill_ksmbd_user a)))"

definition get_ksmbd_user :: "addr \<Rightarrow> ('x usm_scheme, addr option) act" where
  "get_ksmbd_user a =
     bnd (get_user a) (\<lambda>u.
     if u_ref_count u \<noteq> 0 then sq (set_user a (u_ref_count_update (\<lambda>n. n + 1))) (ret (Some a))
     else ret None)"

definition put_ksmbd_user :: "addr option \<Rightarrow> ('x usm_scheme, unit) act" where
  "put_ksmbd_user p =
    (case p of None \<Rightarrow> ret ()
     | Some a \<Rightarrow>
        sq (set_user a (u_ref_count_update (\<lambda>n. n - 1)))
       (bnd (get_user a) (\<lambda>u.
        if u_ref_count u \<noteq> 0 then ret () else ignore (usm_remove_user a))))"

text \<open>\<open>ghash_for_each_remove\<close> over the table: each entry is put, then removed.\<close>

definition usm_remove_entry :: "bytes \<times> addr \<Rightarrow> ('x usm_scheme, unit) act" where
  "usm_remove_entry p =
     sq (set_user (snd p) (u_freeing_update (\<lambda>_. True)))
    (sq (put_ksmbd_user (Some (snd p)))
        (modify (\<lambda>s. s\<lparr>users_table := snd (ht_remove id (fst p) (users_table s))\<rparr>)))"

definition usm_remove_all_users :: "('x usm_scheme, unit) act" where
  "usm_remove_all_users = bnd (reads users_table) (each usm_remove_entry)"

text \<open>The loop of \<open>new_ksmbd_user\<close> that takes \<open>KSMBD_SHARE_INVALID_GID\<close> out of the array.\<close>

function drop_invalid_gid :: "nat \<Rightarrow> nat \<Rightarrow> u32 list \<Rightarrow> nat \<times> u32 list" where
  "drop_invalid_gid i ngroups sgid =
    (if \<not> i < ngroups then (ngroups, sgid)
     else if sgid ! i = KSMBD_SHARE_INVALID_GID
     then drop_invalid_gid (i + 1) (ngroups - 1)
       (overwrite i (slice (i + 1) (ngroups - i - 1) sgid) sgid)
     else drop_invalid_gid (i + 1) ngroups sgid)"
  by pat_completeness auto
termination
  by (relation "measure (\<lambda>(i, n, xs). n - i)") auto

declare drop_invalid_gid.simps [simp del]

definition new_ksmbd_user :: "sysdb \<Rightarrow> bytes \<Rightarrow> bytes \<Rightarrow> ksmbd_user option" where
  "new_ksmbd_user sys name pwd =
    (case g_base64_decode sys pwd of
       None \<Rightarrow> None
     | Some pass \<Rightarrow>
        if length pass > 2 ^ 31 - 1 then None
        else let user = \<lparr>u_name = name, u_pass_b64 = pwd, u_pass = pass, u_pass_sz = int (length pass),
               u_uid = (case getpwnam sys name of None \<Rightarrow> KSMBD_SHARE_INVALID_UID | Some e \<Rightarrow> fst e),
               u_gid = (case getpwnam sys name of None \<Rightarrow> KSMBD_SHARE_INVALID_GID | Some e \<Rightarrow> snd e),
               u_ref_count = 1, u_flags = 0, u_freeing = False, u_failed_login_count = 0,
               u_ngroups = 0, u_sgid = []\<rparr>
             in case getpwnam sys name of None \<Rightarrow> Some user
                | Some _ \<Rightarrow>
                   let sgid = getgrouplist sys name KSMBD_SHARE_INVALID_GID;
                       (n, sgid') = drop_invalid_gid 0 (length sgid) sgid
                   in Some (user\<lparr>u_ngroups := int n, u_sgid := sgid'\<rparr>))"

definition usm_clear_users :: "('x usm_scheme, unit) act" where
  "usm_clear_users = bnd (reads users_table) (each (\<lambda>(n, a). kill_ksmbd_user a))"

definition usm_destroy :: "('x usm_scheme, unit) act" where
  "usm_destroy = sq usm_clear_users (modify (\<lambda>s. s\<lparr>users_table := []\<rparr>))"

definition usm_lookup_user :: "bytes option \<Rightarrow> ('x usm_scheme, addr option) act" where
  "usm_lookup_user name =
    (case name of None \<Rightarrow> ret None
     | Some n \<Rightarrow>
        bnd (reads (\<lambda>s. ht_lookup id (users_table s) n)) (\<lambda>r.
        case r of None \<Rightarrow> ret None | Some a \<Rightarrow> get_ksmbd_user a))"

text \<open>\<open>cp_printable\<close> of \<open>src/include/config_parser.h\<close>.\<close>

definition cp_printable :: "byte \<Rightarrow> bool" where
  "cp_printable c = (c \<ge> 0x20 \<and> c \<noteq> 0x7F \<or> c = 0x09)"

definition usm_user_name :: "sysdb \<Rightarrow> bytes \<Rightarrow> bool" where
  "usm_user_name sys name =
    (name \<noteq> [] \<and> length name < KSMBD_REQ_MAX_ACCOUNT_NAME_SZ \<and> g_utf8_validate sys name
     \<and> list_all (\<lambda>b. cp_printable b \<and> b \<noteq> 0x3A) name)"

text \<open>
  When \<open>new_ksmbd_user\<close> fails it has killed the half-built user, which owns \<open>name\<close> and \<open>pwd\<close>;
  \<open>usm_add_new_user\<close> then frees both again, an access to freed memory.
\<close>

definition usm_add_new_user :: "sysdb \<Rightarrow> bytes \<Rightarrow> bytes \<Rightarrow> ('x usm_scheme, unit) act" where
  "usm_add_new_user sys name pwd =
    (case new_ksmbd_user sys name pwd of
       None \<Rightarrow> fail Fault
     | Some user \<Rightarrow>
        bnd (reads users_next) (\<lambda>a.
        sq (modify (\<lambda>s. s\<lparr>users := (users s)(a \<mapsto> user), users_next := Suc a\<rparr>))
       (bnd (reads (\<lambda>s. ht_lookup id (users_table s) name)) (\<lambda>r.
        if r \<noteq> None then kill_ksmbd_user a
        else bnd (reads (\<lambda>s. ht_insert id (u_name user) a (users_table s))) (\<lambda>(new, t).
        sq (modify (\<lambda>s. s\<lparr>users_table := t\<rparr>))
           (if \<not> new then sq (kill_ksmbd_user a) (fail (Err EINVAL)) else ret ()))))))"

definition usm_add_guest_account :: "sysdb \<Rightarrow> bytes \<Rightarrow> ('x usm_scheme, unit) act" where
  "usm_add_guest_account sys name =
     sq (usm_add_new_user sys name [0x4E, 0x55, 0x4C, 0x4C])
    (bnd (usm_lookup_user (Some name)) (\<lambda>p.
     case p of None \<Rightarrow> fail (Err EINVAL)
     | Some a \<Rightarrow> bnd (set_user a (u_flags_update (\<lambda>f. f OR KSMBD_USER_FLAG_GUEST_ACCOUNT))) (\<lambda>_.
         sq (put_ksmbd_user (Some a)) (ret ()))))"

text \<open>\<open>(int)\<close> of a \<open>size_t\<close>.\<close>

definition to_int :: "nat \<Rightarrow> int" where
  "to_int n = (int n + 2 ^ 31) mod 2 ^ 32 - 2 ^ 31"

definition usm_update_user_password :: "sysdb \<Rightarrow> addr \<Rightarrow> bytes \<Rightarrow> ('x usm_scheme, unit) act" where
  "usm_update_user_password sys a pwd =
    (case g_base64_decode sys pwd of
       None \<Rightarrow> sq (get_user a) (ret ())
     | Some pass \<Rightarrow> set_user a (\<lambda>u. u\<lparr>u_pass_b64 := pwd, u_pass := pass, u_pass_sz := to_int (length pass)\<rparr>))"

section \<open>Handlers\<close>

definition usm_is_valid_ipc_account :: "bytes \<Rightarrow> bool" where
  "usm_is_valid_ipc_account account =
     (strnlen account KSMBD_REQ_MAX_ACCOUNT_NAME_SZ < KSMBD_REQ_MAX_ACCOUNT_NAME_SZ)"

text \<open>The copies into the response.  \<open>pass_sz\<close> is compared as a \<open>size_t\<close>.\<close>

definition usm_copy_user_passhash :: "ksmbd_user \<Rightarrow> bytes \<Rightarrow> nat \<Rightarrow> cerr + (int \<times> bytes)" where
  "usm_copy_user_passhash u pass sz =
    (if test_user_flag u KSMBD_USER_FLAG_GUEST_ACCOUNT then Inr (0, pass)
     else if int sz \<ge> u_pass_sz u mod 2 ^ 64 then
       (let n = nat (u_pass_sz u mod 2 ^ 64) in
        if n \<le> length (u_pass u) \<and> n \<le> length pass
        then Inr (u_pass_sz u, overwrite 0 (take n (u_pass u)) pass) else Inl Fault)
     else Inl (Err ENOSPC))"

definition usm_copy_user_account :: "ksmbd_user \<Rightarrow> bytes \<Rightarrow> nat \<Rightarrow> cerr + bytes" where
  "usm_copy_user_account u account sz =
    (if test_user_flag u KSMBD_USER_FLAG_GUEST_ACCOUNT then Inr account
     else if sz \<ge> length (u_name u) then
       (if length (u_name u) \<le> length account then Inr (overwrite 0 (u_name u) account) else Inl Fault)
     else Inl (Err ENOSPC))"

definition handle_login :: "ksmbd_login_response \<Rightarrow> ksmbd_user \<Rightarrow> cerr + ksmbd_login_response" where
  "handle_login resp u =
    (let resp = resp\<lparr>lres_gid := u_gid u, lres_uid := u_uid u,
           lres_status := ucast (u_flags u) OR ucast KSMBD_USER_FLAG_OK\<rparr>;
         resp = (if u_ngroups u \<noteq> 0
           then resp\<lparr>lres_status := lres_status resp OR ucast KSMBD_USER_FLAG_EXTENSION\<rparr> else resp)
     in case usm_copy_user_passhash u (lres_hash resp) KSMBD_REQ_MAX_HASH_SZ of
          Inl Fault \<Rightarrow> Inl Fault
        | Inl (Err _) \<Rightarrow> Inr (resp\<lparr>lres_status := ucast KSMBD_USER_FLAG_INVALID\<rparr>)
        | Inr (hash_sz, hash) \<Rightarrow>
           let resp = resp\<lparr>lres_hash := hash, lres_hash_sz := word_of_int hash_sz\<rparr> in
           (case usm_copy_user_account u (lres_account resp) KSMBD_REQ_MAX_ACCOUNT_NAME_SZ of
              Inl Fault \<Rightarrow> Inl Fault
            | Inl (Err _) \<Rightarrow> Inr (resp\<lparr>lres_status := ucast KSMBD_USER_FLAG_INVALID\<rparr>)
            | Inr account \<Rightarrow> Inr (resp\<lparr>lres_account := account\<rparr>)))"

definition handle_login_request :: "ksmbd_login_response \<Rightarrow> addr \<Rightarrow> ('x usm_scheme, ksmbd_login_response) act" where
  "handle_login_request resp a =
     bnd (get_user a) (\<lambda>u. case handle_login resp u of Inl e \<Rightarrow> fail e | Inr resp \<Rightarrow> ret resp)"

text \<open>
  A handler returns its status (\<open>None\<close> for 0) and the response it filled.  \<open>login_no_user\<close> is
  the part of the login handler behind a failed lookup of the account.
\<close>

definition login_no_user ::
    "bool \<Rightarrow> bool \<Rightarrow> ksmbd_login_response \<Rightarrow> ('x usm_scheme, errno option \<times> ksmbd_login_response) act" where
  "login_no_user null_session ignore_map_to_guest resp =
    (let resp = resp\<lparr>lres_status := ucast KSMBD_USER_FLAG_BAD_USER\<rparr> in
     bnd (reads global_conf) (\<lambda>gc.
     if \<not> null_session \<and> (ignore_map_to_guest \<or> map_to_guest gc = KSMBD_CONF_MAP_TO_GUEST_NEVER)
     then ret (None, resp)
     else bnd (if null_session \<or> map_to_guest gc = KSMBD_CONF_MAP_TO_GUEST_BAD_USER
               then usm_lookup_user (gc_guest_account gc) else ret None) (\<lambda>p.
     case p of None \<Rightarrow> ret (None, resp)
     | Some a \<Rightarrow> bnd (handle_login_request resp a) (\<lambda>resp. sq (put_ksmbd_user (Some a)) (ret (None, resp))))))"

definition usm_handle_login_request ::
    "ksmbd_login_request \<Rightarrow> ksmbd_login_response \<Rightarrow> ('x usm_scheme, errno option \<times> ksmbd_login_response) act" where
  "usm_handle_login_request req resp =
    (if \<not> usm_is_valid_ipc_account (lreq_account req)
     then ret (Some EINVAL, resp\<lparr>lres_status := ucast KSMBD_USER_FLAG_INVALID\<rparr>)
     else
     let account = c_str (lreq_account req);
         null_session = (account = []);
         ignore_map_to_guest = (lreq_flags req AND KSMBD_LOGIN_FLAG_IGNORE_MAP_TO_GUEST \<noteq> 0)
     in bnd (if \<not> null_session then usm_lookup_user (Some account) else ret None) (\<lambda>p.
        case p of None \<Rightarrow> login_no_user null_session ignore_map_to_guest resp
        | Some a \<Rightarrow> bnd (handle_login_request resp a) (\<lambda>resp. sq (put_ksmbd_user (Some a)) (ret (None, resp)))))"

text \<open>\<open>sizeof(struct ksmbd_login_response_ext)\<close> is 136.\<close>

definition max_ngroups :: int where
  "max_ngroups = int ((KSMBD_IPC_MAX_MESSAGE_SIZE - 136) div 4)"

definition handle_login_ext :: "ksmbd_login_response_ext \<Rightarrow> ksmbd_user \<Rightarrow> cerr + (errno option \<times> ksmbd_login_response_ext)" where
  "handle_login_ext resp u =
    (let ngroups = u_ngroups u in
     if ngroups < 0 then Inr (Some EINVAL, resp)
     else let ngroups = (if ngroups > max_ngroups then max_ngroups else ngroups)
          in if nat ngroups \<le> length (u_sgid u) \<and> nat ngroups \<le> length (lext_payload resp)
             then Inr (None, resp\<lparr>lext_ngroups := ngroups,
                  lext_payload := overwrite 0 (take (nat ngroups) (u_sgid u)) (lext_payload resp)\<rparr>)
             else Inl Fault)"

definition usm_handle_login_request_ext ::
    "ksmbd_login_request \<Rightarrow> ksmbd_login_response_ext \<Rightarrow> ('x usm_scheme, errno option \<times> ksmbd_login_response_ext) act" where
  "usm_handle_login_request_ext req resp =
    (let resp = resp\<lparr>lext_ngroups := 0\<rparr> in
     if \<not> usm_is_valid_ipc_account (lreq_account req) then ret (Some EINVAL, resp)
     else if c_str (lreq_account req) = [] then ret (None, resp)
     else bnd (usm_lookup_user (Some (c_str (lreq_account req)))) (\<lambda>p.
          case p of None \<Rightarrow> ret (None, resp)
          | Some a \<Rightarrow>
             bnd (bnd (get_user a) (\<lambda>u. case handle_login_ext resp u of Inl e \<Rightarrow> fail e | Inr r \<Rightarrow> ret r))
               (\<lambda>r. sq (put_ksmbd_user (Some a)) (ret r))))"

definition count_logout :: "u32 \<Rightarrow> ksmbd_user \<Rightarrow> ksmbd_user" where
  "count_logout account_flags u =
    (if account_flags AND KSMBD_USER_FLAG_BAD_PASSWORD \<noteq> 0 then
       (if u_failed_login_count u < 10 then u\<lparr>u_failed_login_count := u_failed_login_count u + 1\<rparr>
        else u\<lparr>u_flags := u_flags u OR KSMBD_USER_FLAG_DELAY_SESSION\<rparr>)
     else u\<lparr>u_failed_login_count := 0, u_flags := u_flags u AND NOT KSMBD_USER_FLAG_DELAY_SESSION\<rparr>)"

definition usm_handle_logout_request :: "ksmbd_logout_request \<Rightarrow> ('x usm_scheme, errno option) act" where
  "usm_handle_logout_request req =
    (if \<not> usm_is_valid_ipc_account (loreq_account req) then ret (Some EINVAL)
     else bnd (usm_lookup_user (Some (c_str (loreq_account req)))) (\<lambda>p.
          case p of None \<Rightarrow> ret (Some ENOENT)
          | Some a \<Rightarrow> bnd (set_user a (count_logout (loreq_account_flags req))) (\<lambda>_.
             sq (put_ksmbd_user (Some a)) (ret None))))"

section \<open>The invariant of the users\<close>

definition user_ok :: "ksmbd_user \<Rightarrow> bool" where
  "user_ok u \<longleftrightarrow> - (2 ^ 31) \<le> u_pass_sz u \<and> u_pass_sz u < 2 ^ 31 \<and> nat (u_pass_sz u) \<le> length (u_pass u)
     \<and> 0 \<le> u_ngroups u \<and> nat (u_ngroups u) \<le> length (u_sgid u)"

text \<open>
  \<open>h a\<close> references to the user at \<open>a\<close> are held outside the table.  A user is in the table under
  its name, with one reference more, or is being freed and lives on those references alone.
\<close>

definition user_inv :: "nat \<Rightarrow> (bytes \<times> addr) list \<Rightarrow> addr \<Rightarrow> ksmbd_user \<Rightarrow> bool" where
  "user_inv k t a u \<longleftrightarrow> user_ok u
     \<and> (if u_freeing u then 0 < k \<and> u_ref_count u = int k
        else (u_name u, a) \<in> set t \<and> u_ref_count u = int k + 1)"

definition usm_inv :: "(addr \<Rightarrow> nat) \<Rightarrow> 'x usm_scheme \<Rightarrow> bool" where
  "usm_inv h s \<longleftrightarrow> ht_ok id (users_table s)
     \<and> (\<forall>p \<in> set (users_table s). \<exists>u. users s (snd p) = Some u \<and> u_name u = fst p \<and> \<not> u_freeing u)
     \<and> (\<forall>a. case users s a of None \<Rightarrow> h a = 0 | Some u \<Rightarrow> a < users_next s \<and> user_inv (h a) (users_table s) a u)"

lemma usm_invD:
  assumes "usm_inv h s"
  shows "ht_ok id (users_table s)"
    and "(n, a) \<in> set (users_table s) \<Longrightarrow> \<exists>u. users s a = Some u \<and> u_name u = n \<and> \<not> u_freeing u"
    and "users s a = Some u \<Longrightarrow> user_inv (h a) (users_table s) a u"
    and "users s a = Some u \<Longrightarrow> a < users_next s"
    and "users s a = None \<Longrightarrow> h a = 0"
proof -
  have "case users s a of None \<Rightarrow> h a = 0 | Some u \<Rightarrow> a < users_next s \<and> user_inv (h a) (users_table s) a u"
    using assms by (simp only: usm_inv_def)
  then show "users s a = Some u \<Longrightarrow> user_inv (h a) (users_table s) a u" "users s a = Some u \<Longrightarrow> a < users_next s"
    "users s a = None \<Longrightarrow> h a = 0" by simp_all
qed (use assms in \<open>auto simp: usm_inv_def\<close>)

lemma usm_invI:
  assumes "ht_ok id (users_table s)"
    and "\<And>n a. (n, a) \<in> set (users_table s) \<Longrightarrow> \<exists>u. users s a = Some u \<and> u_name u = n \<and> \<not> u_freeing u"
    and "\<And>a u. users s a = Some u \<Longrightarrow> user_inv (h a) (users_table s) a u"
    and "\<And>a u. users s a = Some u \<Longrightarrow> a < users_next s" and "\<And>a. users s a = None \<Longrightarrow> h a = 0"
  shows "usm_inv h s"
  using assms by (auto simp: usm_inv_def split: option.split)

lemma usm_inv_table:
  assumes "usm_inv h s" and "(n, a) \<in> set (users_table s)"
  shows "\<exists>u. users s a = Some u \<and> u_name u = n \<and> \<not> u_freeing u \<and> user_ok u \<and> u_ref_count u = int (h a) + 1"
  using usm_invD(2) [OF assms] usm_invD(3) [OF assms(1)] by (auto simp: user_inv_def split: if_splits)

lemma usm_inv_held: "usm_inv h s \<Longrightarrow> 0 < h a \<Longrightarrow> \<exists>u. users s a = Some u \<and> user_ok u"
  using usm_invD(3,5) [of h s a] by (cases "users s a") (auto simp: user_inv_def)

lemma usm_inv_update:
  assumes s: "usm_inv h s" and u: "users s a = Some u" and "u_name u' = u_name u" and "u_freeing u' = u_freeing u"
    and "user_ok u'" and "u_ref_count u' - u_ref_count u = int j - int (h a)" and "u_freeing u \<Longrightarrow> 0 < j"
  shows "usm_inv (h(a := j)) (s\<lparr>users := (users s)(a \<mapsto> u')\<rparr>)"
proof (rule usm_invI)
  fix n b
  assume "(n, b) \<in> set (users_table (s\<lparr>users := (users s)(a \<mapsto> u')\<rparr>))"
  then show "\<exists>u. users (s\<lparr>users := (users s)(a \<mapsto> u')\<rparr>) b = Some u \<and> u_name u = n \<and> \<not> u_freeing u"
    using usm_invD(2) [OF s] u assms(3,4) by (cases "b = a") fastforce+
next
  fix b v
  assume "users (s\<lparr>users := (users s)(a \<mapsto> u')\<rparr>) b = Some v"
  then show "user_inv ((h(a := j)) b) (users_table (s\<lparr>users := (users s)(a \<mapsto> u')\<rparr>)) b v"
    using usm_invD(3) [OF s, of b v] usm_invD(3) [OF s u] assms(3-)
    by (cases "b = a"; cases "u_freeing u") (simp_all add: user_inv_def)
qed (use usm_invD [OF s] u in \<open>auto split: if_splits\<close>)

lemma usm_inv_lookup:
  "usm_inv h s \<Longrightarrow> ht_lookup id (users_table s) n = Some a \<longleftrightarrow> (n, a) \<in> set (users_table s)"
  using usm_invD(1) [of h s] by (auto dest!: ht_lookup_SomeD intro: ht_lookup_SomeI)

lemma get_user_ok [valid]:
  assumes "0 < h a"
  shows "valid (usm_inv h) (get_user a) (\<lambda>u s. usm_inv h s \<and> user_ok u) (\<lambda>_. False)"
proof (rule validI)
  fix s :: "'a usm_scheme"
  assume s: "usm_inv h s"
  from usm_inv_held [OF s assms] s
  show "case get_user a s of (Inr u, t) \<Rightarrow> usm_inv h t \<and> user_ok u | (Inl (Err e), t) \<Rightarrow> False | (Inl Fault, t) \<Rightarrow> False"
    by (auto simp: get_user_def)
qed

lemma set_user_ok [valid]:
  assumes "0 < h a" and "\<And>u. u_name (f u) = u_name u" and "\<And>u. u_freeing (f u) = u_freeing u"
    and "\<And>u. user_ok u \<Longrightarrow> user_ok (f u)" and "\<And>u. u_ref_count (f u) = u_ref_count u"
  shows "valid (usm_inv h) (set_user a f) (\<lambda>_. usm_inv h) (\<lambda>_. False)"
proof (rule validI)
  fix s :: "'a usm_scheme"
  assume s: "usm_inv h s"
  with assms(1) obtain u where u: "users s a = Some u" "user_ok u"
    by (auto dest: usm_inv_held)
  have "usm_inv (h(a := h a)) (s\<lparr>users := (users s)(a \<mapsto> f u)\<rparr>)"
    by (rule usm_inv_update [OF s u(1)]) (use assms u in auto)
  then show "case set_user a f s of (Inr x, t) \<Rightarrow> usm_inv h t | (Inl (Err e), t) \<Rightarrow> False | (Inl Fault, t) \<Rightarrow> False"
    using u by (simp add: set_user_def)
qed

lemma usm_lookup_user_ok:
  "valid (usm_inv h) (usm_lookup_user k)
     (\<lambda>r. case r of None \<Rightarrow> usm_inv h | Some a \<Rightarrow> usm_inv (h(a := Suc (h a)))) (\<lambda>_. False)"
proof (rule validI)
  fix s :: "'a usm_scheme"
  assume s: "usm_inv h s"
  show "case usm_lookup_user k s of (Inr r, t) \<Rightarrow> (case r of None \<Rightarrow> usm_inv h | Some a \<Rightarrow> usm_inv (h(a := Suc (h a)))) t
      | (Inl (Err e), t) \<Rightarrow> False | (Inl Fault, t) \<Rightarrow> False"
  proof (cases "case k of None \<Rightarrow> None | Some n \<Rightarrow> ht_lookup id (users_table s) n")
    case None
    with s show ?thesis
      by (cases k) (simp_all add: usm_lookup_user_def act_simps bnd_def)
  next
    case (Some a)
    then obtain n where n: "k = Some n" "ht_lookup id (users_table s) n = Some a"
      by (cases k) auto
    with s obtain u where u: "users s a = Some u" "\<not> u_freeing u" "user_ok u" "u_ref_count u = int (h a) + 1"
      by (meson usm_inv_lookup usm_inv_table)
    have "usm_inv (h(a := Suc (h a))) (s\<lparr>users := (users s)(a \<mapsto> u_ref_count_update (\<lambda>n. n + 1) u)\<rparr>)"
      by (rule usm_inv_update [OF s u(1)]) (use u in \<open>auto simp: user_ok_def\<close>)
    with n u show ?thesis
      by (simp add: usm_lookup_user_def get_ksmbd_user_def get_user_def set_user_def act_simps bnd_def sq_def)
  qed
qed

lemma usm_inv_kill:
  assumes s: "usm_inv h s" and u: "users s a = Some u" and "u_freeing u" and "h a = 1"
  shows "usm_inv (h(a := 0)) (s\<lparr>users := (users s)(a := None)\<rparr>)"
proof (rule usm_invI)
  fix n b
  assume "(n, b) \<in> set (users_table (s\<lparr>users := (users s)(a := None)\<rparr>))"
  then show "\<exists>u. users (s\<lparr>users := (users s)(a := None)\<rparr>) b = Some u \<and> u_name u = n \<and> \<not> u_freeing u"
    using usm_invD(2) [OF s] u assms(3) by (cases "b = a") fastforce+
qed (use usm_invD [OF s] u in \<open>auto split: if_splits\<close>)

lemma put_ksmbd_user_ok:
  assumes "0 < h a"
  shows "valid (usm_inv h) (put_ksmbd_user (Some a)) (\<lambda>_. usm_inv (h(a := h a - 1))) (\<lambda>_. False)"
proof (rule validI)
  fix s :: "'a usm_scheme"
  assume s: "usm_inv h s"
  with assms obtain u where u: "users s a = Some u" "user_ok u"
    by (auto dest: usm_inv_held)
  let ?u = "u_ref_count_update (\<lambda>n. n - 1) u"
  have r: "u_ref_count u = (if u_freeing u then int (h a) else int (h a) + 1)"
    using usm_invD(3) [OF s u(1)] by (simp add: user_inv_def split: if_splits)
  show "case put_ksmbd_user (Some a) s of (Inr x, t) \<Rightarrow> usm_inv (h(a := h a - 1)) t
      | (Inl (Err e), t) \<Rightarrow> False | (Inl Fault, t) \<Rightarrow> False"
  proof (cases "u_freeing u \<and> h a = 1")
    case True
    with usm_inv_kill [OF s u(1)] u r show ?thesis
      by (simp add: put_ksmbd_user_def set_user_def get_user_def usm_remove_user_def kill_ksmbd_user_def ignore_def
          act_simps bnd_def sq_def)
  next
    case False
    have "usm_inv (h(a := h a - 1)) (s\<lparr>users := (users s)(a \<mapsto> ?u)\<rparr>)"
      by (rule usm_inv_update [OF s u(1)]) (use u assms False in \<open>auto simp: user_ok_def\<close>)
    moreover have "u_ref_count ?u \<noteq> 0"
      using False r assms by auto
    ultimately show ?thesis
      using u by (simp add: put_ksmbd_user_def set_user_def get_user_def act_simps bnd_def sq_def)
  qed
qed

interpretation usr: refcounted usm_lookup_user put_ksmbd_user "usm_inv :: _ \<Rightarrow> 'x usm_scheme \<Rightarrow> bool"
  by (unfold_locales, rule usm_lookup_user_ok, erule put_ksmbd_user_ok, simp add: put_ksmbd_user_def ret_def)

section \<open>Every operation keeps the invariant\<close>

text \<open>The Base64 decoder always delivers a buffer, and passwords are shorter than 2 GiB.\<close>

definition decoder_ok :: "sysdb \<Rightarrow> bool" where
  "decoder_ok sys \<longleftrightarrow> (\<forall>b. \<exists>p. g_base64_decode sys b = Some p \<and> length p < 2 ^ 31)"

lemma drop_invalid_gid_bounds:
  "ngroups \<le> length sgid \<Longrightarrow> drop_invalid_gid i ngroups sgid = (n, xs) \<Longrightarrow> n \<le> ngroups \<and> length xs = length sgid"
proof (induction i ngroups sgid rule: drop_invalid_gid.induct)
  case (1 i ngroups sgid)
  show ?case
  proof (cases "i < ngroups \<and> sgid ! i = KSMBD_SHARE_INVALID_GID")
    case True
    then have l: "length (overwrite i (slice (i + 1) (ngroups - i - 1) sgid) sgid) = length sgid"
      using 1(3) by (intro length_overwrite) simp
    from 1(1) True 1(3,4) l show ?thesis
      by (simp add: drop_invalid_gid.simps [of i ngroups sgid]) linarith
  next
    case False
    with 1(2-4) show ?thesis
      by (auto simp: drop_invalid_gid.simps [of i ngroups sgid] split: if_splits)
  qed
qed

lemma new_ksmbd_user_ok:
  assumes "decoder_ok sys"
  shows "\<exists>u. new_ksmbd_user sys name pwd = Some u \<and> user_ok u \<and> u_name u = name \<and> \<not> u_freeing u
    \<and> u_ref_count u = 1 \<and> u_flags u = 0 \<and> g_base64_decode sys pwd = Some (u_pass u) \<and> u_pass_sz u = int (length (u_pass u))"
proof -
  obtain p where p: "g_base64_decode sys pwd = Some p" "length p < 2 ^ 31"
    using assms by (auto simp: decoder_ok_def)
  obtain n xs where d: "drop_invalid_gid 0 (length (getgrouplist sys name KSMBD_SHARE_INVALID_GID))
      (getgrouplist sys name KSMBD_SHARE_INVALID_GID) = (n, xs)" by fastforce
  have "n \<le> length xs"
    using drop_invalid_gid_bounds [OF _ d] by simp
  with p d show ?thesis
    by (auto simp: new_ksmbd_user_def user_ok_def Let_def split: option.split)
qed

lemma usm_inv_insert:
  assumes s: "usm_inv h s" and "ht_lookup id (users_table s) (u_name u) = None" and "user_ok u"
    and "\<not> u_freeing u" and "u_ref_count u = 1"
  shows "usm_inv h (s\<lparr>users := (users s)(users_next s \<mapsto> u), users_next := Suc (users_next s),
     users_table := users_table s @ [(u_name u, users_next s)]\<rparr>)"
proof -
  have n: "users s (users_next s) = None"
    using usm_invD(4) [OF s, of "users_next s"] by (cases "users s (users_next s)") auto
  have k: "h (users_next s) = 0" by (rule usm_invD(5) [OF s n])
  have t: "b \<noteq> users_next s" if "(m, b) \<in> set (users_table s)" for m b
    using usm_invD(2) [OF s that] n by auto
  have ok: "ht_ok id (users_table s @ [(u_name u, users_next s)])"
    using ht_ok_insert [OF usm_invD(1) [OF s]] ht_insert_new [OF assms(2)] by (metis snd_conv)
  show ?thesis
    by (rule usm_invI)
      (use ok assms(3-) k t usm_invD(2-5) [OF s] in \<open>auto simp: user_inv_def less_Suc_eq split: if_splits\<close>)
qed

lemma usm_add_new_user_eq:
  assumes u: "new_ksmbd_user sys name pwd = Some u" and n: "u_name u = name" and s: "usm_inv h s"
  shows "usm_add_new_user sys name pwd s =
    (if ht_lookup id (users_table s) name = None
     then (Inr (), s\<lparr>users := (users s)(users_next s \<mapsto> u), users_next := Suc (users_next s),
       users_table := users_table s @ [(name, users_next s)]\<rparr>)
     else (Inr (), s\<lparr>users_next := Suc (users_next s)\<rparr>))"
proof -
  have "users s (users_next s) = None"
    using usm_invD(4) [OF s, of "users_next s"] by (cases "users s (users_next s)") auto
  then have "(users s)(users_next s := None) = users s" by (simp add: fun_upd_idem)
  then show ?thesis
    using u n by (simp add: usm_add_new_user_def act_simps sq_def bnd_def kill_ksmbd_user_def get_user_def
        ht_insert_new split: prod.split)
qed

lemma usm_add_new_user_valid:
  assumes "decoder_ok sys"
  shows "valid (usm_inv h) (usm_add_new_user sys name pwd) (\<lambda>_. usm_inv h) (\<lambda>_. False)"
proof (rule validI)
  fix s :: "'a usm_scheme"
  assume s: "usm_inv h s"
  obtain u where u: "new_ksmbd_user sys name pwd = Some u" "user_ok u" "u_name u = name" "\<not> u_freeing u" "u_ref_count u = 1"
    using new_ksmbd_user_ok [OF assms] by blast
  have "usm_inv h (s\<lparr>users_next := Suc (users_next s)\<rparr>)"
    by (rule usm_invI) (use usm_invD [OF s] in \<open>auto simp: less_Suc_eq\<close>)
  then show "case usm_add_new_user sys name pwd s of (Inr x, t) \<Rightarrow> usm_inv h t | (Inl (Err e), t) \<Rightarrow> False | (Inl Fault, t) \<Rightarrow> False"
    using usm_inv_insert [OF s _ u(2,4,5)] u(3) by (simp add: usm_add_new_user_eq [OF u(1,3) s])
qed


lemma usm_add_guest_account_valid:
  assumes "decoder_ok sys"
  shows "valid (usm_inv h) (usm_add_guest_account sys name) (\<lambda>_. usm_inv h) (usm_inv h)"
  unfolding usm_add_guest_account_def
  by (rule valid_sq [OF valid_total [OF usm_add_new_user_valid [OF assms]]], rule usr.borrow)
    (auto intro!: valid_ret valid_fail valid_total [OF set_user_ok] simp: user_ok_def)

text \<open>The response frames as the worker allocates them.\<close>

definition login_frame_ok :: "ksmbd_login_response \<Rightarrow> bool" where
  "login_frame_ok resp \<longleftrightarrow> length (lres_account resp) = KSMBD_REQ_MAX_ACCOUNT_NAME_SZ
     \<and> length (lres_hash resp) = KSMBD_REQ_MAX_HASH_SZ"

lemma copy_passhash_cases:
  assumes "user_ok u" and "length hash = 18"
  shows "usm_copy_user_passhash u hash 18 =
    (if test_user_flag u KSMBD_USER_FLAG_GUEST_ACCOUNT then Inr (0, hash)
     else if 0 \<le> u_pass_sz u \<and> u_pass_sz u \<le> 18
     then Inr (u_pass_sz u, overwrite 0 (take (nat (u_pass_sz u)) (u_pass u)) hash)
     else Inl (Err ENOSPC))"
proof (cases "0 \<le> u_pass_sz u")
  case True
  then have "u_pass_sz u mod 2 ^ 64 = u_pass_sz u"
    using assms(1) by (intro mod_pos_pos_trivial) (auto simp: user_ok_def)
  with True assms show ?thesis by (auto simp: usm_copy_user_passhash_def user_ok_def Let_def)
next
  case False
  then have "(u_pass_sz u + 2 ^ 64) mod 2 ^ 64 = u_pass_sz u + 2 ^ 64"
    using assms(1) by (intro mod_pos_pos_trivial) (auto simp: user_ok_def)
  then have "u_pass_sz u mod 2 ^ 64 = u_pass_sz u + 2 ^ 64"
    by (simp only: mod_add_self2)
  with False assms show ?thesis by (auto simp: usm_copy_user_passhash_def user_ok_def Let_def)
qed

lemma handle_login_total:
  assumes "user_ok u" and "login_frame_ok resp"
  shows "\<exists>r. handle_login resp u = Inr r"
  using assms
  by (auto simp: handle_login_def Let_def login_frame_ok_def KSMBD_REQ_MAX_HASH_SZ_def KSMBD_REQ_MAX_ACCOUNT_NAME_SZ_def
      copy_passhash_cases usm_copy_user_account_def)

lemma handle_login_request_valid:
  assumes "0 < h a" and "login_frame_ok resp"
  shows "valid (usm_inv h) (handle_login_request resp a) (\<lambda>_. usm_inv h) (\<lambda>_. False)"
  unfolding handle_login_request_def
proof (rule valid_bnd [OF get_user_ok [of h, OF assms(1)]])
  fix u
  show "valid (\<lambda>s. usm_inv h s \<and> user_ok u) (case handle_login resp u of Inl e \<Rightarrow> fail e | Inr resp \<Rightarrow> ret resp)
      (\<lambda>_. usm_inv h) (\<lambda>_. False)"
  proof (cases "user_ok u")
    case True
    with handle_login_total [OF _ assms(2)] show ?thesis by (fastforce intro: valid_ret)
  qed (simp add: valid_def)
qed

lemma serve_login_valid:
  assumes "login_frame_ok r" and "valid (usm_inv h) other (\<lambda>_. usm_inv h) (\<lambda>_. False)"
  shows "valid (usm_inv h) (bnd (usm_lookup_user k) (\<lambda>p. case p of None \<Rightarrow> other
      | Some a \<Rightarrow> bnd (handle_login_request r a) (\<lambda>resp. sq (put_ksmbd_user (Some a)) (ret (None, resp)))))
      (\<lambda>_. usm_inv h) (\<lambda>_. False)"
  by (rule usr.borrow [OF handle_login_request_valid _ assms(2)]) (auto intro: valid_ret assms(1))

lemma login_no_user_valid:
  assumes "login_frame_ok resp"
  shows "valid (usm_inv h :: 'x usm_scheme \<Rightarrow> bool) (login_no_user nul ign resp) (\<lambda>_. usm_inv h) (\<lambda>_. False)"
proof -
  let ?r = "resp\<lparr>lres_status := ucast KSMBD_USER_FLAG_BAD_USER\<rparr>"
  have r: "login_frame_ok ?r"
    using assms by (simp add: login_frame_ok_def)
  have g: "valid (usm_inv h :: 'x usm_scheme \<Rightarrow> bool) (ret (None :: errno option, ?r)) (\<lambda>_. usm_inv h) (\<lambda>_. False)"
    by (rule valid_ret)
  have step: "valid (usm_inv h :: 'x usm_scheme \<Rightarrow> bool) (if \<not> nul \<and> (ign \<or> map_to_guest gc = KSMBD_CONF_MAP_TO_GUEST_NEVER)
     then ret (None :: errno option, ?r)
     else bnd (if nul \<or> map_to_guest gc = KSMBD_CONF_MAP_TO_GUEST_BAD_USER
               then usm_lookup_user (gc_guest_account gc) else ret None) (\<lambda>p.
     case p of None \<Rightarrow> ret (None :: errno option, ?r)
     | Some a \<Rightarrow> bnd (handle_login_request ?r a) (\<lambda>resp. sq (put_ksmbd_user (Some a)) (ret (None, resp)))))
     (\<lambda>_. usm_inv h) (\<lambda>_. False)" for gc
    using g serve_login_valid [OF r g, of "gc_guest_account gc"] by (simp add: bnd_if)
  show ?thesis
    unfolding login_no_user_def Let_def
    by (rule valid_bnd, rule valid_reads [where Q = "\<lambda>_. usm_inv h"], assumption, rule step)
qed

lemma usm_handle_login_valid:
  assumes "login_frame_ok resp"
  shows "valid (usm_inv h :: 'x usm_scheme \<Rightarrow> bool) (usm_handle_login_request req resp) (\<lambda>_. usm_inv h) (\<lambda>_. False)"
proof -
  note n = login_no_user_valid [OF assms, where 'x = 'x]
  show ?thesis
    using n serve_login_valid [OF assms n]
    by (simp add: usm_handle_login_request_def Let_def bnd_if valid_ret)
qed

lemma usm_handle_login_ext_valid:
  assumes "max_ngroups \<le> int (length (lext_payload resp))"
  shows "valid (usm_inv h) (usm_handle_login_request_ext req resp) (\<lambda>_. usm_inv h) (\<lambda>_. False)"
proof -
  have "\<exists>r. handle_login_ext (resp\<lparr>lext_ngroups := 0\<rparr>) u = Inr r" if "user_ok u" for u
    using that assms by (auto simp: handle_login_ext_def Let_def user_ok_def)
  then have "valid (\<lambda>s. usm_inv g s \<and> user_ok u)
      (case handle_login_ext (resp\<lparr>lext_ngroups := 0\<rparr>) u of Inl e \<Rightarrow> fail e | Inr r \<Rightarrow> ret r) (\<lambda>_. usm_inv g) (\<lambda>_. False)" for u g
    by (cases "user_ok u") (fastforce intro: valid_ret, simp add: valid_def)
  then show ?thesis
    unfolding usm_handle_login_request_ext_def Let_def
    by (auto intro!: valid_if valid_ret usr.borrow valid_bnd [OF get_user_ok])
qed

lemma usm_handle_logout_valid:
  "valid (usm_inv h) (usm_handle_logout_request req) (\<lambda>_. usm_inv h) (\<lambda>_. False)"
  unfolding usm_handle_logout_request_def
  by (intro valid_if valid_ret usr.borrow set_user_ok) (simp_all add: count_logout_def user_ok_def)


text \<open>One round of \<open>usm_remove_all_users\<close>: the head of the table goes, its references stay.\<close>

lemma usm_remove_head:
  assumes s: "usm_inv h s" and t: "users_table s = (n, a) # t"
  shows "\<exists>s'. usm_remove_entry (n, a) s = (Inr (), s') \<and> usm_inv h s' \<and> users_table s' = t"
proof -
  obtain u where u: "users s a = Some u" "u_name u = n" "\<not> u_freeing u" "user_ok u" "u_ref_count u = int (h a) + 1"
    using usm_inv_table [OF s, of n a] t by auto
  have d: "n \<notin> fst ` set t" "ht_ok id t"
    using usm_invD(1) [OF s] t by (auto simp: ht_ok_def)
  then have rm: "snd (ht_remove id n ((n, a) # t)) = t"
    by (auto simp: ht_remove_def filter_id_conv)
  have other: "users s b \<noteq> Some u' \<or> b \<noteq> a" if "(m, b) \<in> set t" for m b u'
    using usm_invD(2) [OF s, of m b] that t u d by force
  let ?u = "u_ref_count_update (\<lambda>n. n - 1) (u\<lparr>u_freeing := True\<rparr>)"
  let ?s = "s\<lparr>users := (users s)(a := if h a = 0 then None else Some ?u), users_table := t\<rparr>"
  have "usm_remove_entry (n, a) s = (Inr (), ?s)"
    using u t rm by (simp add: usm_remove_entry_def sq_def bnd_def set_user_def put_ksmbd_user_def get_user_def
        usm_remove_user_def kill_ksmbd_user_def ignore_def act_simps)
  moreover have "usm_inv h ?s"
  proof (rule usm_invI)
    fix m b assume "(m, b) \<in> set (users_table ?s)"
    then have m: "(m, b) \<in> set t" by simp
    with usm_invD(2) [OF s, of m b] t other [OF m, of u] u
    show "\<exists>u. users ?s b = Some u \<and> u_name u = m \<and> \<not> u_freeing u" by auto
  next
    fix b v assume v: "users ?s b = Some v"
    show "user_inv (h b) (users_table ?s) b v"
      using v u usm_invD(3) [OF s, of b v] t by (auto simp: user_inv_def user_ok_def split: if_splits)
  qed (use usm_invD(4,5) [OF s] u d in \<open>auto split: if_splits\<close>)
  ultimately show ?thesis by auto
qed

lemma usm_remove_all_users_valid:
  "valid (usm_inv h) usm_remove_all_users (\<lambda>_ s. usm_inv h s \<and> users_table s = []) (\<lambda>_. False)"
proof -
  have "\<exists>s'. each usm_remove_entry t s = (Inr (), s') \<and> usm_inv h s' \<and> users_table s' = []"
    if "usm_inv h s" and "users_table s = t" for t and s :: "'a usm_scheme"
    using that
  proof (induction t arbitrary: s)
    case (Cons p t)
    obtain n a where p: "p = (n, a)" by (cases p)
    with usm_remove_head [OF Cons(2), of n a t] Cons(3)
    obtain s' where "usm_remove_entry p s = (Inr (), s')" "usm_inv h s'" "users_table s' = t" by auto
    with Cons(1) [of s'] show ?case by simp
  qed (simp add: ret_def)
  then show ?thesis
    by (fastforce simp: valid_def usm_remove_all_users_def bnd_def reads_def)
qed

section \<open>What a lookup and a put do to a known user\<close>

lemma usm_lookup_known:
  assumes "usm_inv h s" and "(n, a) \<in> set (users_table s)" and "users s a = Some u"
  shows "usm_lookup_user (Some n) s =
    (Inr (Some a), s\<lparr>users := (users s)(a \<mapsto> u_ref_count_update (\<lambda>n. n + 1) u)\<rparr>)"
proof -
  have "ht_lookup id (users_table s) n = Some a" and "u_ref_count u \<noteq> 0"
    using assms usm_inv_lookup [OF assms(1)] usm_inv_table [OF assms(1,2)] by auto
  with assms(3) show ?thesis
    by (simp add: usm_lookup_user_def get_ksmbd_user_def get_user_def set_user_def act_simps bnd_def sq_def)
qed

lemma usm_lookup_unknown: "n \<notin> fst ` set (users_table s) \<Longrightarrow> usm_lookup_user (Some n) s = (Inr None, s)"
  using ht_lookup_None [of id "users_table s" n] by (simp add: usm_lookup_user_def act_simps bnd_def image_image)

lemma put_known:
  assumes "users s a = Some u" and "u_ref_count u > 1"
  shows "put_ksmbd_user (Some a) s = (Inr (), s\<lparr>users := (users s)(a \<mapsto> u_ref_count_update (\<lambda>n. n - 1) u)\<rparr>)"
  using assms by (simp add: put_ksmbd_user_def set_user_def get_user_def act_simps bnd_def sq_def)

lemma user_ref_back [simp]:
  "u_ref_count_update (\<lambda>n. n - 1) (u_ref_count_update (\<lambda>n. n + 1) u) = u"
  "u_ref_count_update (\<lambda>n. n - 1) (u_failed_login_count_update f (u_ref_count_update (\<lambda>n. n + 1) u)) =
     u_failed_login_count_update f u"
  by (cases u; simp)+

text \<open>A handler that only reads the user leaves the state as it was.\<close>

lemma serve_login_known:
  assumes s: "usm_inv h s" and a: "(n, a) \<in> set (users_table s)" and u: "users s a = Some u"
    and r: "login_frame_ok resp"
  shows "bnd (usm_lookup_user (Some n)) (\<lambda>p. case p of None \<Rightarrow> other
      | Some a \<Rightarrow> bnd (handle_login_request resp a) (\<lambda>resp. sq (put_ksmbd_user (Some a)) (ret (None, resp)))) s =
    (Inr (None, projr (handle_login resp u)), s)"
proof -
  let ?s = "s\<lparr>users := (users s)(a \<mapsto> u_ref_count_update (\<lambda>n. n + 1) u)\<rparr>"
  have k: "user_ok u" "0 < u_ref_count u"
    using usm_inv_table [OF s a] u by auto
  have same: "handle_login resp (u_ref_count_update (\<lambda>n. n + 1) u) = handle_login resp u"
    by (simp add: handle_login_def usm_copy_user_passhash_def usm_copy_user_account_def test_user_flag_def Let_def)
  obtain r where r: "handle_login resp u = Inr r"
    using handle_login_total [OF k(1) r] by blast
  have "put_ksmbd_user (Some a) ?s = (Inr (), s)"
    using put_known [of ?s a "u_ref_count_update (\<lambda>n. n + 1) u"] k u by (simp add: fun_upd_idem)
  with usm_lookup_known [OF s a u] same r show ?thesis
    by (simp add: handle_login_request_def get_user_def act_simps bnd_def sq_def)
qed


lemma overwrite_shift:
  assumes "take n xs = pre @ y # ys" and "n \<le> length xs"
  shows "take (n - 1) (overwrite (length pre) (slice (length pre + 1) (n - length pre - 1) xs) xs) = pre @ ys"
proof -
  have n: "n = length pre + Suc (length ys)"
    using assms by (metis length_append length_Cons length_take min.absorb2)
  have "slice (length pre + 1) (n - length pre - 1) xs = drop (length pre + 1) (take n xs)"
    by (simp add: slice_def drop_take)
  also have "\<dots> = ys"
    using assms by simp
  finally have s: "slice (length pre + 1) (n - length pre - 1) xs = ys" .
  have "take (length pre) xs = take (length pre) (take n xs)"
    using n by (simp add: min_def)
  also have "\<dots> = pre"
    using assms by simp
  finally show ?thesis
    unfolding s using n by (simp add: overwrite_def)
qed

lemma drop_invalid_gid_filter:
  assumes "take n xs = pre @ ys" and "n \<le> length xs" and "i = length pre"
    and "successively (\<lambda>a b. a \<noteq> KSMBD_SHARE_INVALID_GID \<or> b \<noteq> KSMBD_SHARE_INVALID_GID) ys"
  shows "\<exists>m zs. drop_invalid_gid i n xs = (m, zs)
    \<and> take m zs = pre @ filter (\<lambda>g. g \<noteq> KSMBD_SHARE_INVALID_GID) ys"
  using assms
proof (induction "length ys" arbitrary: i n xs pre ys rule: less_induct)
  case less
  have n: "n = length pre + length ys"
    using less(2,3) by (metis length_append length_take min.absorb2)
  show ?case
  proof (cases ys)
    case Nil
    with less n show ?thesis by (simp add: drop_invalid_gid.simps [of "length pre"])
  next
    case (Cons y zs)
    have y: "xs ! i = y"
      using less(2,4) Cons n by (metis length_append length_Cons less_add_Suc1 add_Suc_right nth_append_length nth_take)
    have sz: "successively (\<lambda>a b. a \<noteq> KSMBD_SHARE_INVALID_GID \<or> b \<noteq> KSMBD_SHARE_INVALID_GID) zs"
      using less(5) Cons by (cases zs) auto
    show ?thesis
    proof (cases "y = KSMBD_SHARE_INVALID_GID")
      case False
      from less(1) [of zs n xs "pre @ [y]" "i + 1"] less(2-4) Cons sz
      have "\<exists>m ws. drop_invalid_gid (i + 1) n xs = (m, ws)
          \<and> take m ws = (pre @ [y]) @ filter (\<lambda>g. g \<noteq> KSMBD_SHARE_INVALID_GID) zs"
        by simp
      with False y n Cons less(4) show ?thesis
        by (subst drop_invalid_gid.simps) simp
    next
      case True
      let ?xs = "overwrite i (slice (i + 1) (n - i - 1) xs) xs"
      have step: "drop_invalid_gid i n xs = drop_invalid_gid (i + 1) (n - 1) ?xs"
        using True y n Cons by (subst drop_invalid_gid.simps) (simp add: less(4))
      have t: "take (n - 1) ?xs = pre @ zs"
        using overwrite_shift [of n xs pre y zs] less(2-4) Cons by simp
      have l: "n - 1 \<le> length ?xs"
        using less(3) n Cons less(4) by (subst length_overwrite) auto
      show ?thesis
      proof (cases zs)
        case Nil
        with step t n Cons True less(4) show ?thesis
          by (simp add: drop_invalid_gid.simps [of "i + 1"] drop_invalid_gid.simps [of "Suc (length pre)"])
      next
        case (Cons z ws)
        then have z: "z \<noteq> KSMBD_SHARE_INVALID_GID"
          using less(5) \<open>ys = y # zs\<close> True by (simp add: successively_Cons)
        from less(1) [of ws "n - 1" ?xs "pre @ [z]" "i + 1"] t l Cons less(4) sz \<open>ys = y # zs\<close>
        have "\<exists>m vs. drop_invalid_gid (i + 1) (n - 1) ?xs = (m, vs)
          \<and> take m vs = (pre @ [z]) @ filter (\<lambda>g. g \<noteq> KSMBD_SHARE_INVALID_GID) ws"
          by (cases ws) simp_all
        with step z Cons True \<open>ys = y # zs\<close> show ?thesis by simp
      qed
    qed
  qed
qed

lemma usm_logout_known:
  assumes s: "usm_inv h s" and a: "(c_str (loreq_account req), a) \<in> set (users_table s)" and u: "users s a = Some u"
    and v: "usm_is_valid_ipc_account (loreq_account req)"
  shows "usm_handle_logout_request req s =
    (Inr None, s\<lparr>users := (users s)(a \<mapsto> count_logout (loreq_account_flags req) u)\<rparr>)"
proof -
  have k: "0 < u_ref_count u"
    using usm_inv_table [OF s a] u by auto
  let ?u = "count_logout (loreq_account_flags req) (u_ref_count_update (\<lambda>n. n + 1) u)"
  have "u_ref_count_update (\<lambda>n. n - 1) ?u = count_logout (loreq_account_flags req) u" and "u_ref_count ?u > 1"
    using k by (cases u; simp add: count_logout_def)+
  with usm_lookup_known [OF s a u] v show ?thesis
    by (simp add: usm_handle_logout_request_def set_user_def put_known act_simps bnd_def sq_def)
qed

lemma logout_counts:
  assumes "usm_inv h s" and "(c_str (loreq_account req), a) \<in> set (users_table s)" and "users s a = Some u"
    and "usm_is_valid_ipc_account (loreq_account req)"
    and bad: "loreq_account_flags req AND KSMBD_USER_FLAG_BAD_PASSWORD \<noteq> 0"
    and "u_failed_login_count u = word_of_nat (min k 10)"
    and "test_user_flag u KSMBD_USER_FLAG_DELAY_SESSION = (10 < k)"
  shows "\<exists>t v. times n (usm_handle_logout_request req) s = (Inr (replicate n None), t) \<and> usm_inv h t
    \<and> users t a = Some v \<and> u_failed_login_count v = word_of_nat (min (k + n) 10)
    \<and> test_user_flag v KSMBD_USER_FLAG_DELAY_SESSION = (10 < k + n)"
  using assms
proof (induction n arbitrary: k s u)
  case 0
  then show ?case by (simp add: ret_def)
next
  case (Suc n)
  let ?v = "count_logout (loreq_account_flags req) u"
  let ?s = "s\<lparr>users := (users s)(a \<mapsto> ?v)\<rparr>"
  have l: "usm_handle_logout_request req s = (Inr None, ?s)"
    by (rule usm_logout_known [OF Suc(2-5)])
  have i: "usm_inv h ?s"
    by (rule valid_InrD [OF usm_handle_logout_valid Suc(2) l])
  have f: "u_failed_login_count ?v = word_of_nat (min (Suc k) 10)"
    "test_user_flag ?v KSMBD_USER_FLAG_DELAY_SESSION = (10 < Suc k)"
  proof -
    have d: "(u_flags u OR KSMBD_USER_FLAG_DELAY_SESSION) AND KSMBD_USER_FLAG_DELAY_SESSION = KSMBD_USER_FLAG_DELAY_SESSION"
      by (simp add: and.commute [of _ KSMBD_USER_FLAG_DELAY_SESSION])
    have "(word_of_nat (min k 10) < (10 :: u32)) = (k < 10)"
      by (simp add: word_less_nat_alt unat_of_nat min_def)
    then show "u_failed_login_count ?v = word_of_nat (min (Suc k) 10)"
      "test_user_flag ?v KSMBD_USER_FLAG_DELAY_SESSION = (10 < Suc k)"
      using Suc(6-8) d by (auto simp: count_logout_def test_user_flag_def min_def KSMBD_USER_FLAG_DELAY_SESSION_def)
  qed
  from Suc(1) [OF i, of ?v "Suc k"] Suc(3,5,6) f
  have "\<exists>t v. times n (usm_handle_logout_request req) ?s = (Inr (replicate n None), t) \<and> usm_inv h t
    \<and> users t a = Some v \<and> u_failed_login_count v = word_of_nat (min (Suc k + n) 10)
    \<and> test_user_flag v KSMBD_USER_FLAG_DELAY_SESSION = (10 < Suc k + n)" by simp
  then obtain t v where "times n (usm_handle_logout_request req) ?s = (Inr (replicate n None), t)" "usm_inv h t"
    "users t a = Some v" "u_failed_login_count v = word_of_nat (min (Suc k + n) 10)"
    "test_user_flag v KSMBD_USER_FLAG_DELAY_SESSION = (10 < Suc k + n)" by blast
  then show ?case
    using l by (intro exI [of _ t] exI [of _ v]) (simp add: ret_def)
qed

section \<open>Properties of the users\<close>

text \<open>The zero-initialised \<open>global_conf\<close>, and a daemon that knows the user \<open>bob\<close> and the guest
  account \<open>n\<close>, for the concrete instances below.\<close>

definition global_conf_zero :: smbconf_global where
  "global_conf_zero = \<lparr>gc_flags = 0, map_to_guest = 0, gc_guest_account = None, server_string = None, work_group = None,
     netbios_name = None, server_min_protocol = None, server_max_protocol = None, root_dir = None, server_signing = 0,
     sessions_cap = 0, restrict_anon = 0, tcp_port = 0, ipc_timeout = 0, deadtime = 0, bind_interfaces_only = False,
     interfaces = None, file_max = 0, smb2_max_read = 0, smb2_max_write = 0, smb2_max_trans = 0, smb2_max_credits = 0,
     smbd_max_io_size = 0, gc_max_connections = 0, max_ip_connections = 0, share_fake_fscaps = 0, gen_subauth = [0, 0, 0],
     krb5_keytab_file = None, krb5_service_name = None, krb5_support = 0, fruit_model = None, max_worker_threads = 0,
     pwddb = None, smbconf = None, tcp_recv_timeout = 0, tcp_send_timeout = 0, quic_recv_timeout = 0,
     quic_send_timeout = 0, quic_handshake_delegate = False, quic_tls_cert = None, quic_tls_key = None,
     max_lock_count = 0, max_buffer_size = 0, session_timeout = 0, durable_handle_timeout = 0, max_inflight_req = 0,
     max_async_credits = 0, max_sessions = 0, smb1_max_mpx = 0\<rparr>"

definition bob :: ksmbd_user where
  "bob = \<lparr>u_name = [98, 111, 98], u_pass_b64 = [], u_pass = [1, 2, 3], u_pass_sz = 3, u_uid = 1000, u_gid = 100,
     u_ref_count = 1, u_flags = 0, u_freeing = False, u_failed_login_count = 0, u_ngroups = 1, u_sgid = [27, 0]\<rparr>"

definition nobody :: ksmbd_user where
  "nobody = bob\<lparr>u_name := [110], u_flags := KSMBD_USER_FLAG_GUEST_ACCOUNT, u_uid := 99, u_gid := 99\<rparr>"

definition usm_sample :: usm where
  "usm_sample = \<lparr>global_conf = global_conf_zero\<lparr>gc_guest_account := Some [110]\<rparr>,
     users_table = [([98, 111, 98], 0), ([110], 1)], users = [0 \<mapsto> bob, 1 \<mapsto> nobody], users_next = 2\<rparr>"

definition account_of :: "bytes \<Rightarrow> bytes" where
  "account_of n = n @ replicate (256 - length n) 0"

definition login_frame :: ksmbd_login_response where
  "login_frame = \<lparr>lres_handle = 0, lres_gid = 0, lres_uid = 0, lres_account = replicate 256 0, lres_status = 0,
     lres_hash_sz = 0, lres_hash = replicate 18 0\<rparr>"

lemma usm_sample_inv: "usm_inv (\<lambda>_. 0) usm_sample"
  by (rule usm_invI) (auto simp: usm_sample_def ht_ok_def bob_def nobody_def user_inv_def user_ok_def
      KSMBD_USER_FLAG_GUEST_ACCOUNT_def split: if_splits)

lemma login_frame_frame: "login_frame_ok login_frame"
  by (simp add: login_frame_ok_def login_frame_def KSMBD_REQ_MAX_ACCOUNT_NAME_SZ_def KSMBD_REQ_MAX_HASH_SZ_def)

lemma c_str_account_of: "0 \<notin> set n \<Longrightarrow> c_str (account_of n) = n"
  unfolding c_str_def account_of_def by (subst takeWhile_append2) (auto simp: takeWhile_replicate)

lemma takeWhile_take_min: "takeWhile P (take n xs) = take n (takeWhile P xs)"
  by (induction xs arbitrary: n) (auto simp: take_Cons split: nat.split)

lemma c_str_valid_length: "usm_is_valid_ipc_account raw \<Longrightarrow> length (c_str raw) < 256"
  by (auto simp: usm_is_valid_ipc_account_def strnlen_def c_str_def takeWhile_take_min KSMBD_REQ_MAX_ACCOUNT_NAME_SZ_def)

lemma valid_account_of: "0 \<notin> set n \<Longrightarrow> length n < 256 \<Longrightarrow> usm_is_valid_ipc_account (account_of n)"
  using c_str_account_of [of n]
  by (simp add: usm_is_valid_ipc_account_def strnlen_def KSMBD_REQ_MAX_ACCOUNT_NAME_SZ_def account_of_def)



text \<open>A lookup and a put of the same user balance: whoever looks a user up can put it back, and
  the state is then the one before.\<close>

theorem usm_lookup_put_balanced:
  assumes "usm_inv h s" and "(n, a) \<in> set (users_table s)"
  shows "\<exists>t. usm_lookup_user (Some n) s = (Inr (Some a), t) \<and> usm_inv (h(a := Suc (h a))) t
     \<and> put_ksmbd_user (Some a) t = (Inr (), s)"
proof -
  obtain u where u: "users s a = Some u" "0 < u_ref_count u"
    using usm_inv_table [OF assms] by auto
  let ?t = "s\<lparr>users := (users s)(a \<mapsto> u_ref_count_update (\<lambda>n. n + 1) u)\<rparr>"
  have l: "usm_lookup_user (Some n) s = (Inr (Some a), ?t)"
    by (rule usm_lookup_known [OF assms u(1)])
  then have "usm_inv (h(a := Suc (h a))) ?t"
    using valid_InrD [OF usm_lookup_user_ok assms(1)] by fastforce
  moreover have "put_ksmbd_user (Some a) ?t = (Inr (), s)"
    using put_known [of ?t a "u_ref_count_update (\<lambda>n. n + 1) u"] u by (simp add: fun_upd_idem)
  ultimately show ?thesis using l by blast
qed

theorem usm_lookup_put_balanced_witness:
  "\<exists>t. usm_lookup_user (Some [98, 111, 98]) usm_sample = (Inr (Some 0), t)
     \<and> put_ksmbd_user (Some 0) t = (Inr (), usm_sample)"
proof -
  have "([98, 111, 98], 0) \<in> set (users_table usm_sample)" by (simp add: usm_sample_def)
  from usm_lookup_put_balanced [OF usm_sample_inv this] show ?thesis by blast
qed

text \<open>C29: a login for a known account that is not a guest and whose hash fits the frame returns the
  user's ids, flags, name and password hash, and leaves the daemon's state as it was.\<close>

theorem usm_login_known_user:
  assumes "usm_inv h s" and "login_frame_ok resp" and "usm_is_valid_ipc_account (lreq_account req)"
    and "c_str (lreq_account req) = n" and "n \<noteq> []" and "(n, a) \<in> set (users_table s)" and "users s a = Some u"
    and "\<not> test_user_flag u KSMBD_USER_FLAG_GUEST_ACCOUNT" and "0 \<le> u_pass_sz u" and "u_pass_sz u \<le> 18"
  shows "usm_handle_login_request req resp s =
    (Inr (None, resp\<lparr>lres_gid := u_gid u, lres_uid := u_uid u,
       lres_status := (ucast (u_flags u) OR ucast KSMBD_USER_FLAG_OK)
         OR (if u_ngroups u \<noteq> 0 then ucast KSMBD_USER_FLAG_EXTENSION else 0),
       lres_hash := overwrite 0 (take (nat (u_pass_sz u)) (u_pass u)) (lres_hash resp),
       lres_hash_sz := word_of_int (u_pass_sz u),
       lres_account := overwrite 0 n (lres_account resp)\<rparr>), s)"
proof -
  have u: "user_ok u" "u_name u = n"
    using usm_inv_table [OF assms(1,6)] assms(7) by auto
  have len: "length n < 256"
    using c_str_valid_length [OF assms(3)] assms(4) by simp
  then have "handle_login resp u = Inr (resp\<lparr>lres_gid := u_gid u, lres_uid := u_uid u,
       lres_status := (ucast (u_flags u) OR ucast KSMBD_USER_FLAG_OK)
         OR (if u_ngroups u \<noteq> 0 then ucast KSMBD_USER_FLAG_EXTENSION else 0),
       lres_hash := overwrite 0 (take (nat (u_pass_sz u)) (u_pass u)) (lres_hash resp),
       lres_hash_sz := word_of_int (u_pass_sz u), lres_account := overwrite 0 n (lres_account resp)\<rparr>)"
    using assms(2,8-) u by (simp add: handle_login_def login_frame_ok_def copy_passhash_cases usm_copy_user_account_def
        KSMBD_REQ_MAX_HASH_SZ_def KSMBD_REQ_MAX_ACCOUNT_NAME_SZ_def Let_def)
  then show ?thesis
    using assms(3-5) by (simp add: usm_handle_login_request_def serve_login_known [OF assms(1,6,7,2)] Let_def)
qed


theorem usm_login_known_user_witness:
  "usm_handle_login_request \<lparr>lreq_handle = 7, lreq_account = account_of [98, 111, 98], lreq_flags = 0\<rparr> login_frame usm_sample =
    (Inr (None, login_frame\<lparr>lres_gid := 100, lres_uid := 1000, lres_status := 0x41,
       lres_hash := overwrite 0 [1, 2, 3] (replicate 18 0), lres_hash_sz := 3,
       lres_account := overwrite 0 [98, 111, 98] (replicate 256 0)\<rparr>), usm_sample)"
  using usm_login_known_user [OF usm_sample_inv login_frame_frame,
      of "\<lparr>lreq_handle = 7, lreq_account = account_of [98, 111, 98], lreq_flags = 0\<rparr>" "[98, 111, 98]" 0 bob]
  by (simp add: valid_account_of c_str_account_of usm_sample_def bob_def test_user_flag_def login_frame_def
      user_flag_defs)

text \<open>C30: a session without an account is served as the configured guest account, and a guest
  account discloses neither a password hash nor its name.\<close>

theorem usm_login_guest_discloses_nothing:
  assumes "usm_inv h s" and "login_frame_ok resp" and "c_str (lreq_account req) = []"
    and "gc_guest_account (global_conf s) = Some g" and "(g, a) \<in> set (users_table s)" and "users s a = Some u"
    and "test_user_flag u KSMBD_USER_FLAG_GUEST_ACCOUNT"
  shows "usm_handle_login_request req resp s =
    (Inr (None, resp\<lparr>lres_gid := u_gid u, lres_uid := u_uid u,
       lres_status := (ucast (u_flags u) OR ucast KSMBD_USER_FLAG_OK)
         OR (if u_ngroups u \<noteq> 0 then ucast KSMBD_USER_FLAG_EXTENSION else 0),
       lres_hash_sz := 0\<rparr>), s)"
proof -
  let ?r = "resp\<lparr>lres_status := ucast KSMBD_USER_FLAG_BAD_USER\<rparr>"
  have v: "usm_is_valid_ipc_account (lreq_account req)"
    using assms(3) by (simp add: usm_is_valid_ipc_account_def strnlen_def c_str_def takeWhile_take_min
        KSMBD_REQ_MAX_ACCOUNT_NAME_SZ_def)
  have r: "login_frame_ok ?r" using assms(2) by (simp add: login_frame_ok_def)
  have "handle_login ?r u = Inr (resp\<lparr>lres_gid := u_gid u, lres_uid := u_uid u,
       lres_status := (ucast (u_flags u) OR ucast KSMBD_USER_FLAG_OK)
         OR (if u_ngroups u \<noteq> 0 then ucast KSMBD_USER_FLAG_EXTENSION else 0), lres_hash_sz := 0\<rparr>)"
    using assms(7) by (simp add: handle_login_def usm_copy_user_passhash_def usm_copy_user_account_def Let_def)
  then show ?thesis
    using v assms(3,4)
    by (simp add: usm_handle_login_request_def login_no_user_def Let_def reads_def
        serve_login_known [OF assms(1,5,6) r])
qed

theorem usm_login_guest_discloses_nothing_witness:
  "usm_handle_login_request \<lparr>lreq_handle = 7, lreq_account = account_of [], lreq_flags = 0\<rparr> login_frame usm_sample =
    (Inr (None, login_frame\<lparr>lres_gid := 99, lres_uid := 99, lres_status := 0x51\<rparr>), usm_sample)"
  using usm_login_guest_discloses_nothing [OF usm_sample_inv login_frame_frame,
      of "\<lparr>lreq_handle = 7, lreq_account = account_of [], lreq_flags = 0\<rparr>" "[110]" 1 nobody]
  by (simp add: c_str_account_of usm_sample_def bob_def nobody_def test_user_flag_def login_frame_def user_flag_defs)

text \<open>C31: a login for an account that is not in the table is answered with \<open>BAD_USER\<close> and nothing
  else, when the request or the configuration forbids the mapping to the guest account.\<close>

theorem usm_login_unknown_user:
  assumes "usm_is_valid_ipc_account (lreq_account req)" and "c_str (lreq_account req) \<noteq> []"
    and "c_str (lreq_account req) \<notin> fst ` set (users_table s)"
    and "lreq_flags req AND KSMBD_LOGIN_FLAG_IGNORE_MAP_TO_GUEST \<noteq> 0
       \<or> map_to_guest (global_conf s) = KSMBD_CONF_MAP_TO_GUEST_NEVER"
  shows "usm_handle_login_request req resp s =
    (Inr (None, resp\<lparr>lres_status := ucast KSMBD_USER_FLAG_BAD_USER\<rparr>), s)"
  using assms
  by (auto simp: usm_handle_login_request_def login_no_user_def Let_def reads_def bnd_def usm_lookup_unknown ret_def)

theorem usm_login_unknown_user_witness:
  "usm_handle_login_request \<lparr>lreq_handle = 7, lreq_account = account_of [101], lreq_flags = 0\<rparr> login_frame usm_sample =
    (Inr (None, login_frame\<lparr>lres_status := 8\<rparr>), usm_sample)"
  using usm_login_unknown_user [of "\<lparr>lreq_handle = 7, lreq_account = account_of [101], lreq_flags = 0\<rparr>" usm_sample login_frame]
  by (simp add: c_str_account_of valid_account_of usm_sample_def user_flag_defs KSMBD_CONF_MAP_TO_GUEST_NEVER_def
      global_conf_zero_def)

text \<open>C32: failed passwords are counted up to ten, and the eleventh and every later one marks the
  user for delayed sessions; the counter never wraps.\<close>

theorem usm_logout_lockout:
  assumes "usm_inv h s" and "(c_str (loreq_account req), a) \<in> set (users_table s)" and "users s a = Some u"
    and "usm_is_valid_ipc_account (loreq_account req)"
    and "loreq_account_flags req AND KSMBD_USER_FLAG_BAD_PASSWORD \<noteq> 0"
    and "u_failed_login_count u = 0" and "\<not> test_user_flag u KSMBD_USER_FLAG_DELAY_SESSION"
  shows "\<exists>t v. times n (usm_handle_logout_request req) s = (Inr (replicate n None), t) \<and> usm_inv h t
    \<and> users t a = Some v \<and> unat (u_failed_login_count v) = min n 10
    \<and> test_user_flag v KSMBD_USER_FLAG_DELAY_SESSION = (10 < n)"
proof -
  have "unat (word_of_nat (min n 10) :: u32) = min n 10"
    by (simp add: unat_of_nat min_def)
  with logout_counts [OF assms(1-5), of 0 n] assms(6,7) show ?thesis by auto
qed

theorem usm_logout_lockout_witness:
  "\<exists>t v. times 11 (usm_handle_logout_request \<lparr>loreq_account = account_of [98, 111, 98], loreq_account_flags = 2\<rparr>) usm_sample =
       (Inr (replicate 11 None), t)
     \<and> users t 0 = Some v \<and> unat (u_failed_login_count v) = 10 \<and> test_user_flag v KSMBD_USER_FLAG_DELAY_SESSION"
proof -
  let ?q = "\<lparr>loreq_account = account_of [98, 111, 98], loreq_account_flags = 2\<rparr>"
  have "(c_str (loreq_account ?q), 0) \<in> set (users_table usm_sample)" and "users usm_sample 0 = Some bob"
    and "usm_is_valid_ipc_account (loreq_account ?q)"
    and "loreq_account_flags ?q AND KSMBD_USER_FLAG_BAD_PASSWORD \<noteq> 0"
    and "u_failed_login_count bob = 0" and "\<not> test_user_flag bob KSMBD_USER_FLAG_DELAY_SESSION"
    by (simp_all add: usm_sample_def c_str_account_of valid_account_of user_flag_defs bob_def test_user_flag_def)
  from usm_logout_lockout [OF usm_sample_inv this, of 11] show ?thesis by auto
qed


definition login_ext_frame :: ksmbd_login_response_ext where
  "login_ext_frame = \<lparr>lext_handle = 0, lext_ngroups = 0, lext_payload = replicate 990 0\<rparr>"


text \<open>C39: of a group list without two invalid group ids in a row, the loop of \<open>new_ksmbd_user\<close>
  keeps exactly the valid ones, in order.\<close>

theorem drop_invalid_gid_removes:
  assumes "successively (\<lambda>a b. a \<noteq> KSMBD_SHARE_INVALID_GID \<or> b \<noteq> KSMBD_SHARE_INVALID_GID) sgid"
  shows "\<exists>n xs. drop_invalid_gid 0 (length sgid) sgid = (n, xs)
     \<and> take n xs = filter (\<lambda>g. g \<noteq> KSMBD_SHARE_INVALID_GID) sgid"
  using drop_invalid_gid_filter [of "length sgid" sgid "[]" sgid 0] assms by simp

theorem drop_invalid_gid_removes_witness:
  "\<exists>n xs. drop_invalid_gid 0 3 [0xFFFF, 5, 0xFFFF] = (n, xs) \<and> take n xs = [5]"
  using drop_invalid_gid_removes [of "[0xFFFF, 5, 0xFFFF]"] by (simp add: KSMBD_SHARE_INVALID_GID_def numeral_3_eq_3)

text \<open>Of two invalid group ids in a row one stays in the user's group list, because the loop
  steps over the element that moved into the place of the removed one.\<close>

theorem drop_invalid_gid_skips:
  "\<exists>n xs. drop_invalid_gid 0 2 [KSMBD_SHARE_INVALID_GID, KSMBD_SHARE_INVALID_GID] = (n, xs)
     \<and> take n xs = [KSMBD_SHARE_INVALID_GID]"
  by (simp add: drop_invalid_gid.simps overwrite_def slice_def)

text \<open>C34: a user that was added is found under its name, and adding a name that is taken leaves
  the table and every user as they were.\<close>

theorem usm_add_new_user_lookup:
  assumes "usm_inv h s" and "decoder_ok sys"
  shows "\<exists>t. usm_add_new_user sys name pwd s = (Inr (), t)
    \<and> (name \<notin> fst ` set (users_table s) \<longrightarrow> users_table t = users_table s @ [(name, users_next s)]
         \<and> users t = (users s)(users_next s \<mapsto> the (new_ksmbd_user sys name pwd))
         \<and> fst (usm_lookup_user (Some name) t) = Inr (Some (users_next s)))
    \<and> (name \<in> fst ` set (users_table s) \<longrightarrow> users_table t = users_table s \<and> users t = users s)"
proof -
  obtain u where u: "new_ksmbd_user sys name pwd = Some u" "u_name u = name"
    using new_ksmbd_user_ok [OF assms(2)] by blast
  obtain t where t: "usm_add_new_user sys name pwd s = (Inr (), t)" "usm_inv h t"
    using valid_returns [OF usm_add_new_user_valid [OF assms(2)] assms(1), of name pwd] by auto
  have e: "t = (if ht_lookup id (users_table s) name = None
     then s\<lparr>users := (users s)(users_next s \<mapsto> u), users_next := Suc (users_next s),
       users_table := users_table s @ [(name, users_next s)]\<rparr>
     else s\<lparr>users_next := Suc (users_next s)\<rparr>)"
    using usm_add_new_user_eq [OF u assms(1)] t(1) by (auto split: if_splits)
  have l: "ht_lookup id (users_table s) name = None \<longleftrightarrow> name \<notin> fst ` set (users_table s)"
    by (simp add: ht_lookup_None image_image)
  have "fst (usm_lookup_user (Some name) t) = Inr (Some (users_next s))" if "name \<notin> fst ` set (users_table s)"
  proof -
    have "(name, users_next s) \<in> set (users_table t)" and "users t (users_next s) = Some u"
      using e l that by auto
    from usm_lookup_known [OF t(2) this] show ?thesis by simp
  qed
  then show ?thesis
    using e l t u by auto
qed

definition sample_sys :: sysdb where
  "sample_sys = \<lparr>getpwnam = \<lambda>_. None, getgrouplist = \<lambda>_ g. [g], getgrnam = \<lambda>_. None, getpwents = [],
     g_base64_decode = \<lambda>b. Some (take 18 b), g_utf8_validate = list_all (\<lambda>b. b < 128),
     g_utf8_normalize_nfd = \<lambda>_. None, g_utf8_casefold = \<lambda>b. b\<rparr>"

lemma sample_decoder: "decoder_ok sample_sys"
  by (simp add: decoder_ok_def sample_sys_def min_def)

theorem usm_add_new_user_lookup_witness:
  "\<exists>t. usm_add_new_user sample_sys [101] [65] usm_sample = (Inr (), t)
     \<and> fst (usm_lookup_user (Some [101]) t) = Inr (Some 2)"
  using usm_add_new_user_lookup [OF usm_sample_inv sample_decoder, of "[101]" "[65]"]
  by (auto simp: usm_sample_def)



end
