(* ===== verification/Config_Text.thy ===== *)
theory Config_Text
  imports Users Tools
begin

text \<open>
  The text level of \<open>src/tools/config_parser.c\<close>: numbers, keys and values, and what counts as a
  group line, a key-value line, a password entry, a sub-authority entry and a lock entry.  A line
  is a C string, a byte list without zero bytes.  \<open>strtoul\<close>, \<open>strtoull\<close> and \<open>strtol\<close> are those
  of the C library on a 64-bit machine; \<open>g_ascii_strcasecmp\<close> and \<open>g_strsplit_set\<close> are written out.
\<close>

section \<open>Numbers of the C library\<close>

definition is_space :: "byte \<Rightarrow> bool" where
  "is_space b \<longleftrightarrow> b = 0x20 \<or> (0x09 \<le> b \<and> b \<le> 0x0D)"

definition is_digit :: "byte \<Rightarrow> bool" where
  "is_digit b \<longleftrightarrow> 0x30 \<le> b \<and> b \<le> 0x39"

definition digit_val :: "byte \<Rightarrow> nat option" where
  "digit_val b =
    (if 0x30 \<le> b \<and> b \<le> 0x39 then Some (unat b - 0x30)
     else if 0x41 \<le> b \<and> b \<le> 0x5A then Some (unat b - 0x41 + 10)
     else if 0x61 \<le> b \<and> b \<le> 0x7A then Some (unat b - 0x61 + 10) else None)"

definition digit_in :: "nat \<Rightarrow> byte \<Rightarrow> bool" where
  "digit_in base b = (case digit_val b of None \<Rightarrow> False | Some d \<Rightarrow> d < base)"

definition digits_value :: "nat \<Rightarrow> bytes \<Rightarrow> nat" where
  "digits_value base ds = foldl (\<lambda>n b. n * base + the (digit_val b)) 0 ds"

text \<open>The subject sequence: a sign, the magnitude and what follows; \<open>None\<close> when nothing converts.\<close>

definition strto_sign :: "bytes \<Rightarrow> bool \<times> bytes" where
  "strto_sign s = (case dropWhile is_space s of
      [] \<Rightarrow> (False, [])
    | c # t \<Rightarrow> if c = 0x2D then (True, t) else if c = 0x2B then (False, t) else (False, c # t))"

definition strto_base :: "nat \<Rightarrow> bytes \<Rightarrow> nat \<times> bytes" where
  "strto_base base s =
    (case s of
       a # x # d # t \<Rightarrow>
         if (base = 0 \<or> base = 16) \<and> a = 0x30 \<and> (x = 0x78 \<or> x = 0x58) \<and> digit_in 16 d then (16, d # t)
         else if base = 0 then (if a = 0x30 then 8 else 10, s) else (base, s)
     | _ \<Rightarrow> if base = 0 then (if s \<noteq> [] \<and> hd s = 0x30 then 8 else 10, s) else (base, s))"

definition strto_parse :: "nat \<Rightarrow> bytes \<Rightarrow> (bool \<times> nat \<times> bytes) option" where
  "strto_parse base s =
    (let (neg, t) = strto_sign s; (b, u) = strto_base base t; ds = takeWhile (digit_in b) u
     in if ds = [] then None else Some (neg, digits_value b ds, drop (length ds) u))"

text \<open>\<open>strtoul\<close> and \<open>strtoull\<close>: the value, the rest of the string and whether \<open>errno\<close> is \<open>ERANGE\<close>.\<close>

definition strtoul :: "nat \<Rightarrow> bytes \<Rightarrow> (u64 \<times> bytes \<times> bool) option" where
  "strtoul base s = (case strto_parse base s of None \<Rightarrow> None
     | Some (neg, n, rest) \<Rightarrow>
         if n \<ge> 2 ^ 64 then Some (- 1, rest, True)
         else Some (if neg then - word_of_nat n else word_of_nat n, rest, False))"

definition strtol :: "nat \<Rightarrow> bytes \<Rightarrow> (int \<times> bytes \<times> bool) option" where
  "strtol base s = (case strto_parse base s of None \<Rightarrow> None
     | Some (neg, n, rest) \<Rightarrow>
         if neg then (if n > 2 ^ 63 then Some (- (2 ^ 63), rest, True) else Some (- int n, rest, False))
         else (if n \<ge> 2 ^ 63 then Some (2 ^ 63 - 1, rest, True) else Some (int n, rest, False)))"

section \<open>Values\<close>

text \<open>One step of the suffix switch of \<open>cp_memparse\<close> and the number of steps a suffix takes.\<close>

fun memparse_shift :: "nat \<Rightarrow> u64 \<Rightarrow> u64" where
  "memparse_shift 0 ull = ull"
| "memparse_shift (Suc k) ull =
    (if ull > drop_bit 10 (- 1) then - 1 else memparse_shift k (push_bit 10 ull))"

definition memparse_steps :: "byte \<Rightarrow> nat" where
  "memparse_steps c =
    (if c = 0x45 \<or> c = 0x65 then 6 else if c = 0x50 \<or> c = 0x70 then 5 else if c = 0x54 \<or> c = 0x74 then 4
     else if c = 0x47 \<or> c = 0x67 then 3 else if c = 0x4D \<or> c = 0x6D then 2 else if c = 0x4B \<or> c = 0x6B then 1 else 0)"

definition cp_memparse :: "bytes \<Rightarrow> u64" where
  "cp_memparse v = (case strtoul 0 v of None \<Rightarrow> 0
     | Some (ull, cp, erange) \<Rightarrow>
         if erange then 0
         else (case cp of [] \<Rightarrow> ull | c # _ \<Rightarrow> memparse_shift (memparse_steps c) ull))"

definition is_ascii_space_tab :: "byte \<Rightarrow> bool" where
  "is_ascii_space_tab c \<longleftrightarrow> c = 0x20 \<or> c = 0x09"

definition cp_smbconf_eol :: "bytes \<Rightarrow> bool" where
  "cp_smbconf_eol p = (case p of [] \<Rightarrow> True | c # _ \<Rightarrow> c = 0x3B \<or> c = 0x23)"

definition cp_pwddb_eol :: "bytes \<Rightarrow> bool" where
  "cp_pwddb_eol p = (p = [])"

definition cp_ltrim :: "bytes \<Rightarrow> bytes" where
  "cp_ltrim v = dropWhile is_ascii_space_tab v"

text \<open>\<open>g_strndup(v, cp_rtrim(v, p) + 1 - v)\<close> for the string up to \<open>p\<close> inclusive: at least one
  byte stays.\<close>

definition cp_rtrim :: "bytes \<Rightarrow> bytes" where
  "cp_rtrim v = (case v of [] \<Rightarrow> [] | c # t \<Rightarrow> c # rev (dropWhile is_ascii_space_tab (rev t)))"

definition ascii_lower :: "byte \<Rightarrow> byte" where
  "ascii_lower b = (if 0x41 \<le> b \<and> b \<le> 0x5A then b + 0x20 else b)"

definition key_fold :: "bytes \<Rightarrow> bytes" where
  "key_fold k = map ascii_lower k"

text \<open>\<open>!cp_key_cmp(lk, rk)\<close>.\<close>

definition key_equal :: "bytes \<Rightarrow> bytes \<Rightarrow> bool" where
  "key_equal lk rk \<longleftrightarrow> key_fold lk = key_fold rk"

definition cp_get_group_kv_bool :: "bytes \<Rightarrow> bool" where
  "cp_get_group_kv_bool v \<longleftrightarrow> key_equal v (bytes_of ''yes'') \<or> key_equal v (bytes_of ''1'')
     \<or> key_equal v (bytes_of ''true'') \<or> key_equal v (bytes_of ''enable'')"

definition cp_get_group_kv_config_opt :: "bytes \<Rightarrow> u32" where
  "cp_get_group_kv_config_opt v =
    (if key_equal v (bytes_of ''enabled'') then 1 else if key_equal v (bytes_of ''auto'') then 2
     else if key_equal v (bytes_of ''mandatory'') then 3 else 0)"

definition cp_get_group_kv_long_base :: "bytes \<Rightarrow> nat \<Rightarrow> u64" where
  "cp_get_group_kv_long_base v base = (case strtoul base v of None \<Rightarrow> 0
     | Some (val, _, erange) \<Rightarrow> if erange then 0 else val)"

definition cp_get_group_kv_long :: "bytes \<Rightarrow> u64" where
  "cp_get_group_kv_long v = cp_get_group_kv_long_base v 10"

text \<open>\<open>g_strsplit_set\<close>: the pieces between the delimiters, none for the empty string.\<close>

fun split_set :: "(byte \<Rightarrow> bool) \<Rightarrow> bytes \<Rightarrow> bytes \<Rightarrow> bytes list" where
  "split_set p acc [] = [rev acc]"
| "split_set p acc (c # s) = (if p c then rev acc # split_set p [] s else split_set p (c # acc) s)"

definition cp_get_group_kv_list :: "bytes \<Rightarrow> bytes list" where
  "cp_get_group_kv_list v = (if v = [] then [] else split_set (\<lambda>c. c = 0x09 \<or> c = 0x20 \<or> c = 0x2C) [] v)"

section \<open>Lines\<close>

text \<open>The text before the first \<open>d\<close> and the text behind it; \<open>None\<close> when \<open>strchr\<close> finds none.\<close>

definition split_at :: "byte \<Rightarrow> bytes \<Rightarrow> (bytes \<times> bytes) option" where
  "split_at d s = (if d \<in> set s then Some (takeWhile (\<lambda>c. c \<noteq> d) s, tl (dropWhile (\<lambda>c. c \<noteq> d) s)) else None)"

definition KSMBD_REQ_MAX_SHARE_NAME :: nat where "KSMBD_REQ_MAX_SHARE_NAME = 64"

definition shm_share_name :: "sysdb \<Rightarrow> bytes \<Rightarrow> bool" where
  "shm_share_name sys name =
    (name \<noteq> [] \<and> length name < KSMBD_REQ_MAX_SHARE_NAME \<and> g_utf8_validate sys name
     \<and> list_all (\<lambda>b. cp_printable b \<and> b \<noteq> 0x5B \<and> b \<noteq> 0x5D) name)"

text \<open>A group line gives its name.\<close>

definition is_a_group :: "sysdb \<Rightarrow> bytes \<Rightarrow> bytes option" where
  "is_a_group sys entry = (case entry of [] \<Rightarrow> None
     | c # t \<Rightarrow> if c \<noteq> 0x5B then None
         else (case split_at 0x5D t of None \<Rightarrow> None
           | Some (name, rest) \<Rightarrow>
               if \<not> shm_share_name sys name then None
               else if \<not> cp_smbconf_eol (cp_ltrim rest) then None else Some name))"

text \<open>
  \<open>is_a_key_value\<close>, given whether there is a current group; it cuts the line at the comment, so
  it gives the line that \<open>add_group_key_value\<close> then splits.
\<close>

definition value_end :: "bytes \<Rightarrow> bytes" where
  "value_end v = takeWhile (\<lambda>c. c \<noteq> 0x3B \<and> c \<noteq> 0x23) v"

definition is_a_key_value :: "bool \<Rightarrow> bytes \<Rightarrow> bytes option" where
  "is_a_key_value has_current entry =
    (case split_at 0x3D entry of None \<Rightarrow> None
     | Some (key, rest) \<Rightarrow>
         if key = [] then None
         else if \<not> list_all (\<lambda>b. cp_printable b \<and> b \<noteq> 0x3B \<and> b \<noteq> 0x23) key then None
         else if \<not> has_current then None
         else let trimmed = cp_ltrim rest; value = value_end trimmed
              in if \<not> list_all cp_printable value then None
                 else Some (key @ [0x3D] @ take (length rest - length trimmed) rest @ value))"

text \<open>The key and the value \<open>add_group_key_value\<close> takes from a line.\<close>

definition key_value_of :: "bytes \<Rightarrow> (bytes \<times> bytes) option" where
  "key_value_of entry = (case split_at 0x3D entry of None \<Rightarrow> None
     | Some (key, rest) \<Rightarrow> Some (cp_rtrim key, cp_ltrim rest))"

definition is_base64 :: "byte \<Rightarrow> bool" where
  "is_base64 c \<longleftrightarrow> is_digit c \<or> (0x41 \<le> c \<and> c \<le> 0x5A) \<or> (0x61 \<le> c \<and> c \<le> 0x7A) \<or> c = 0x2B \<or> c = 0x2F"

text \<open>A password entry gives the user name and the password text behind the colon.\<close>

definition is_a_user_password :: "sysdb \<Rightarrow> bytes \<Rightarrow> (bytes \<times> bytes) option" where
  "is_a_user_password sys entry = (case split_at 0x3A entry of None \<Rightarrow> None
     | Some (name, pwd) \<Rightarrow>
         if \<not> usm_user_name sys name then None
         else let body = rev (dropWhile (\<lambda>c. c = 0x3D) (rev pwd))
              in if body = [] then None else if \<not> list_all is_base64 body then None else Some (name, pwd))"

text \<open>Three decimal numbers with colons between them; \<open>add_subauth\<close> reads them modulo \<open>2^32\<close>.\<close>

fun is_subauth_from :: "nat \<Rightarrow> bytes \<Rightarrow> bool" where
  "is_subauth_from 0 entry = False"
| "is_subauth_from (Suc 0) entry = (entry \<noteq> [] \<and> list_all is_digit entry)"
| "is_subauth_from (Suc (Suc n)) entry = (case split_at 0x3A entry of None \<Rightarrow> False
     | Some (d, rest) \<Rightarrow> d \<noteq> [] \<and> list_all is_digit d \<and> is_subauth_from (Suc n) rest)"

definition is_a_subauth :: "bytes \<Rightarrow> bool" where
  "is_a_subauth entry = is_subauth_from 3 entry"

definition subauth_number :: "bytes \<Rightarrow> u32" where
  "subauth_number ds = foldl (\<lambda>n c. n * 10 + (ucast c - 0x30)) 0 ds"

text \<open>Without a delimiter \<open>strchr\<close> is NULL, the loop does not run and \<open>entry\<close> moves one byte on.\<close>

fun add_subauth_from :: "nat \<Rightarrow> bytes \<Rightarrow> u32 list" where
  "add_subauth_from 0 entry = []"
| "add_subauth_from (Suc 0) entry = [subauth_number entry]"
| "add_subauth_from (Suc (Suc n)) entry = (case split_at 0x3A entry of
       None \<Rightarrow> 0 # add_subauth_from (Suc n) (tl entry)
     | Some (d, rest) \<Rightarrow> subauth_number d # add_subauth_from (Suc n) rest)"

definition add_subauth :: "bytes \<Rightarrow> smbconf_global \<Rightarrow> smbconf_global" where
  "add_subauth entry gc = gc\<lparr>gen_subauth := add_subauth_from 3 entry\<rparr>"

text \<open>What \<open>cp_parse_subauth\<close> writes for three numbers, without the line end.\<close>

fun decimal :: "nat \<Rightarrow> bytes" where
  "decimal n = (if n < 10 then [word_of_nat (0x30 + n)] else decimal (n div 10) @ [word_of_nat (0x30 + n mod 10)])"

declare decimal.simps [simp del]

definition subauth_contents :: "u32 \<Rightarrow> u32 \<Rightarrow> u32 \<Rightarrow> bytes" where
  "subauth_contents a b c = decimal (unat a) @ [0x3A] @ decimal (unat b) @ [0x3A] @ decimal (unat c)"

text \<open>The lines \<open>__mmap_parse_file\<close> hands out: split at line ends, no empty line behind the last
  one, one empty line for an empty file, each cut at its first zero byte by \<open>g_strndup\<close>.\<close>

function file_lines :: "bytes \<Rightarrow> bytes list" where
  "file_lines contents =
    (if contents = [] then []
     else c_str (takeWhile (\<lambda>c. c \<noteq> 0x0A) contents) # file_lines (tl (dropWhile (\<lambda>c. c \<noteq> 0x0A) contents)))"
  by pat_completeness auto
termination
proof (relation "measure length", goal_cases)
  case (2 contents)
  then show ?case
    using length_dropWhile_le [of "\<lambda>c. c \<noteq> 0x0A" contents] by (cases contents) auto
qed simp

declare file_lines.simps [simp del]

definition mmap_lines :: "bytes \<Rightarrow> bytes list" where
  "mmap_lines contents = (if contents = [] then [[]] else file_lines contents)"

section \<open>Decimal numerals\<close>

lemma unat_numeral_digit: "d < 10 \<Longrightarrow> unat (word_of_nat (0x30 + d) :: byte) = 0x30 + d"
  by (simp only: unat_of_nat) simp

lemma digit_byte:
  assumes "d < 10"
  shows "is_digit (word_of_nat (0x30 + d))" and "digit_val (word_of_nat (0x30 + d)) = Some d"
proof -
  have "(0x30 :: byte) \<le> word_of_nat (0x30 + d)" and "word_of_nat (0x30 + d) \<le> (0x39 :: byte)"
    unfolding word_le_nat_alt unat_numeral_digit [OF assms] using assms by simp_all
  then show "is_digit (word_of_nat (0x30 + d))" and "digit_val (word_of_nat (0x30 + d)) = Some d"
    unfolding is_digit_def digit_val_def unat_numeral_digit [OF assms] by simp_all
qed

lemma digit_in_10: "digit_in 10 c = is_digit c"
proof -
  have "unat c - 0x30 < 10" if "0x30 \<le> c" "c \<le> 0x39"
    using that by (simp add: word_le_nat_alt)
  moreover have "\<not> n - 0x41 + 10 < (10 :: nat)" "\<not> n - 0x61 + 10 < (10 :: nat)" for n by simp_all
  ultimately show ?thesis
    by (simp add: digit_in_def digit_val_def is_digit_def)
qed

lemma digits_value_snoc: "digits_value b (ds @ [d]) = digits_value b ds * b + the (digit_val d)"
  by (simp add: digits_value_def)

lemma decimal_digits: "list_all is_digit (decimal n) \<and> decimal n \<noteq> [] \<and> digits_value 10 (decimal n) = n"
proof (induction n rule: decimal.induct)
  case (1 n)
  show ?case
  proof (cases "n < 10")
    case True
    then show ?thesis
      using digit_byte [of n] by (simp add: decimal.simps [of n] digits_value_def)
  next
    case False
    then show ?thesis
      using 1 [OF False] digit_byte [of "n mod 10"]
      by (simp add: decimal.simps [of n] digits_value_snoc del: of_nat_add)
  qed
qed

lemma decimal_head: "0 < n \<Longrightarrow> hd (decimal n) \<noteq> 0x30"
proof (induction n rule: decimal.induct)
  case (1 n)
  show ?case
  proof (cases "n < 10")
    case True
    then have "unat (word_of_nat (0x30 + n) :: byte) \<noteq> unat (0x30 :: byte)"
      using 1(2) by (simp only: unat_numeral_digit) simp
    with True show ?thesis by (auto simp: decimal.simps [of n])
  next
    case False
    with 1 decimal_digits [of "n div 10"] show ?thesis by (simp add: decimal.simps [of n])
  qed
qed

lemma digit_bytes:
  assumes "is_digit c"
  shows "\<not> is_space c" and "c \<noteq> 0x2D" and "c \<noteq> 0x2B" and "c \<noteq> 0x3A" and "c \<noteq> 0" and "c \<noteq> 0x0A"
proof -
  have "0x30 \<le> unat c" "unat c \<le> 0x39"
    using assms by (auto simp: is_digit_def word_le_nat_alt)
  then show "\<not> is_space c" "c \<noteq> 0x2D" "c \<noteq> 0x2B" "c \<noteq> 0x3A" "c \<noteq> 0" "c \<noteq> 0x0A"
    by (auto simp: is_space_def word_le_nat_alt)
qed

lemma strto_parse_decimal:
  assumes n: "0 < n" and rest: "rest = [] \<or> \<not> is_digit (hd rest)"
  shows "strto_parse 0 (decimal n @ rest) = Some (False, n, rest)"
proof -
  obtain c t where d: "decimal n = c # t" and c: "is_digit c" "c \<noteq> 0x30"
    using decimal_digits [of n] decimal_head [OF n] by (cases "decimal n") auto
  have s: "strto_sign (decimal n @ rest) = (False, decimal n @ rest)"
    using d c digit_bytes [of c] by (simp add: strto_sign_def)
  have b: "strto_base 0 (decimal n @ rest) = (10, decimal n @ rest)"
    using d c by (auto simp: strto_base_def split: list.split)
  have "takeWhile (digit_in 10) (decimal n @ rest) = decimal n"
    using decimal_digits [of n] rest by (cases rest) (auto simp: digit_in_10 [abs_def] list_all_iff takeWhile_append2 fun_eq_iff)
  then show ?thesis
    using s b decimal_digits [of n] by (simp add: strto_parse_def)
qed

lemma memparse_shift_exact:
  "unat (memparse_shift k ull) = (if unat ull * 1024 ^ k < 2 ^ 64 then unat ull * 1024 ^ k else 2 ^ 64 - 1)"
proof (induction k arbitrary: ull)
  case 0
  then show ?case using unsigned_less [of ull, where ?'a = nat] by simp
next
  case (Suc k)
  have "unat (mask 54 :: u64) = 2 ^ 54 - 1"
    by (simp add: mask_eq_exp_minus_1)
  then have m: "(ull > drop_bit 10 (- 1)) = (2 ^ 54 \<le> unat ull)"
    by (auto simp: word_less_nat_alt)
  show ?case
  proof (cases "2 ^ 54 \<le> unat ull")
    case True
    have "(1 :: nat) \<le> 1024 ^ k" by simp
    then have "2 ^ 54 * (1024 * 1) \<le> unat ull * (1024 * 1024 ^ k)"
      using True by (intro mult_le_mono) auto
    moreover have "unat (- 1 :: u64) = 2 ^ 64 - 1"
      by (simp add: unsigned_minus_1_eq_mask mask_eq_exp_minus_1)
    ultimately show ?thesis using m True by simp
  next
    case False
    then have "unat (push_bit 10 ull) = unat ull * 1024"
      by (simp add: push_bit_eq_mult unat_word_ariths)
    with Suc [of "push_bit 10 ull"] m False show ?thesis by (simp add: mult.assoc)
  qed
qed


section \<open>Splitting lines\<close>

lemma split_at_append [simp]: "d \<notin> set a \<Longrightarrow> split_at d (a @ d # b) = Some (a, b)"
  by (induction a) (auto simp: split_at_def)

lemma split_at_Some:
  assumes "split_at d s = Some (a, b)"
  shows "s = a @ d # b" and "d \<notin> set a"
proof -
  have d: "d \<in> set s" and a: "a = takeWhile (\<lambda>c. c \<noteq> d) s" and b: "b = tl (dropWhile (\<lambda>c. c \<noteq> d) s)"
    using assms by (auto simp: split_at_def split: if_splits)
  then have "dropWhile (\<lambda>c. c \<noteq> d) s \<noteq> []" by (auto simp: dropWhile_eq_Nil_conv)
  then have "dropWhile (\<lambda>c. c \<noteq> d) s = d # b"
    using hd_dropWhile [of "\<lambda>c. c \<noteq> d" s] b by (cases "dropWhile (\<lambda>c. c \<noteq> d) s") auto
  then show "s = a @ d # b"
    using a takeWhile_dropWhile_id [of "\<lambda>c. c \<noteq> d" s] by simp
  show "d \<notin> set a"
    using a by (auto dest: set_takeWhileD)
qed

lemma subauth_number_decimal:
  assumes "list_all is_digit ds"
  shows "subauth_number ds = word_of_nat (digits_value 10 ds)"
  using assms
proof (induction ds rule: rev_induct)
  case (snoc c ds)
  have c: "0x30 \<le> unat c" "unat c \<le> 0x39"
    using snoc(2) by (auto simp: is_digit_def word_le_nat_alt)
  then have dv: "digit_val c = Some (unat c - 0x30)"
    using snoc(2) by (simp add: digit_val_def is_digit_def)
  have "(ucast c :: u32) = word_of_nat (unat c)" by simp
  then have "(ucast c - 0x30 :: u32) = word_of_nat (unat c - 0x30)"
    using c by (simp add: of_nat_diff)
  with snoc dv show ?case
    by (simp add: subauth_number_def digits_value_snoc)
qed (simp add: subauth_number_def digits_value_def)

lemma colon_decimal [simp]: "0x3A \<notin> set (decimal n)"
  using decimal_digits [of n] digit_bytes(4) by (auto simp: list_all_iff)

lemma file_lines_line:
  assumes "0x0A \<notin> set l" and "0 \<notin> set l"
  shows "file_lines (l @ 0x0A # rest) = l # file_lines rest"
proof -
  have "takeWhile (\<lambda>c. c \<noteq> 0x0A) (l @ 0x0A # rest) = l"
    and "dropWhile (\<lambda>c. c \<noteq> 0x0A) (l @ 0x0A # rest) = 0x0A # rest"
    using assms(1) by (induction l) auto
  moreover have "c_str l = l"
    using assms(2) by (auto simp: c_str_def takeWhile_eq_all_conv)
  ultimately show ?thesis
    by (simp add: file_lines.simps [of "l @ 0x0A # rest"])
qed

lemma file_lines_print:
  "list_all (\<lambda>l. 0x0A \<notin> set l \<and> 0 \<notin> set l) ls \<Longrightarrow> file_lines (concat (map (\<lambda>l. l @ [0x0A]) ls)) = ls"
  by (induction ls) (simp_all add: file_lines_line file_lines.simps [of "[]"])

section \<open>Properties of the text level\<close>

text \<open>\<open>cp_memparse\<close> of a decimal number with a size suffix is the number times the power of
  1024 of the suffix, or the largest 64-bit value when that product does not fit.\<close>

theorem cp_memparse_scaled:
  assumes "0 < n" and "n < 2 ^ 64" and "\<not> is_digit c"
  shows "unat (cp_memparse (decimal n @ c # rest)) = min (n * 1024 ^ memparse_steps c) (2 ^ 64 - 1)"
proof -
  have n: "unat (word_of_nat n :: u64) = n"
    using assms(2) by (simp add: unat_of_nat)
  have "strtoul 0 (decimal n @ c # rest) = Some (word_of_nat n, c # rest, False)"
    using strto_parse_decimal [of n "c # rest"] assms by (simp add: strtoul_def)
  then have "cp_memparse (decimal n @ c # rest) = memparse_shift (memparse_steps c) (word_of_nat n)"
    by (simp add: cp_memparse_def)
  then show ?thesis
    by (simp add: memparse_shift_exact n min_def)
qed

theorem cp_memparse_scaled_witness:
  "unat (cp_memparse (decimal 8 @ [0x4D])) = 8388608 \<and> unat (cp_memparse (decimal 16 @ [0x45])) = 2 ^ 64 - 1"
  using cp_memparse_scaled [of 8 "0x4D" "[]"] cp_memparse_scaled [of 16 "0x45" "[]"]
  by (simp add: is_digit_def memparse_steps_def)

text \<open>C38: the sub-authorities that \<open>cp_parse_subauth\<close> generates and writes are recognised by
  \<open>is_a_subauth\<close> and read back unchanged by \<open>add_subauth\<close>.\<close>

theorem subauth_roundtrip:
  "is_a_subauth (subauth_contents a b c) \<and> gen_subauth (add_subauth (subauth_contents a b c) gc) = [a, b, c]"
proof -
  have n: "subauth_number (decimal (unat w)) = w" for w :: u32
    using decimal_digits [of "unat w"] by (simp add: subauth_number_decimal)
  have d: "list_all is_digit (decimal m)" "decimal m \<noteq> []" for m
    using decimal_digits [of m] by simp_all
  show ?thesis
    by (simp add: is_a_subauth_def add_subauth_def subauth_contents_def numeral_3_eq_3 n d)
qed

text \<open>A parameter line with optional blanks around the equal sign and an optional comment
  gives the key without trailing blanks and the value up to the comment, without leading ones.\<close>

theorem key_value_line_parsed:
  assumes "k \<noteq> []" and "list_all (\<lambda>b. cp_printable b \<and> b \<noteq> 0x3B \<and> b \<noteq> 0x23 \<and> b \<noteq> 0x3D) k"
    and "\<not> is_ascii_space_tab (last k)" and "list_all is_ascii_space_tab s1" and "list_all is_ascii_space_tab s2"
    and "list_all (\<lambda>b. cp_printable b \<and> b \<noteq> 0x3B \<and> b \<noteq> 0x23) v" and "v = [] \<or> \<not> is_ascii_space_tab (hd v)"
    and "cp_smbconf_eol comment"
  shows "\<exists>e. is_a_key_value True (k @ s1 @ [0x3D] @ s2 @ v @ comment) = Some e \<and> key_value_of e = Some (k, v)"
proof -
  have sp: "is_ascii_space_tab b \<Longrightarrow> cp_printable b \<and> b \<noteq> 0x3B \<and> b \<noteq> 0x23 \<and> b \<noteq> 0x3D" for b
    by (auto simp: is_ascii_space_tab_def cp_printable_def)
  have k1: "list_all (\<lambda>b. cp_printable b \<and> b \<noteq> 0x3B \<and> b \<noteq> 0x23) (k @ s1)" and eq: "0x3D \<notin> set (k @ s1)"
    using assms(2,4) sp by (auto simp: list_all_iff)
  have cm: "comment = [] \<or> hd comment = 0x3B \<or> hd comment = 0x23"
    using assms(8) by (auto simp: cp_smbconf_eol_def split: list.splits)
  have tr: "cp_ltrim (s2 @ v @ comment) = v @ comment"
    using assms(5,7) cm
    by (cases v; cases comment) (auto simp: cp_ltrim_def list_all_iff dropWhile_append is_ascii_space_tab_def
        dropWhile_eq_Nil_conv)
  have tr2: "cp_ltrim (s2 @ v) = v"
    using assms(5,7) by (cases v) (auto simp: cp_ltrim_def list_all_iff dropWhile_append dropWhile_eq_Nil_conv)
  have ve: "value_end (v @ comment) = v"
    using assms(6) cm by (cases comment) (auto simp: value_end_def list_all_iff takeWhile_append2)
  have sa: "split_at 0x3D ((k @ s1) @ 0x3D # r) = Some (k @ s1, r)" for r
    by (rule split_at_append [OF eq])
  have "is_a_key_value True ((k @ s1) @ 0x3D # (s2 @ v @ comment)) = Some ((k @ s1) @ 0x3D # (s2 @ v))"
    unfolding is_a_key_value_def sa using assms(1,6) k1 by (simp add: tr ve Let_def list_all_iff)
  moreover have "key_value_of ((k @ s1) @ 0x3D # (s2 @ v)) = Some (cp_rtrim (k @ s1), v)"
    unfolding key_value_of_def sa by (simp add: tr2)
  moreover have "cp_rtrim (k @ s1) = k"
  proof -
    obtain c t where k: "k = c # t" using assms(1) by (cases k) auto
    have "dropWhile is_ascii_space_tab (rev (t @ s1)) = rev t"
      using assms(3,4) k by (cases t rule: rev_cases) (auto simp: list_all_iff dropWhile_append dropWhile_eq_Nil_conv)
    then show ?thesis by (simp add: k cp_rtrim_def)
  qed
  ultimately show ?thesis by simp
qed

theorem key_value_line_parsed_witness:
  "\<exists>e. is_a_key_value True (bytes_of ''path'' @ [0x20] @ [0x3D] @ [0x20] @ bytes_of ''/srv'' @ bytes_of ''# x'') = Some e
     \<and> key_value_of e = Some (bytes_of ''path'', bytes_of ''/srv'')"
  by (rule key_value_line_parsed)
    (simp_all add: bytes_of_def of_char_def cp_printable_def is_ascii_space_tab_def cp_smbconf_eol_def)

text \<open>The entry of a user with a valid name and a Base64 password is recognised, and gives back
  the name and the password.\<close>

theorem user_password_entry:
  assumes "usm_user_name sys name" and "list_all is_base64 body" and "body \<noteq> []" and "list_all (\<lambda>c. c = 0x3D) pad"
  shows "is_a_user_password sys (name @ [0x3A] @ body @ pad) = Some (name, body @ pad)"
proof -
  have "0x3A \<notin> set name"
    using assms(1) by (auto simp: usm_user_name_def list_all_iff)
  moreover have l: "last body \<noteq> 0x3D"
  proof -
    have "is_base64 (last body)"
      using assms(2,3) by (simp add: list_all_iff)
    then show ?thesis
      by (auto simp: is_base64_def is_digit_def)
  qed
  moreover have "dropWhile (\<lambda>c. c = 0x3D) (rev (body @ pad)) = rev body"
    using l assms(3,4) by (cases body rule: rev_cases) (auto simp: list_all_iff dropWhile_append dropWhile_eq_Nil_conv)
  ultimately show ?thesis
    using assms last_in_set [of body] by (auto simp: is_a_user_password_def Let_def)
qed

theorem user_password_entry_witness:
  "is_a_user_password sample_sys (bytes_of ''bob'' @ [0x3A] @ bytes_of ''QQ'' @ bytes_of ''='' @ bytes_of ''='') =
     Some (bytes_of ''bob'', bytes_of ''QQ'' @ bytes_of ''='' @ bytes_of ''='')"
  by (rule user_password_entry)
    (simp_all add: bytes_of_def of_char_def sample_sys_def usm_user_name_def cp_printable_def is_base64_def is_digit_def
      KSMBD_REQ_MAX_ACCOUNT_NAME_SZ_def)

end
