(* ===== verification/Shares.thy ===== *)
theory Shares
  imports Config_Text
begin

text \<open>
  \<open>src/tools/management/share.c\<close>: the shares, their reference counts, user and host lists, their
  construction from a configuration group, the host matching, the connection counter and the
  share-config response.  The state extends that of the users: the user lists of a share hold
  references to users.  A share under construction already has an address, as in the code.
\<close>

section \<open>Data\<close>

datatype share_users = KSMBD_SHARE_ADMIN_USERS_MAP | KSMBD_SHARE_VALID_USERS_MAP | KSMBD_SHARE_INVALID_USERS_MAP
  | KSMBD_SHARE_READ_LIST_MAP | KSMBD_SHARE_WRITE_LIST_MAP

datatype share_hosts = KSMBD_SHARE_HOSTS_ALLOW_MAP | KSMBD_SHARE_HOSTS_DENY_MAP

definition share_users_maps :: "share_users list" where
  "share_users_maps = [KSMBD_SHARE_ADMIN_USERS_MAP, KSMBD_SHARE_VALID_USERS_MAP, KSMBD_SHARE_INVALID_USERS_MAP,
     KSMBD_SHARE_READ_LIST_MAP, KSMBD_SHARE_WRITE_LIST_MAP]"

record ksmbd_share =
  sh_name :: bytes
  sh_path :: "bytes option"
  sh_max_connections :: int
  sh_num_connections :: int
  sh_ref_count :: int
  sh_create_mask :: u16
  sh_directory_mask :: u16
  sh_force_create_mode :: u16
  sh_force_directory_mode :: u16
  sh_force_uid :: u16
  sh_force_gid :: u16
  sh_flags :: u32
  sh_freeing :: bool
  sh_time_machine_max_size :: u64
  sh_veto_list :: "bytes option"
  sh_veto_list_sz :: int
  sh_guest_account :: "bytes option"
  sh_maps :: "share_users \<Rightarrow> (bytes \<times> addr) list option"
  sh_hosts_allow_map :: "bytes list option"
  sh_hosts_deny_map :: "bytes list option"
  sh_comment :: "bytes option"

record shm = usm +
  shares_table :: "(bytes \<times> addr) list"
  shares :: "addr \<rightharpoonup> ksmbd_share"
  shares_next :: addr
  should_reload_config :: bool

definition KSMBD_SHARE_FLAG_AVAILABLE :: u32 where "KSMBD_SHARE_FLAG_AVAILABLE = 0x000001"
definition KSMBD_SHARE_FLAG_BROWSEABLE :: u32 where "KSMBD_SHARE_FLAG_BROWSEABLE = 0x000002"
definition KSMBD_SHARE_FLAG_WRITEABLE :: u32 where "KSMBD_SHARE_FLAG_WRITEABLE = 0x000004"
definition KSMBD_SHARE_FLAG_READONLY :: u32 where "KSMBD_SHARE_FLAG_READONLY = 0x000008"
definition KSMBD_SHARE_FLAG_GUEST_OK :: u32 where "KSMBD_SHARE_FLAG_GUEST_OK = 0x000010"
definition KSMBD_SHARE_FLAG_STORE_DOS_ATTRS :: u32 where "KSMBD_SHARE_FLAG_STORE_DOS_ATTRS = 0x000040"
definition KSMBD_SHARE_FLAG_OPLOCKS :: u32 where "KSMBD_SHARE_FLAG_OPLOCKS = 0x000080"
definition KSMBD_SHARE_FLAG_PIPE :: u32 where "KSMBD_SHARE_FLAG_PIPE = 0x000100"
definition KSMBD_SHARE_FLAG_HIDE_DOT_FILES :: u32 where "KSMBD_SHARE_FLAG_HIDE_DOT_FILES = 0x000200"
definition KSMBD_SHARE_FLAG_INHERIT_OWNER :: u32 where "KSMBD_SHARE_FLAG_INHERIT_OWNER = 0x000400"
definition KSMBD_SHARE_FLAG_STREAMS :: u32 where "KSMBD_SHARE_FLAG_STREAMS = 0x000800"
definition KSMBD_SHARE_FLAG_FOLLOW_SYMLINKS :: u32 where "KSMBD_SHARE_FLAG_FOLLOW_SYMLINKS = 0x001000"
definition KSMBD_SHARE_FLAG_ACL_XATTR :: u32 where "KSMBD_SHARE_FLAG_ACL_XATTR = 0x002000"
definition KSMBD_SHARE_FLAG_UPDATE :: u32 where "KSMBD_SHARE_FLAG_UPDATE = 0x004000"
definition KSMBD_SHARE_FLAG_CROSSMNT :: u32 where "KSMBD_SHARE_FLAG_CROSSMNT = 0x008000"
definition KSMBD_SHARE_FLAG_CONTINUOUS_AVAILABILITY :: u32 where "KSMBD_SHARE_FLAG_CONTINUOUS_AVAILABILITY = 0x010000"
definition KSMBD_SHARE_FLAG_FRUIT_TIME_MACHINE :: u32 where "KSMBD_SHARE_FLAG_FRUIT_TIME_MACHINE = 0x020000"
definition KSMBD_SHARE_FLAG_FRUIT_FINDER_INFO :: u32 where "KSMBD_SHARE_FLAG_FRUIT_FINDER_INFO = 0x040000"
definition KSMBD_SHARE_FLAG_FRUIT_RFORK_SIZE :: u32 where "KSMBD_SHARE_FLAG_FRUIT_RFORK_SIZE = 0x080000"
definition KSMBD_SHARE_FLAG_FRUIT_MAX_ACCESS :: u32 where "KSMBD_SHARE_FLAG_FRUIT_MAX_ACCESS = 0x100000"
definition KSMBD_SHARE_FLAG_STREAMS_DISABLED :: u32 where "KSMBD_SHARE_FLAG_STREAMS_DISABLED = 0x800000"

lemmas share_flag_defs = KSMBD_SHARE_FLAG_AVAILABLE_def KSMBD_SHARE_FLAG_BROWSEABLE_def KSMBD_SHARE_FLAG_WRITEABLE_def
  KSMBD_SHARE_FLAG_READONLY_def KSMBD_SHARE_FLAG_GUEST_OK_def KSMBD_SHARE_FLAG_STORE_DOS_ATTRS_def
  KSMBD_SHARE_FLAG_OPLOCKS_def KSMBD_SHARE_FLAG_PIPE_def KSMBD_SHARE_FLAG_HIDE_DOT_FILES_def
  KSMBD_SHARE_FLAG_INHERIT_OWNER_def KSMBD_SHARE_FLAG_STREAMS_def KSMBD_SHARE_FLAG_FOLLOW_SYMLINKS_def
  KSMBD_SHARE_FLAG_ACL_XATTR_def KSMBD_SHARE_FLAG_UPDATE_def KSMBD_SHARE_FLAG_CROSSMNT_def
  KSMBD_SHARE_FLAG_CONTINUOUS_AVAILABILITY_def KSMBD_SHARE_FLAG_FRUIT_TIME_MACHINE_def
  KSMBD_SHARE_FLAG_FRUIT_FINDER_INFO_def KSMBD_SHARE_FLAG_FRUIT_RFORK_SIZE_def
  KSMBD_SHARE_FLAG_FRUIT_MAX_ACCESS_def KSMBD_SHARE_FLAG_STREAMS_DISABLED_def

definition KSMBD_CONF_MAX_CONNECTIONS :: int where "KSMBD_CONF_MAX_CONNECTIONS = 65536"

definition test_share_flag :: "ksmbd_share \<Rightarrow> u32 \<Rightarrow> bool" where
  "test_share_flag sh f = (sh_flags sh AND f \<noteq> 0)"

definition set_share_flag :: "u32 \<Rightarrow> ksmbd_share \<Rightarrow> ksmbd_share" where
  "set_share_flag f sh = sh\<lparr>sh_flags := sh_flags sh OR f\<rparr>"

definition clear_share_flag :: "u32 \<Rightarrow> ksmbd_share \<Rightarrow> ksmbd_share" where
  "clear_share_flag f sh = sh\<lparr>sh_flags := sh_flags sh AND NOT f\<rparr>"

text \<open>The parameter names, in the order of the enumeration.\<close>

definition KSMBD_SHARE_CONF :: "bytes list" where
  "KSMBD_SHARE_CONF = map bytes_of
    [''comment'', ''path'', ''guest ok'', ''guest account'', ''read only'', ''browseable'', ''write ok'', ''writeable'',
     ''store dos attributes'', ''oplocks'', ''create mask'', ''directory mask'', ''force create mode'',
     ''force directory mode'', ''force group'', ''force user'', ''hide dot files'', ''valid users'', ''invalid users'',
     ''read list'', ''write list'', ''admin users'', ''hosts allow'', ''hosts deny'', ''max connections'', ''veto files'',
     ''inherit owner'', ''follow symlinks'', ''vfs objects'', ''writable'', ''crossmnt'', ''fruit time machine'',
     ''fruit time machine max size'', ''fruit finder info'', ''fruit resource fork size'', ''fruit max access'',
     ''continuous availability'', ''streams'', ''acl xattr'']"

definition KSMBD_SHARE_DEFCONF :: "bytes list" where
  "KSMBD_SHARE_DEFCONF = map bytes_of
    ['''', '''', ''no'', '''', ''; yes'', ''yes'', '''', '''', ''yes'', ''yes'', ''0744'', ''0755'', ''0000'', ''0000'', '''',
     '''', ''yes'', '''', '''', '''', '''', '''', '''', '''', ''128'', '''', ''no'', ''no'', '''', '''', ''yes'', ''no'', ''0'',
     ''yes'', ''no'', ''yes'', ''no'', ''no'', ''no'']"

definition KSMBD_SHARE_CONF_IS_GLOBAL :: "nat \<Rightarrow> bool" where
  "KSMBD_SHARE_CONF_IS_GLOBAL c \<longleftrightarrow> c = 3 \<or> c = 24"

definition KSMBD_SHARE_CONF_IS_BROKEN :: "nat \<Rightarrow> bool" where
  "KSMBD_SHARE_CONF_IS_BROKEN c \<longleftrightarrow> c = 21"

definition shm_share_config :: "bytes \<Rightarrow> nat \<Rightarrow> bool" where
  "shm_share_config k c \<longleftrightarrow> \<not> KSMBD_SHARE_CONF_IS_BROKEN c \<and> key_equal k (KSMBD_SHARE_CONF ! c)"

section \<open>Objects and references\<close>

definition shm_casefold_share_name :: "sysdb \<Rightarrow> bytes \<Rightarrow> bytes" where
  "shm_casefold_share_name sys name = (case g_utf8_normalize_nfd sys name of
     None \<Rightarrow> map ascii_lower name | Some nfdi_name \<Rightarrow> g_utf8_casefold sys nfdi_name)"

definition shm_share_name_equal :: "sysdb \<Rightarrow> bytes \<Rightarrow> bytes \<Rightarrow> bool" where
  "shm_share_name_equal sys lname rname \<longleftrightarrow> shm_casefold_share_name sys lname = shm_casefold_share_name sys rname"

definition get_share :: "addr \<Rightarrow> ('x shm_scheme, ksmbd_share) act" where
  "get_share a = (\<lambda>s. case shares s a of None \<Rightarrow> (Inl Fault, s) | Some sh \<Rightarrow> (Inr sh, s))"

definition set_share :: "addr \<Rightarrow> (ksmbd_share \<Rightarrow> ksmbd_share) \<Rightarrow> ('x shm_scheme, unit) act" where
  "set_share a f = (\<lambda>s. case shares s a of None \<Rightarrow> (Inl Fault, s)
     | Some sh \<Rightarrow> (Inr (), s\<lparr>shares := (shares s)(a \<mapsto> f sh)\<rparr>))"

definition free_user_map :: "(bytes \<times> addr) list option \<Rightarrow> ('x shm_scheme, unit) act" where
  "free_user_map m = (case m of None \<Rightarrow> ret () | Some t \<Rightarrow> each (\<lambda>p. put_ksmbd_user (Some (snd p))) t)"

definition kill_ksmbd_share :: "addr \<Rightarrow> ('x shm_scheme, unit) act" where
  "kill_ksmbd_share a =
     bnd (get_share a) (\<lambda>sh.
     sq (each (\<lambda>i. free_user_map (sh_maps sh i)) share_users_maps)
        (modify (\<lambda>s. s\<lparr>shares := (shares s)(a := None)\<rparr>)))"

definition shm_remove_share :: "sysdb \<Rightarrow> addr \<Rightarrow> ('x shm_scheme, unit) act" where
  "shm_remove_share sys a =
     bnd (get_share a) (\<lambda>sh.
     if sh_freeing sh then kill_ksmbd_share a
     else bnd (reads (\<lambda>s. ht_remove (shm_casefold_share_name sys) (sh_name sh) (shares_table s))) (\<lambda>(found, t).
     if \<not> found then fail (Err EINVAL)
     else sq (modify (\<lambda>s. s\<lparr>shares_table := t\<rparr>)) (kill_ksmbd_share a)))"

definition get_ksmbd_share :: "addr \<Rightarrow> ('x shm_scheme, addr option) act" where
  "get_ksmbd_share a =
     bnd (get_share a) (\<lambda>sh.
     if sh_ref_count sh \<noteq> 0 then sq (set_share a (sh_ref_count_update (\<lambda>n. n + 1))) (ret (Some a))
     else ret None)"

definition put_ksmbd_share :: "sysdb \<Rightarrow> addr option \<Rightarrow> ('x shm_scheme, unit) act" where
  "put_ksmbd_share sys p =
    (case p of None \<Rightarrow> ret ()
     | Some a \<Rightarrow>
        sq (set_share a (sh_ref_count_update (\<lambda>n. n - 1)))
       (bnd (get_share a) (\<lambda>sh.
        if sh_ref_count sh \<noteq> 0 then ret () else ignore (shm_remove_share sys a))))"

definition shm_remove_entry :: "sysdb \<Rightarrow> bytes \<times> addr \<Rightarrow> ('x shm_scheme, unit) act" where
  "shm_remove_entry sys p =
     sq (set_share (snd p) (sh_freeing_update (\<lambda>_. True)))
    (sq (put_ksmbd_share sys (Some (snd p)))
        (modify (\<lambda>s. s\<lparr>shares_table := snd (ht_remove (shm_casefold_share_name sys) (fst p) (shares_table s))\<rparr>)))"

definition shm_remove_all_shares :: "sysdb \<Rightarrow> ('x shm_scheme, unit) act" where
  "shm_remove_all_shares sys = bnd (reads shares_table) (each (shm_remove_entry sys))"

definition new_ksmbd_share :: "bool \<Rightarrow> ksmbd_share" where
  "new_ksmbd_share reload =
    (let sh = \<lparr>sh_name = [], sh_path = None, sh_max_connections = 0, sh_num_connections = 0, sh_ref_count = 1,
        sh_create_mask = 0, sh_directory_mask = 0, sh_force_create_mode = 0, sh_force_directory_mode = 0,
        sh_force_uid = - 1, sh_force_gid = - 1, sh_flags = 0, sh_freeing = False, sh_time_machine_max_size = 0,
        sh_veto_list = None, sh_veto_list_sz = 0, sh_guest_account = None, sh_maps = (\<lambda>_. None),
        sh_hosts_allow_map = None, sh_hosts_deny_map = None, sh_comment = None\<rparr>;
         sh = (if reload then set_share_flag KSMBD_SHARE_FLAG_UPDATE sh else sh)
     in set_share_flag KSMBD_SHARE_FLAG_AVAILABLE sh)"

definition shm_clear_shares :: "('x shm_scheme, unit) act" where
  "shm_clear_shares = bnd (reads shares_table) (each (\<lambda>p. kill_ksmbd_share (snd p)))"

definition shm_destroy :: "('x shm_scheme, unit) act" where
  "shm_destroy = sq shm_clear_shares (modify (\<lambda>s. s\<lparr>shares_table := []\<rparr>))"

definition shm_lookup_share :: "sysdb \<Rightarrow> bytes \<Rightarrow> ('x shm_scheme, addr option) act" where
  "shm_lookup_share sys name =
     bnd (reads (\<lambda>s. ht_lookup (shm_casefold_share_name sys) (shares_table s) name)) (\<lambda>r.
     case r of None \<Rightarrow> ret None | Some a \<Rightarrow> get_ksmbd_share a)"

section \<open>Construction from a configuration group\<close>

text \<open>One user name of a list: the reference goes into the list, or back if the user is there.\<close>

definition add_user_to_map :: "addr \<Rightarrow> share_users \<Rightarrow> bytes \<Rightarrow> ('x shm_scheme, unit) act" where
  "add_user_to_map a m name =
    (if name = [] then ret ()
     else bnd (usm_lookup_user (Some name)) (\<lambda>p.
     case p of None \<Rightarrow> ret ()
     | Some u \<Rightarrow>
        bnd (get_user u) (\<lambda>user.
        bnd (get_share a) (\<lambda>sh.
        let t = (case sh_maps sh m of None \<Rightarrow> [] | Some t \<Rightarrow> t) in
        if ht_lookup id t (u_name user) \<noteq> None then put_ksmbd_user (Some u)
        else set_share a (\<lambda>sh. sh\<lparr>sh_maps := (sh_maps sh)(m := Some (snd (ht_insert id (u_name user) u t)))\<rparr>)))))"

definition init_users_map :: "addr \<Rightarrow> share_users \<Rightarrow> ('x shm_scheme, unit) act" where
  "init_users_map a m = set_share a (\<lambda>sh.
     if sh_maps sh m = None then sh\<lparr>sh_maps := (sh_maps sh)(m := Some [])\<rparr> else sh)"

text \<open>\<open>add_users_map\<close>, without group names (\<open>grc\<close> zero) and with names that begin with an at.\<close>

definition add_users_plain :: "addr \<Rightarrow> share_users \<Rightarrow> bytes list \<Rightarrow> ('x shm_scheme, unit) act" where
  "add_users_plain a m names = sq (init_users_map a m) (each (add_user_to_map a m) names)"

definition add_users_map :: "sysdb \<Rightarrow> addr \<Rightarrow> share_users \<Rightarrow> bytes list \<Rightarrow> ('x shm_scheme, unit) act" where
  "add_users_map sys a m names = sq (init_users_map a m) (each (\<lambda>name.
     if name \<noteq> [] \<and> hd name = 0x40 then
       (case getgrnam sys (tl name) of None \<Rightarrow> ret ()
        | Some (gid, gr_mem) \<Rightarrow>
           sq (add_users_plain a m (map fst (filter (\<lambda>e. snd e = gid) (getpwents sys))))
              (add_users_plain a m gr_mem))
     else add_user_to_map a m name) names)"

definition add_host :: "bytes list option \<Rightarrow> bytes list \<Rightarrow> bytes list option" where
  "add_host m names = Some (foldl (\<lambda>t name. if name = [] \<or> name \<in> set t then t else t @ [name])
     (case m of None \<Rightarrow> [] | Some t \<Rightarrow> t) names)"

definition add_hosts_map :: "share_hosts \<Rightarrow> bytes list \<Rightarrow> ksmbd_share \<Rightarrow> ksmbd_share" where
  "add_hosts_map m names sh = (case m of
     KSMBD_SHARE_HOSTS_ALLOW_MAP \<Rightarrow> sh\<lparr>sh_hosts_allow_map := add_host (sh_hosts_allow_map sh) names\<rparr>
   | KSMBD_SHARE_HOSTS_DENY_MAP \<Rightarrow> sh\<lparr>sh_hosts_deny_map := add_host (sh_hosts_deny_map sh) names\<rparr>)"

definition make_veto_list :: "ksmbd_share \<Rightarrow> ksmbd_share" where
  "make_veto_list sh = (case sh_veto_list sh of None \<Rightarrow> sh
     | Some v \<Rightarrow> if sh_veto_list_sz sh \<le> 0 then sh
         else sh\<lparr>sh_veto_list := Some (map (\<lambda>c. if c = 0x2F then 0 else c) (take (nat (sh_veto_list_sz sh)) v)
                @ drop (nat (sh_veto_list_sz sh)) v)\<rparr>)"

text \<open>The ids are stored in an \<open>unsigned short\<close> before they are compared with the invalid id.\<close>

definition force_group :: "sysdb \<Rightarrow> bytes \<Rightarrow> ksmbd_share \<Rightarrow> cerr + ksmbd_share" where
  "force_group sys name sh = (case getgrnam sys name of None \<Rightarrow> Inl (Err EINVAL)
     | Some (gid, _) \<Rightarrow>
        let sh = sh\<lparr>sh_force_gid := ucast gid\<rparr> in
        if sh_force_gid sh = - 1 then Inl (Err EINVAL) else Inr sh)"

definition force_user :: "sysdb \<Rightarrow> bytes \<Rightarrow> ksmbd_share \<Rightarrow> cerr + ksmbd_share" where
  "force_user sys name sh = (case getpwnam sys name of None \<Rightarrow> Inl (Err EINVAL)
     | Some (uid, gid) \<Rightarrow>
        let sh = sh\<lparr>sh_force_uid := ucast uid\<rparr> in
        if sh_force_uid sh = - 1 then Inl (Err EINVAL)
        else if sh_force_gid sh = - 1 then
          (let sh = sh\<lparr>sh_force_gid := ucast gid\<rparr> in if sh_force_gid sh = - 1 then Inl (Err EINVAL) else Inr sh)
        else Inr sh)"

text \<open>
  \<open>group_kv_steal\<close>: every key is asked for at most once, and what is left of the group is only
  logged, so the removal from the group is not represented.
\<close>

type_synonym group_kv = "(bytes \<times> bytes) list"

definition group_kv_steal :: "group_kv \<Rightarrow> nat \<Rightarrow> bytes option" where
  "group_kv_steal kv c =
    (if KSMBD_SHARE_CONF_IS_BROKEN c then None else ht_lookup key_fold kv (KSMBD_SHARE_CONF ! c))"

definition conf_set :: "group_kv \<Rightarrow> nat \<Rightarrow> (bytes \<Rightarrow> ksmbd_share \<Rightarrow> ksmbd_share) \<Rightarrow> ksmbd_share \<Rightarrow> ksmbd_share" where
  "conf_set kv c f sh = (case group_kv_steal kv c of None \<Rightarrow> sh | Some v \<Rightarrow> f v sh)"

definition conf_flag :: "group_kv \<Rightarrow> nat \<Rightarrow> u32 \<Rightarrow> ksmbd_share \<Rightarrow> ksmbd_share" where
  "conf_flag kv c f = conf_set kv c (\<lambda>v. if cp_get_group_kv_bool v then set_share_flag f else clear_share_flag f)"

text \<open>\<open>process_share_conf_kv\<close>, in the order of the code.\<close>

definition conf_comment :: "sysdb \<Rightarrow> group_kv \<Rightarrow> addr \<Rightarrow> ('x shm_scheme, unit) act" where
  "conf_comment sys kv a = (case group_kv_steal kv 0 of None \<Rightarrow> ret ()
     | Some v \<Rightarrow> sq (set_share a (\<lambda>sh. sh\<lparr>sh_comment := Some v\<rparr>))
                  (if \<not> g_utf8_validate sys v then fail (Err EINVAL) else ret ()))"

definition conf_path_guest_ok :: "group_kv \<Rightarrow> ksmbd_share \<Rightarrow> ksmbd_share" where
  "conf_path_guest_ok kv sh =
     conf_flag kv 2 KSMBD_SHARE_FLAG_GUEST_OK (conf_set kv 1 (\<lambda>v sh. sh\<lparr>sh_path := Some v\<rparr>) sh)"

definition conf_guest_account :: "sysdb \<Rightarrow> group_kv \<Rightarrow> addr \<Rightarrow> ('x shm_scheme, unit) act" where
  "conf_guest_account sys kv a = (case group_kv_steal kv 3 of None \<Rightarrow> ret ()
     | Some v \<Rightarrow> sq (set_share a (\<lambda>sh. sh\<lparr>sh_guest_account := Some v\<rparr>))
                  (or_else EINVAL (usm_add_guest_account sys v)))"

definition set_read_only :: "bool \<Rightarrow> ksmbd_share \<Rightarrow> ksmbd_share" where
  "set_read_only ro sh =
    (if ro then clear_share_flag KSMBD_SHARE_FLAG_WRITEABLE (set_share_flag KSMBD_SHARE_FLAG_READONLY sh)
     else set_share_flag KSMBD_SHARE_FLAG_WRITEABLE (clear_share_flag KSMBD_SHARE_FLAG_READONLY sh))"

definition first_of :: "'a option \<Rightarrow> 'a option \<Rightarrow> 'a option" where
  "first_of x y = (case x of None \<Rightarrow> y | Some _ \<Rightarrow> x)"

definition conf_access :: "group_kv \<Rightarrow> ksmbd_share \<Rightarrow> ksmbd_share" where
  "conf_access kv sh =
    (let sh = conf_set kv 4 (\<lambda>v. set_read_only (cp_get_group_kv_bool v)) sh;
         sh = conf_flag kv 5 KSMBD_SHARE_FLAG_BROWSEABLE sh
     in if group_kv_steal kv 4 \<noteq> None then sh
        else case first_of (group_kv_steal kv 29) (first_of (group_kv_steal kv 7) (group_kv_steal kv 6)) of
               None \<Rightarrow> sh | Some v \<Rightarrow> set_read_only (\<not> cp_get_group_kv_bool v) sh)"

definition conf_masks :: "group_kv \<Rightarrow> ksmbd_share \<Rightarrow> ksmbd_share" where
  "conf_masks kv sh =
    (let sh = conf_flag kv 8 KSMBD_SHARE_FLAG_STORE_DOS_ATTRS sh;
         sh = conf_flag kv 9 KSMBD_SHARE_FLAG_OPLOCKS sh;
         sh = conf_set kv 10 (\<lambda>v sh. sh\<lparr>sh_create_mask := ucast (cp_get_group_kv_long_base v 8)\<rparr>) sh;
         sh = conf_set kv 11 (\<lambda>v sh. sh\<lparr>sh_directory_mask := ucast (cp_get_group_kv_long_base v 8)\<rparr>) sh;
         sh = conf_set kv 12 (\<lambda>v sh. sh\<lparr>sh_force_create_mode := ucast (cp_get_group_kv_long_base v 8)\<rparr>) sh
     in conf_set kv 13 (\<lambda>v sh. sh\<lparr>sh_force_directory_mode := ucast (cp_get_group_kv_long_base v 8)\<rparr>) sh)"

definition conf_force :: "nat \<Rightarrow> (bytes \<Rightarrow> ksmbd_share \<Rightarrow> cerr + ksmbd_share) \<Rightarrow> group_kv \<Rightarrow> addr \<Rightarrow> ('x shm_scheme, unit) act" where
  "conf_force c force kv a = (case group_kv_steal kv c of None \<Rightarrow> ret ()
     | Some v \<Rightarrow> bnd (get_share a) (\<lambda>sh. case force v sh of Inl e \<Rightarrow> fail e | Inr sh' \<Rightarrow> set_share a (\<lambda>_. sh')))"

definition conf_users :: "sysdb \<Rightarrow> nat \<Rightarrow> share_users \<Rightarrow> group_kv \<Rightarrow> addr \<Rightarrow> ('x shm_scheme, unit) act" where
  "conf_users sys c m kv a = (case group_kv_steal kv c of None \<Rightarrow> ret ()
     | Some v \<Rightarrow> add_users_map sys a m (cp_get_group_kv_list v))"

definition conf_user_lists :: "sysdb \<Rightarrow> group_kv \<Rightarrow> addr \<Rightarrow> ('x shm_scheme, unit) act" where
  "conf_user_lists sys kv a =
     sq (conf_users sys 17 KSMBD_SHARE_VALID_USERS_MAP kv a)
    (sq (conf_users sys 18 KSMBD_SHARE_INVALID_USERS_MAP kv a)
    (sq (conf_users sys 19 KSMBD_SHARE_READ_LIST_MAP kv a)
    (sq (conf_users sys 20 KSMBD_SHARE_WRITE_LIST_MAP kv a)
        (conf_users sys 21 KSMBD_SHARE_ADMIN_USERS_MAP kv a))))"

definition conf_limits :: "group_kv \<Rightarrow> ksmbd_share \<Rightarrow> ksmbd_share" where
  "conf_limits kv sh =
    (let sh = conf_set kv 22 (\<lambda>v. add_hosts_map KSMBD_SHARE_HOSTS_ALLOW_MAP (cp_get_group_kv_list v)) sh;
         sh = conf_set kv 23 (\<lambda>v. add_hosts_map KSMBD_SHARE_HOSTS_DENY_MAP (cp_get_group_kv_list v)) sh
     in conf_set kv 24 (\<lambda>v sh. let n = to_int (unat (cp_memparse v)) in
          sh\<lparr>sh_max_connections := (if n \<le> 0 \<or> n > KSMBD_CONF_MAX_CONNECTIONS then KSMBD_CONF_MAX_CONNECTIONS else n)\<rparr>) sh)"

definition conf_veto :: "group_kv \<Rightarrow> ksmbd_share \<Rightarrow> ksmbd_share" where
  "conf_veto kv = conf_set kv 25 (\<lambda>v sh.
     if test_share_flag sh KSMBD_SHARE_FLAG_PIPE then sh
     else let veto = (if v \<noteq> [] \<and> hd v = 0x2F then tl v else v)
          in make_veto_list (sh\<lparr>sh_veto_list := Some veto, sh_veto_list_sz := to_int (length veto)\<rparr>))"

definition conf_vfs :: "group_kv \<Rightarrow> ksmbd_share \<Rightarrow> ksmbd_share" where
  "conf_vfs kv sh =
    (let sh = conf_flag kv 26 KSMBD_SHARE_FLAG_INHERIT_OWNER sh;
         sh = conf_flag kv 27 KSMBD_SHARE_FLAG_FOLLOW_SYMLINKS sh;
         sh = conf_set kv 28 (\<lambda>v sh. foldl (\<lambda>sh p.
                if p = bytes_of ''acl_xattr'' then set_share_flag KSMBD_SHARE_FLAG_ACL_XATTR sh
                else if p = bytes_of ''streams_xattr'' then set_share_flag KSMBD_SHARE_FLAG_STREAMS sh else sh)
              (clear_share_flag KSMBD_SHARE_FLAG_STREAMS (clear_share_flag KSMBD_SHARE_FLAG_ACL_XATTR sh))
              (cp_get_group_kv_list v)) sh;
         sh = conf_set kv 37 (\<lambda>v sh. if cp_get_group_kv_bool v
                then clear_share_flag KSMBD_SHARE_FLAG_STREAMS_DISABLED (set_share_flag KSMBD_SHARE_FLAG_STREAMS sh)
                else set_share_flag KSMBD_SHARE_FLAG_STREAMS_DISABLED (clear_share_flag KSMBD_SHARE_FLAG_STREAMS sh)) sh
     in conf_flag kv 38 KSMBD_SHARE_FLAG_ACL_XATTR sh)"

definition conf_fruit :: "group_kv \<Rightarrow> ksmbd_share \<Rightarrow> ksmbd_share" where
  "conf_fruit kv sh =
    (let sh = conf_flag kv 30 KSMBD_SHARE_FLAG_CROSSMNT sh;
         sh = conf_flag kv 31 KSMBD_SHARE_FLAG_FRUIT_TIME_MACHINE sh;
         sh = conf_set kv 32 (\<lambda>v sh. sh\<lparr>sh_time_machine_max_size := cp_memparse v\<rparr>) sh;
         sh = conf_flag kv 33 KSMBD_SHARE_FLAG_FRUIT_FINDER_INFO sh;
         sh = conf_flag kv 34 KSMBD_SHARE_FLAG_FRUIT_RFORK_SIZE sh;
         sh = conf_flag kv 35 KSMBD_SHARE_FLAG_FRUIT_MAX_ACCESS sh
     in conf_flag kv 36 KSMBD_SHARE_FLAG_CONTINUOUS_AVAILABILITY sh)"

definition process_share_conf_kv :: "sysdb \<Rightarrow> group_kv \<Rightarrow> addr \<Rightarrow> ('x shm_scheme, unit) act" where
  "process_share_conf_kv sys kv a =
     sq (conf_comment sys kv a)
    (sq (set_share a (conf_path_guest_ok kv))
    (sq (conf_guest_account sys kv a)
    (sq (set_share a (conf_masks kv \<circ> conf_access kv))
    (sq (conf_force 14 (force_group sys) kv a)
    (sq (conf_force 15 (force_user sys) kv a)
    (sq (set_share a (conf_flag kv 16 KSMBD_SHARE_FLAG_HIDE_DOT_FILES))
    (sq (conf_user_lists sys kv a)
        (set_share a (conf_fruit kv \<circ> conf_vfs kv \<circ> conf_veto kv \<circ> conf_limits kv)))))))))"

definition init_share_from_group :: "sysdb \<Rightarrow> bool \<Rightarrow> bytes \<Rightarrow> group_kv \<Rightarrow> addr \<Rightarrow> ('x shm_scheme, unit) act" where
  "init_share_from_group sys is_ipc name kv a =
     sq (set_share a (\<lambda>sh. let sh = sh\<lparr>sh_name := name\<rparr> in
           if is_ipc then set_share_flag KSMBD_SHARE_FLAG_PIPE sh else sh))
        (process_share_conf_kv sys kv a)"

text \<open>The result of \<open>init_share_from_group\<close> decides, so its error does not end the caller.\<close>

definition attempt :: "('s, unit) act \<Rightarrow> ('s, bool) act" where
  "attempt m = (\<lambda>s. case m s of (Inl Fault, t) \<Rightarrow> (Inl Fault, t) | (Inl (Err _), t) \<Rightarrow> (Inr False, t)
     | (Inr _, t) \<Rightarrow> (Inr True, t))"

definition shm_add_new_share :: "sysdb \<Rightarrow> bool \<Rightarrow> bytes \<Rightarrow> group_kv \<Rightarrow> ('x shm_scheme, unit) act" where
  "shm_add_new_share sys is_ipc name kv =
     bnd (reads shares_next) (\<lambda>a.
     sq (modify (\<lambda>s. s\<lparr>shares := (shares s)(a \<mapsto> new_ksmbd_share (should_reload_config s)), shares_next := Suc a\<rparr>))
    (bnd (attempt (init_share_from_group sys is_ipc name kv a)) (\<lambda>ok.
     bnd (get_share a) (\<lambda>sh.
     if \<not> ok then
       sq (kill_ksmbd_share a) (if test_share_flag sh KSMBD_SHARE_FLAG_PIPE then fail (Err EINVAL) else ret ())
     else bnd (reads (\<lambda>s. ht_lookup (shm_casefold_share_name sys) (shares_table s) (sh_name sh))) (\<lambda>r.
     if r \<noteq> None then kill_ksmbd_share a
     else bnd (reads (\<lambda>s. ht_insert (shm_casefold_share_name sys) (sh_name sh) a (shares_table s))) (\<lambda>(new, t).
     sq (modify (\<lambda>s. s\<lparr>shares_table := t\<rparr>))
        (if \<not> new then sq (kill_ksmbd_share a) (fail (Err EINVAL)) else ret ())))))))"

section \<open>Lookups\<close>

text \<open>Inl EINVAL: no such list; Inl ENOENT: not on the list.\<close>

definition shm_lookup_users_map :: "ksmbd_share \<Rightarrow> share_users \<Rightarrow> bytes \<Rightarrow> errno option" where
  "shm_lookup_users_map sh m name = (case sh_maps sh m of None \<Rightarrow> Some EINVAL
     | Some t \<Rightarrow> if ht_lookup id t name \<noteq> None then None else Some ENOENT)"

text \<open>\<open>inet_pton\<close>, given whether the family is \<open>AF_INET6\<close>; a success fills 16 or 4 bytes.\<close>

type_synonym inet_pton = "bool \<Rightarrow> bytes \<Rightarrow> bytes option"

definition match_host_cidr :: "inet_pton \<Rightarrow> bytes \<Rightarrow> bytes \<Rightarrow> bool" where
  "match_host_cidr pton pattern addr =
    (case split_at 0x2F pattern of None \<Rightarrow> pattern = addr
     | Some (network, rest) \<Rightarrow>
        if network = [] \<or> length network \<ge> 47 then pattern = addr
        else case strtol 10 rest of None \<Rightarrow> pattern = addr
        | Some (l, endp, erange) \<Rightarrow>
           let prefix_len = to_int (nat (l mod 2 ^ 64)) in
           if erange \<or> endp \<noteq> [] \<or> prefix_len < 0 then pattern = addr
           else let v6 = (0x3A \<in> set network) in
           case pton v6 network of None \<Rightarrow> pattern = addr
           | Some net_addr \<Rightarrow> (case pton v6 addr of None \<Rightarrow> pattern = addr
           | Some host_addr \<Rightarrow>
              let addr_len = (if v6 then 16 else 4) in
              if prefix_len > addr_len * 8 then pattern = addr
              else let full_bytes = nat (prefix_len div 8); remaining_bits = nat (prefix_len mod 8) in
                take full_bytes net_addr = take full_bytes host_addr
                \<and> (0 < remaining_bits \<longrightarrow>
                     (let mask = push_bit (8 - remaining_bits) 0xFF :: byte in
                      net_addr ! full_bytes AND mask = host_addr ! full_bytes AND mask))))"

definition shm_lookup_hosts_map :: "inet_pton \<Rightarrow> ksmbd_share \<Rightarrow> share_hosts \<Rightarrow> bytes \<Rightarrow> errno option" where
  "shm_lookup_hosts_map pton sh m host =
    (case (case m of KSMBD_SHARE_HOSTS_ALLOW_MAP \<Rightarrow> sh_hosts_allow_map sh | KSMBD_SHARE_HOSTS_DENY_MAP \<Rightarrow> sh_hosts_deny_map sh) of
       None \<Rightarrow> Some EINVAL
     | Some t \<Rightarrow> if list_ex (\<lambda>pattern. match_host_cidr pton pattern host) t then None else Some ENOENT)"

definition shm_open_connection :: "addr \<Rightarrow> ('x shm_scheme, unit) act" where
  "shm_open_connection a =
     bnd (get_share a) (\<lambda>sh.
     if sh_max_connections sh \<noteq> 0 \<and> sh_num_connections sh \<ge> sh_max_connections sh then fail (Err EINVAL)
     else set_share a (sh_num_connections_update (\<lambda>n. n + 1)))"

definition shm_close_connection :: "addr option \<Rightarrow> ('x shm_scheme, unit) act" where
  "shm_close_connection p = (case p of None \<Rightarrow> ret ()
     | Some a \<Rightarrow> set_share a (\<lambda>sh. if sh_num_connections sh > 0
          then sh_num_connections_update (\<lambda>n. n - 1) sh else sh))"

section \<open>The share-config response\<close>

definition shm_share_config_payload_size :: "smbconf_global \<Rightarrow> ksmbd_share option \<Rightarrow> errno + nat" where
  "shm_share_config_payload_size gc share =
    (case share of None \<Rightarrow> Inr 0
     | Some sh \<Rightarrow>
        if test_share_flag sh KSMBD_SHARE_FLAG_PIPE then Inr 0
        else case sh_path sh of None \<Rightarrow> Inl EINVAL
        | Some path \<Rightarrow>
           if path = [] then Inl EINVAL
           else let path_sz = length path + 1 + (case root_dir gc of None \<Rightarrow> 0 | Some r \<Rightarrow> length r);
                    veto_sz = (if sh_veto_list sh \<noteq> None \<and> sh_veto_list_sz sh > 0 then nat (sh_veto_list_sz sh) else 0);
                    sz = (if veto_sz \<noteq> 0 then veto_sz + 1 else 0) + path_sz
                in if sz > 2 ^ 31 - 1 then Inl EOVERFLOW else Inr sz)"

record ksmbd_share_config_response =
  sres_handle :: u32
  sres_flags :: u32
  sres_create_mask :: u16
  sres_directory_mask :: u16
  sres_force_create_mode :: u16
  sres_force_directory_mode :: u16
  sres_force_uid :: u16
  sres_force_gid :: u16
  sres_share_name :: bytes
  sres_time_machine_max_size :: u64
  sres_payload_sz :: u32
  sres_veto_list_sz :: u32
  sres_payload :: bytes

text \<open>\<open>g_strlcpy\<close> into an array of \<open>n\<close> bytes, and \<open>g_snprintf\<close> of a string at an offset of a
  buffer: the terminated prefix that fits.\<close>

definition strlcpy :: "bytes \<Rightarrow> bytes \<Rightarrow> nat \<Rightarrow> bytes" where
  "strlcpy dst src n = overwrite 0 (take (n - 1) src @ [0]) dst"

definition share_config_head :: "ksmbd_share \<Rightarrow> ksmbd_share_config_response \<Rightarrow> ksmbd_share_config_response" where
  "share_config_head sh resp = resp\<lparr>sres_flags := sh_flags sh, sres_create_mask := sh_create_mask sh,
     sres_directory_mask := sh_directory_mask sh, sres_force_create_mode := sh_force_create_mode sh,
     sres_force_directory_mode := sh_force_directory_mode sh, sres_force_uid := sh_force_uid sh,
     sres_force_gid := sh_force_gid sh, sres_time_machine_max_size := sh_time_machine_max_size sh,
     sres_share_name := strlcpy (sres_share_name resp) (sh_name sh) KSMBD_REQ_MAX_SHARE_NAME,
     sres_veto_list_sz := (if sh_veto_list sh \<noteq> None \<and> sh_veto_list_sz sh > 0
        then word_of_int (sh_veto_list_sz sh) else 0)\<rparr>"

text \<open>The writes to the payload, at a position with \<open>remaining\<close> bytes left.\<close>

definition payload_write :: "bytes \<Rightarrow> nat \<Rightarrow> bytes \<Rightarrow> cerr + bytes" where
  "payload_write buf pos bs = (if pos + length bs \<le> length buf then Inr (overwrite pos bs buf) else Inl Fault)"

definition payload_path :: "smbconf_global \<Rightarrow> bytes \<Rightarrow> bytes \<Rightarrow> nat \<Rightarrow> nat \<Rightarrow> cerr + bytes \<times> bool" where
  "payload_path gc path buf pos remaining =
    (let text = (case root_dir gc of None \<Rightarrow> [] | Some r \<Rightarrow> r) @ path
     in case payload_write buf pos (take (remaining - 1) text @ [0]) of Inl e \<Rightarrow> Inl e
        | Inr buf \<Rightarrow> Inr (buf, length text < remaining))"

definition shm_handle_share_config_request ::
    "smbconf_global \<Rightarrow> ksmbd_share option \<Rightarrow> ksmbd_share_config_response \<Rightarrow> cerr + (errno option \<times> ksmbd_share_config_response)" where
  "shm_handle_share_config_request gc share resp =
    (case share of None \<Rightarrow> Inr (Some EINVAL, resp)
     | Some sh \<Rightarrow>
        let resp = share_config_head sh resp in
        if test_share_flag sh KSMBD_SHARE_FLAG_PIPE then Inr (None, resp)
        else case sh_path sh of
          None \<Rightarrow> Inr (Some EINVAL, resp\<lparr>sres_flags := 0, sres_payload_sz := 0\<rparr>)
        | Some path \<Rightarrow>
          let payload_sz = unat (sres_payload_sz resp); veto_sz = unat (sres_veto_list_sz resp) in
          if payload_sz = 0 then Inr (Some EINVAL, resp)
          else if veto_sz \<noteq> 0 \<and> veto_sz + 1 > payload_sz then Inr (Some EINVAL, resp)
          else if veto_sz \<noteq> 0 then
            (case sh_veto_list sh of None \<Rightarrow> Inl Fault
             | Some veto \<Rightarrow>
                if veto_sz > length veto then Inl Fault
                else case payload_write (sres_payload resp) 0 (take veto_sz veto @ [0]) of Inl e \<Rightarrow> Inl e
                | Inr buf \<Rightarrow>
                   if payload_sz - veto_sz - 1 = 0 then Inr (Some EINVAL, resp\<lparr>sres_payload := buf\<rparr>)
                   else case payload_path gc path buf (veto_sz + 1) (payload_sz - veto_sz - 1) of Inl e \<Rightarrow> Inl e
                   | Inr (buf, ok) \<Rightarrow> Inr (if ok then None else Some EINVAL, resp\<lparr>sres_payload := buf\<rparr>))
          else case payload_path gc path (sres_payload resp) 0 payload_sz of Inl e \<Rightarrow> Inl e
               | Inr (buf, ok) \<Rightarrow> Inr (if ok then None else Some EINVAL, resp\<lparr>sres_payload := buf\<rparr>))"

text \<open>What the kernel reads: \<open>ksmbd_share_config_path\<close>.\<close>

definition ksmbd_share_config_path :: "ksmbd_share_config_response \<Rightarrow> bytes" where
  "ksmbd_share_config_path sc =
     c_str (drop (if sres_veto_list_sz sc \<noteq> 0 then unat (sres_veto_list_sz sc) + 1 else 0) (sres_payload sc))"

section \<open>User operations leave the shares alone\<close>

definition usm_frame :: "('x usm_scheme, 'a) act \<Rightarrow> bool" where
  "usm_frame m \<longleftrightarrow> (\<forall>s. usm.more (snd (m s)) = usm.more s \<and> global_conf (snd (m s)) = global_conf s)"

named_theorems usm_frame \<open>frame of the user operations\<close>

lemma usm_frame_basic [usm_frame]:
  "usm_frame (ret x)" "usm_frame (fail e)" "usm_frame (reads f)" "usm_frame (get_user a)" "usm_frame (set_user a g)"
  by (auto simp: usm_frame_def act_simps get_user_def set_user_def split: option.split)

lemma usm_frame_bnd [usm_frame]:
  assumes "usm_frame m" and "\<And>x. usm_frame (f x)"
  shows "usm_frame (bnd m f)"
  unfolding usm_frame_def
proof
  fix s :: "'a usm_scheme"
  obtain r t where t: "m s = (r, t)" by (cases "m s")
  show "usm.more (snd (bnd m f s)) = usm.more s \<and> global_conf (snd (bnd m f s)) = global_conf s"
    using assms t unfolding usm_frame_def by (cases r) (simp_all add: bnd_def, metis snd_conv, metis snd_conv)
qed

lemma usm_frame_sq [usm_frame]: "usm_frame m \<Longrightarrow> usm_frame n \<Longrightarrow> usm_frame (sq m n)"
  by (simp add: sq_def usm_frame_bnd)

lemma usm_frame_if [usm_frame]: "usm_frame m \<Longrightarrow> usm_frame n \<Longrightarrow> usm_frame (if b then m else n)"
  by simp

lemma usm_frame_option [usm_frame]:
  "usm_frame m \<Longrightarrow> (\<And>x. usm_frame (f x)) \<Longrightarrow> usm_frame (case r of None \<Rightarrow> m | Some x \<Rightarrow> f x)"
  by (cases r) simp_all

lemma usm_frame_prod [usm_frame]: "(\<And>x y. usm_frame (f x y)) \<Longrightarrow> usm_frame (case r of (x, y) \<Rightarrow> f x y)"
  by (cases r) simp

lemma usm_frame_ignore [usm_frame]: "usm_frame m \<Longrightarrow> usm_frame (ignore m)"
  unfolding usm_frame_def ignore_def by (auto split: prod.splits sum.splits cerr.splits) (metis snd_conv)+

lemma usm_frame_or_else [usm_frame]: "usm_frame m \<Longrightarrow> usm_frame (or_else e m)"
  unfolding usm_frame_def or_else_def by (auto split: prod.splits sum.splits cerr.splits) (metis snd_conv)+

lemma usm_frame_modify [usm_frame]:
  "usm_frame (modify (\<lambda>s. s\<lparr>users := f s\<rparr>))" "usm_frame (modify (\<lambda>s. s\<lparr>users_table := t\<rparr>))"
  "usm_frame (modify (\<lambda>s. s\<lparr>users := f s, users_next := n\<rparr>))"
  by (simp_all add: usm_frame_def modify_def)

lemma usm_frame_users [usm_frame]:
  "usm_frame (kill_ksmbd_user a)" "usm_frame (usm_remove_user a)" "usm_frame (get_ksmbd_user a)"
  "usm_frame (put_ksmbd_user p)" "usm_frame (usm_lookup_user k)" "usm_frame (usm_add_new_user sys n w)"
  "usm_frame (usm_add_guest_account sys n)"
proof -
  show k: "usm_frame (kill_ksmbd_user a)" for a
    unfolding kill_ksmbd_user_def by (intro usm_frame)
  show r: "usm_frame (usm_remove_user a)" for a
    unfolding usm_remove_user_def by (intro usm_frame k)
  show "usm_frame (get_ksmbd_user a)" for a
    unfolding get_ksmbd_user_def by (intro usm_frame)
  then show l: "usm_frame (usm_lookup_user k)" for k
    unfolding usm_lookup_user_def by (intro usm_frame)
  show p: "usm_frame (put_ksmbd_user p)" for p
    unfolding put_ksmbd_user_def by (intro usm_frame r)
  show a: "usm_frame (usm_add_new_user sys n w)" for sys n w
    unfolding usm_add_new_user_def by (intro usm_frame k)
  show "usm_frame (usm_add_guest_account sys n)"
    unfolding usm_add_guest_account_def by (intro usm_frame a l p)
qed

lemma valid_frame:
  assumes "valid P m Q E" and "usm_frame m"
  shows "valid (\<lambda>s. P s \<and> usm.more s = x) m (\<lambda>r s. Q r s \<and> usm.more s = x) (\<lambda>s. E s \<and> usm.more s = x)"
proof (rule validI)
  fix s assume s: "P s \<and> usm.more s = x"
  from validD [OF assms(1) conjunct1 [OF s]] have "case m s of (Inr r, t) \<Rightarrow> Q r t | (Inl (Err e), t) \<Rightarrow> E t | (Inl Fault, t) \<Rightarrow> False" .
  moreover have "usm.more (snd (m s)) = x"
    using assms(2) s by (simp add: usm_frame_def)
  ultimately show "case m s of (Inr r, t) \<Rightarrow> Q r t \<and> usm.more t = x | (Inl (Err e), t) \<Rightarrow> E t \<and> usm.more t = x
      | (Inl Fault, t) \<Rightarrow> False"
    by (cases "m s"; cases "fst (m s)") (auto split: cerr.splits)
qed

section \<open>The invariant of the shares\<close>

definition share_ok :: "ksmbd_share \<Rightarrow> bool" where
  "share_ok sh \<longleftrightarrow> (case sh_veto_list sh of None \<Rightarrow> True | Some v \<Rightarrow> sh_veto_list_sz sh \<le> int (length v))
     \<and> \<not> (test_share_flag sh KSMBD_SHARE_FLAG_READONLY \<and> test_share_flag sh KSMBD_SHARE_FLAG_WRITEABLE)
     \<and> 0 \<le> sh_max_connections sh \<and> sh_max_connections sh \<le> KSMBD_CONF_MAX_CONNECTIONS"

text \<open>The users a share holds references to, and how many the shares hold together.\<close>

definition map_users :: "(bytes \<times> addr) list option \<Rightarrow> addr list" where
  "map_users m = (case m of None \<Rightarrow> [] | Some t \<Rightarrow> map snd t)"

definition share_held :: "ksmbd_share \<Rightarrow> addr list" where
  "share_held sh = concat (map (\<lambda>i. map_users (sh_maps sh i)) share_users_maps)"

definition held_by :: "ksmbd_share option \<Rightarrow> addr \<Rightarrow> nat" where
  "held_by p u = (case p of None \<Rightarrow> 0 | Some sh \<Rightarrow> count_list (share_held sh) u)"

definition held :: "(addr \<rightharpoonup> ksmbd_share) \<Rightarrow> addr \<Rightarrow> addr \<Rightarrow> nat" where
  "held m nx u = (\<Sum>a<nx. held_by (m a) u)"

text \<open>
  \<open>hu\<close> and \<open>hs\<close> count the references to users and shares held by others; the shares in \<open>X\<close> are
  under construction and not yet in the table.
\<close>

definition share_inv :: "nat \<Rightarrow> addr set \<Rightarrow> (bytes \<times> addr) list \<Rightarrow> addr \<Rightarrow> ksmbd_share \<Rightarrow> bool" where
  "share_inv k X t a sh \<longleftrightarrow> share_ok sh
     \<and> (if a \<in> X then k = 0 \<and> \<not> sh_freeing sh \<and> sh_ref_count sh = 1
        else if sh_freeing sh then 0 < k \<and> sh_ref_count sh = int k
        else (sh_name sh, a) \<in> set t \<and> sh_ref_count sh = int k + 1)"

definition shm_tab :: "sysdb \<Rightarrow> (addr \<Rightarrow> nat) \<Rightarrow> addr set \<Rightarrow> 'x shm_scheme \<Rightarrow> bool" where
  "shm_tab sys hs X s \<longleftrightarrow> ht_ok (shm_casefold_share_name sys) (shares_table s)
     \<and> (\<forall>p \<in> set (shares_table s). snd p \<notin> X
          \<and> (\<exists>sh. shares s (snd p) = Some sh \<and> sh_name sh = fst p \<and> \<not> sh_freeing sh))
     \<and> (\<forall>a. case shares s a of None \<Rightarrow> hs a = 0
          | Some sh \<Rightarrow> a < shares_next s \<and> share_inv (hs a) X (shares_table s) a sh)"

definition shm_inv :: "sysdb \<Rightarrow> (addr \<Rightarrow> nat) \<Rightarrow> (addr \<Rightarrow> nat) \<Rightarrow> addr set \<Rightarrow> 'x shm_scheme \<Rightarrow> bool" where
  "shm_inv sys hu hs X s \<longleftrightarrow> usm_inv (\<lambda>u. hu u + held (shares s) (shares_next s) u) s \<and> shm_tab sys hs X s"

lemma shm_tabD:
  assumes "shm_tab sys hs X s"
  shows "ht_ok (shm_casefold_share_name sys) (shares_table s)"
    and "(n, a) \<in> set (shares_table s) \<Longrightarrow> a \<notin> X \<and> (\<exists>sh. shares s a = Some sh \<and> sh_name sh = n \<and> \<not> sh_freeing sh)"
    and "shares s a = Some sh \<Longrightarrow> share_inv (hs a) X (shares_table s) a sh"
    and "shares s a = Some sh \<Longrightarrow> a < shares_next s"
    and "shares s a = None \<Longrightarrow> hs a = 0"
proof -
  have "case shares s a of None \<Rightarrow> hs a = 0 | Some sh \<Rightarrow> a < shares_next s \<and> share_inv (hs a) X (shares_table s) a sh"
    using assms by (simp only: shm_tab_def)
  then show "shares s a = Some sh \<Longrightarrow> share_inv (hs a) X (shares_table s) a sh"
    "shares s a = Some sh \<Longrightarrow> a < shares_next s" "shares s a = None \<Longrightarrow> hs a = 0" by simp_all
qed (use assms in \<open>auto simp: shm_tab_def\<close>)

lemma shm_tabI:
  assumes "ht_ok (shm_casefold_share_name sys) (shares_table s)"
    and "\<And>n a. (n, a) \<in> set (shares_table s) \<Longrightarrow> a \<notin> X \<and> (\<exists>sh. shares s a = Some sh \<and> sh_name sh = n \<and> \<not> sh_freeing sh)"
    and "\<And>a sh. shares s a = Some sh \<Longrightarrow> share_inv (hs a) X (shares_table s) a sh"
    and "\<And>a sh. shares s a = Some sh \<Longrightarrow> a < shares_next s" and "\<And>a. shares s a = None \<Longrightarrow> hs a = 0"
  shows "shm_tab sys hs X s"
  using assms by (auto simp: shm_tab_def split: option.split)

lemma shm_inv_table:
  assumes "shm_inv sys hu hs X s" and "(n, a) \<in> set (shares_table s)"
  shows "\<exists>sh. shares s a = Some sh \<and> sh_name sh = n \<and> \<not> sh_freeing sh \<and> share_ok sh \<and> sh_ref_count sh = int (hs a) + 1 \<and> a \<notin> X"
  using assms shm_tabD(2,3) [of sys hs X s] by (fastforce simp: shm_inv_def share_inv_def)

lemma shm_inv_held:
  assumes "shm_inv sys hu hs X s" and "0 < hs a"
  shows "\<exists>sh. shares s a = Some sh \<and> share_ok sh"
  using assms shm_tabD(3,5) [of sys hs X s a] by (cases "shares s a") (auto simp: shm_inv_def share_inv_def)

lemma usm_inv_shares [simp]:
  "usm_inv h (s\<lparr>shares := f\<rparr>) = usm_inv h s" "usm_inv h (s\<lparr>shares_table := t\<rparr>) = usm_inv h s"
  "usm_inv h (s\<lparr>shares_next := n\<rparr>) = usm_inv h s"
  by (simp_all add: usm_inv_def cong: option.case_cong)

lemma held_update:
  assumes "a < nx"
  shows "held (m(a := p)) nx u + held_by (m a) u = held m nx u + held_by p u"
proof -
  have "held (m(a := p)) nx u = held_by p u + (\<Sum>b \<in> {..<nx} - {a}. held_by (m b) u)"
    unfolding held_def using assms by (subst sum.remove [of _ a]) (auto intro!: sum.cong)
  moreover have "held m nx u = held_by (m a) u + (\<Sum>b \<in> {..<nx} - {a}. held_by (m b) u)"
    unfolding held_def using assms by (subst sum.remove [of _ a]) auto
  ultimately show ?thesis by simp
qed

lemma held_update_same: "held_by p u = held_by (m a) u \<Longrightarrow> a < nx \<Longrightarrow> held (m(a := p)) nx u = held m nx u"
  using held_update [of a nx m p u] by simp

lemma shm_tab_more: "usm.more s = usm.more t \<Longrightarrow> shm_tab sys hs X s = shm_tab sys hs X (t :: 'x shm_scheme)"
  by (cases s; cases t) (simp add: shm_tab_def cong: option.case_cong)

lemma shm_more: "usm.more s = usm.more (t :: 'x shm_scheme) \<Longrightarrow>
   shares s = shares t \<and> shares_table s = shares_table t \<and> shares_next s = shares_next t
   \<and> should_reload_config s = should_reload_config t"
  by (cases s; cases t) simp

text \<open>A change of one share that keeps its name, its lists and its state.\<close>

lemma shm_inv_update:
  assumes s: "shm_inv sys hu hs X s" and sh: "shares s a = Some sh" and n: "sh_name sh' = sh_name sh"
    and f: "sh_freeing sh' = sh_freeing sh" and m: "sh_maps sh' = sh_maps sh" and ok: "share_ok sh'"
    and r: "sh_ref_count sh' - sh_ref_count sh = int j - int (hs a)" and "a \<in> X \<Longrightarrow> j = 0" and "sh_freeing sh \<Longrightarrow> 0 < j"
  shows "shm_inv sys hu (hs(a := j)) X (s\<lparr>shares := (shares s)(a \<mapsto> sh')\<rparr>)"
proof -
  have t: "shm_tab sys hs X s" using s by (simp add: shm_inv_def)
  have "held_by (Some sh') u = held_by (shares s a) u" for u
    using m sh by (simp add: held_by_def share_held_def)
  then have "held ((shares s)(a \<mapsto> sh')) (shares_next s) u = held (shares s) (shares_next s) u" for u
    using shm_tabD(4) [OF t sh] by (rule held_update_same)
  moreover have "shm_tab sys (hs(a := j)) X (s\<lparr>shares := (shares s)(a \<mapsto> sh')\<rparr>)"
  proof (rule shm_tabI)
    fix m b assume "(m, b) \<in> set (shares_table (s\<lparr>shares := (shares s)(a \<mapsto> sh')\<rparr>))"
    then show "b \<notin> X \<and> (\<exists>sh. shares (s\<lparr>shares := (shares s)(a \<mapsto> sh')\<rparr>) b = Some sh \<and> sh_name sh = m \<and> \<not> sh_freeing sh)"
      using shm_tabD(2) [OF t, of m b] sh n f by auto
  next
    fix b v assume "shares (s\<lparr>shares := (shares s)(a \<mapsto> sh')\<rparr>) b = Some v"
    then show "share_inv ((hs(a := j)) b) X (shares_table (s\<lparr>shares := (shares s)(a \<mapsto> sh')\<rparr>)) b v"
      using shm_tabD(3) [OF t, of b v] shm_tabD(3) [OF t sh] assms(3,4,6-)
      by (cases "b = a"; cases "sh_freeing sh"; cases "a \<in> X") (simp_all add: share_inv_def)
  qed (use shm_tabD [OF t] sh in \<open>auto split: if_splits\<close>)
  ultimately show ?thesis
    using s by (simp add: shm_inv_def)
qed

lemma valid_returns_unit: "valid P m (\<lambda>_. Q) (\<lambda>_. False) \<Longrightarrow> P s \<Longrightarrow> \<exists>t. m s = (Inr (), t) \<and> Q t"
  using valid_returns [of P m "\<lambda>_. Q" s] by auto

lemma put_users_valid:
  "valid (usm_inv (\<lambda>u. g u + count_list us u)) (each (\<lambda>u. put_ksmbd_user (Some u)) us) (\<lambda>_. usm_inv g) (\<lambda>_. False)"
proof (induction us)
  case Nil
  then show ?case by (simp add: valid_ret)
next
  case (Cons u us)
  let ?h = "\<lambda>v. g v + count_list (u # us) v"
  have "?h(u := ?h u - 1) = (\<lambda>v. g v + count_list us v)" by (auto simp: fun_eq_iff)
  with put_ksmbd_user_ok [of ?h u] have
    "valid (usm_inv ?h) (put_ksmbd_user (Some u)) (\<lambda>_. usm_inv (\<lambda>v. g v + count_list us v)) (\<lambda>_. False)" by simp
  from valid_sq [OF this Cons] show ?case by simp
qed

lemma each_append: "each f (xs @ ys) = sq (each f xs) (each f ys)"
proof (induction xs)
  case (Cons x xs)
  then show ?case by (simp add: sq_def bnd_assoc)
qed (simp add: sq_def)

lemma each_map: "each f (map g xs) = each (\<lambda>x. f (g x)) xs"
  by (induction xs) simp_all

lemma each_concat: "each f (concat (map g xs)) = each (\<lambda>x. each f (g x)) xs"
  by (induction xs) (simp_all add: each_append)

lemma free_user_map_eq: "free_user_map m = each (\<lambda>u. put_ksmbd_user (Some u)) (map_users m)"
  by (cases m) (simp_all add: free_user_map_def map_users_def each_map)

lemma free_user_maps_eq:
  "each (\<lambda>i. free_user_map (sh_maps sh i)) share_users_maps = each (\<lambda>u. put_ksmbd_user (Some u)) (share_held sh)"
  by (simp add: share_held_def each_concat free_user_map_eq)

lemma usm_frame_each [usm_frame]: "(\<And>x. usm_frame (f x)) \<Longrightarrow> usm_frame (each f xs)"
  by (induction xs) (simp_all add: usm_frame)

text \<open>Freeing a share gives the users of its lists back.\<close>

lemma kill_ksmbd_share_eq:
  fixes s :: "'x shm_scheme"
  assumes i: "usm_inv (\<lambda>u. hu u + held (shares s) (shares_next s) u) s" and sh: "shares s a = Some sh"
    and n: "a < shares_next s"
  shows "\<exists>t. kill_ksmbd_share a s = (Inr (), t) \<and> usm.more t = usm.more (s\<lparr>shares := (shares s)(a := None)\<rparr>)
     \<and> usm_inv (\<lambda>u. hu u + held (shares t) (shares_next t) u) t"
proof -
  let ?g = "\<lambda>u. hu u + held ((shares s)(a := None)) (shares_next s) u"
  have "held ((shares s)(a := None)) (shares_next s) u + count_list (share_held sh) u = held (shares s) (shares_next s) u" for u
    using held_update [OF n, of "shares s" None u] sh by (simp add: held_by_def)
  then have i: "usm_inv (\<lambda>u. ?g u + count_list (share_held sh) u) s"
    using i by (simp add: add.assoc)
  obtain t where t: "each (\<lambda>u. put_ksmbd_user (Some u)) (share_held sh) s = (Inr (), t)" "usm_inv ?g t"
    using valid_returns_unit [OF put_users_valid i] by blast
  have "usm_frame (each (\<lambda>u. put_ksmbd_user (Some u)) (share_held sh) :: ('x shm_scheme, unit) act)"
    by (rule usm_frame_each [OF usm_frame_users(4)])
  then have "usm.more (snd (each (\<lambda>u. put_ksmbd_user (Some u)) (share_held sh) s)) = usm.more s"
    by (simp only: usm_frame_def)
  then have m: "usm.more t = usm.more s" by (simp add: t(1))
  let ?t = "t\<lparr>shares := (shares t)(a := None)\<rparr>"
  have "usm.more ?t = usm.more (s\<lparr>shares := (shares s)(a := None)\<rparr>)"
    using m by (cases s; cases t) simp
  moreover have "usm_inv (\<lambda>u. hu u + held (shares ?t) (shares_next ?t) u) ?t"
    using t(2) shm_more [OF m] by simp
  moreover have "kill_ksmbd_share a s = (Inr (), ?t)"
    using sh t(1) by (simp add: kill_ksmbd_share_def get_share_def free_user_maps_eq modify_def)
  ultimately show ?thesis by blast
qed

lemma kill_ksmbd_share_ok:
  assumes "usm_inv (\<lambda>u. hu u + held (shares s) (shares_next s) u) s" and "shares s a = Some sh"
    and "a < shares_next s" and tab: "shm_tab sys hs X (s\<lparr>shares := (shares s)(a := None)\<rparr>)"
  shows "\<exists>t. kill_ksmbd_share a s = (Inr (), t) \<and> shm_inv sys hu hs X t"
  using kill_ksmbd_share_eq [OF assms(1-3)] tab by (auto simp: shm_inv_def dest: shm_tab_more)

lemma shm_tab_drop:
  assumes tab: "shm_tab sys hs X s" and sh: "shares s a = Some sh" and gone: "a \<in> X \<or> sh_freeing sh"
  shows "shm_tab sys (hs(a := 0)) (X - {a}) (s\<lparr>shares := (shares s)(a := None)\<rparr>)"
proof (rule shm_tabI)
  fix n b assume "(n, b) \<in> set (shares_table (s\<lparr>shares := (shares s)(a := None)\<rparr>))"
  then show "b \<notin> X - {a} \<and> (\<exists>sh. shares (s\<lparr>shares := (shares s)(a := None)\<rparr>) b = Some sh \<and> sh_name sh = n \<and> \<not> sh_freeing sh)"
    using shm_tabD(2) [OF tab, of n b] sh gone by auto
next
  fix b v assume "shares (s\<lparr>shares := (shares s)(a := None)\<rparr>) b = Some v"
  then show "share_inv ((hs(a := 0)) b) (X - {a}) (shares_table (s\<lparr>shares := (shares s)(a := None)\<rparr>)) b v"
    using shm_tabD(3) [OF tab, of b v] by (auto simp: share_inv_def split: if_splits)
qed (use shm_tabD(1,4,5) [OF tab] in \<open>auto split: if_splits\<close>)

lemma held_ref [simp]: "share_held (sh_ref_count_update f sh) = share_held sh"
    "share_held (sh_freeing_update g sh) = share_held sh"
  by (simp_all add: share_held_def)

lemma share_ok_ref [simp]: "share_ok (sh_ref_count_update f sh) = share_ok sh"
    "share_ok (sh_freeing_update g sh) = share_ok sh" "share_ok (sh_num_connections_update f sh) = share_ok sh"
  by (simp_all add: share_ok_def test_share_flag_def cong: option.case_cong)

lemma shm_lookup_share_ok:
  "valid (\<lambda>s. shm_inv sys hu hs X s) (shm_lookup_share sys k)
     (\<lambda>r. case r of None \<Rightarrow> shm_inv sys hu hs X | Some a \<Rightarrow> shm_inv sys hu (hs(a := Suc (hs a))) X) (\<lambda>_. False)"
proof (rule validI)
  fix s :: "'a shm_scheme"
  assume s: "shm_inv sys hu hs X s"
  show "case shm_lookup_share sys k s of (Inr r, t) \<Rightarrow> (case r of None \<Rightarrow> shm_inv sys hu hs X
        | Some a \<Rightarrow> shm_inv sys hu (hs(a := Suc (hs a))) X) t
      | (Inl (Err e), t) \<Rightarrow> False | (Inl Fault, t) \<Rightarrow> False"
  proof (cases "ht_lookup (shm_casefold_share_name sys) (shares_table s) k")
    case None
    with s show ?thesis by (simp add: shm_lookup_share_def act_simps bnd_def)
  next
    case (Some a)
    then obtain n where "(n, a) \<in> set (shares_table s)"
      by (auto dest: ht_lookup_SomeD)
    from shm_inv_table [OF s this] obtain sh where sh: "shares s a = Some sh" "\<not> sh_freeing sh" "share_ok sh"
      "sh_ref_count sh = int (hs a) + 1" "a \<notin> X" by auto
    have "shm_inv sys hu (hs(a := Suc (hs a))) X (s\<lparr>shares := (shares s)(a \<mapsto> sh_ref_count_update (\<lambda>n. n + 1) sh)\<rparr>)"
      by (rule shm_inv_update [OF s sh(1)]) (use sh in simp_all)
    with Some sh show ?thesis
      by (simp add: shm_lookup_share_def get_ksmbd_share_def get_share_def set_share_def act_simps bnd_def sq_def)
  qed
qed

lemma put_ksmbd_share_ok:
  assumes "0 < hs a"
  shows "valid (\<lambda>s. shm_inv sys hu hs X s) (put_ksmbd_share sys (Some a)) (\<lambda>_. shm_inv sys hu (hs(a := hs a - 1)) X) (\<lambda>_. False)"
proof (rule validI)
  fix s :: "'a shm_scheme"
  assume s: "shm_inv sys hu hs X s"
  with assms obtain sh where sh: "shares s a = Some sh" "share_ok sh"
    by (auto dest: shm_inv_held)
  let ?sh = "sh_ref_count_update (\<lambda>n. n - 1) sh"
  let ?s = "s\<lparr>shares := (shares s)(a \<mapsto> ?sh)\<rparr>"
  have i: "share_inv (hs a) X (shares_table s) a sh"
    using s sh by (auto simp: shm_inv_def dest: shm_tabD(3))
  then have x: "a \<notin> X" and r: "sh_ref_count sh = (if sh_freeing sh then int (hs a) else int (hs a) + 1)"
    using assms by (auto simp: share_inv_def split: if_splits)
  show "case put_ksmbd_share sys (Some a) s of (Inr x, t) \<Rightarrow> shm_inv sys hu (hs(a := hs a - 1)) X t
      | (Inl (Err e), t) \<Rightarrow> False | (Inl Fault, t) \<Rightarrow> False"
  proof (cases "sh_freeing sh \<and> hs a = 1")
    case True
    have tab: "shm_tab sys hs X s" and u: "usm_inv (\<lambda>u. hu u + held (shares s) (shares_next s) u) s"
      using s by (simp_all add: shm_inv_def)
    have "held (shares ?s) (shares_next ?s) v = held (shares s) (shares_next s) v" for v
      using held_update_same [of "Some ?sh" v "shares s" a] shm_tabD(4) [OF tab sh(1)] sh by (simp add: held_by_def)
    moreover have "shm_tab sys (hs(a := 0)) X (?s\<lparr>shares := (shares ?s)(a := None)\<rparr>)"
      using shm_tab_drop [OF tab sh(1)] True x by simp
    ultimately have "\<exists>t. kill_ksmbd_share a ?s = (Inr (), t) \<and> shm_inv sys hu (hs(a := 0)) X t"
      using kill_ksmbd_share_ok [of hu ?s a ?sh sys "hs(a := 0)" X] u shm_tabD(4) [OF tab sh(1)] by auto
    with True x r sh show ?thesis
      by (auto simp: put_ksmbd_share_def set_share_def get_share_def shm_remove_share_def ignore_def
          act_simps bnd_def sq_def)
  next
    case False
    have "shm_inv sys hu (hs(a := hs a - 1)) X ?s"
      by (rule shm_inv_update [OF s sh(1)]) (use sh x assms False in auto)
    moreover have "sh_ref_count ?sh \<noteq> 0"
      using False r assms by auto
    ultimately show ?thesis
      using sh by (simp add: put_ksmbd_share_def set_share_def get_share_def act_simps bnd_def sq_def)
  qed
qed


interpretation shr: refcounted "shm_lookup_share sys" "put_ksmbd_share sys"
    "\<lambda>hs. shm_inv sys hu hs X :: 'x shm_scheme \<Rightarrow> bool" for sys hu X
  by (unfold_locales, rule shm_lookup_share_ok, erule put_ksmbd_share_ok, simp add: put_ksmbd_share_def ret_def)

section \<open>Construction keeps the invariant\<close>

definition building :: "sysdb \<Rightarrow> (addr \<Rightarrow> nat) \<Rightarrow> (addr \<Rightarrow> nat) \<Rightarrow> addr set \<Rightarrow> addr \<Rightarrow> 'x shm_scheme \<Rightarrow> bool" where
  "building sys hu hs X a s \<longleftrightarrow> shm_inv sys hu hs X s \<and> a \<in> X \<and> shares s a \<noteq> None"

text \<open>A share under construction may change all but its reference count and state; the users its
  lists hold are counted.\<close>

lemma building_update:
  assumes b: "building sys hu hs X a s" and sh: "shares s a = Some sh" and ok: "share_ok sh'"
    and f: "sh_freeing sh' = sh_freeing sh" and r: "sh_ref_count sh' = sh_ref_count sh"
    and h: "\<And>u. hu u + count_list (share_held sh) u = hu' u + count_list (share_held sh') u"
  shows "building sys hu' hs X a (s\<lparr>shares := (shares s)(a \<mapsto> sh')\<rparr>)"
proof -
  have t: "shm_tab sys hs X s" and x: "a \<in> X" and u: "usm_inv (\<lambda>u. hu u + held (shares s) (shares_next s) u) s"
    using b by (simp_all add: building_def shm_inv_def)
  have "hu' u + held ((shares s)(a \<mapsto> sh')) (shares_next s) u = hu u + held (shares s) (shares_next s) u" for u
    using held_update [OF shm_tabD(4) [OF t sh], of "shares s" "Some sh'" u] h [of u] sh by (simp add: held_by_def)
  moreover have "shm_tab sys hs X (s\<lparr>shares := (shares s)(a \<mapsto> sh')\<rparr>)"
  proof (rule shm_tabI)
    fix m c assume "(m, c) \<in> set (shares_table (s\<lparr>shares := (shares s)(a \<mapsto> sh')\<rparr>))"
    then show "c \<notin> X \<and> (\<exists>sh. shares (s\<lparr>shares := (shares s)(a \<mapsto> sh')\<rparr>) c = Some sh \<and> sh_name sh = m \<and> \<not> sh_freeing sh)"
      using shm_tabD(2) [OF t, of m c] x by auto
  next
    fix c v assume "shares (s\<lparr>shares := (shares s)(a \<mapsto> sh')\<rparr>) c = Some v"
    then show "share_inv (hs c) X (shares_table (s\<lparr>shares := (shares s)(a \<mapsto> sh')\<rparr>)) c v"
      using shm_tabD(3) [OF t, of c v] shm_tabD(3) [OF t sh] x ok f r
      by (cases "c = a") (simp_all add: share_inv_def)
  qed (use shm_tabD [OF t] sh in \<open>auto split: if_splits\<close>)
  ultimately show ?thesis
    using u x by (simp add: building_def shm_inv_def)
qed

lemma building_ok: "building sys hu hs X a s \<Longrightarrow> shares s a = Some sh \<Longrightarrow> share_ok sh"
  using shm_tabD(3) [of sys hs X s a sh] by (simp add: building_def shm_inv_def share_inv_def)

definition refines_share :: "(ksmbd_share \<Rightarrow> ksmbd_share) \<Rightarrow> bool" where
  "refines_share f \<longleftrightarrow> (\<forall>sh. share_ok sh \<longrightarrow> share_ok (f sh) \<and> sh_freeing (f sh) = sh_freeing sh
     \<and> sh_ref_count (f sh) = sh_ref_count sh \<and> share_held (f sh) = share_held sh)"

named_theorems refines_share \<open>updates that keep a share well formed\<close>

lemma set_share_building:
  assumes "refines_share f"
  shows "valid (building sys hu hs X a) (set_share a f) (\<lambda>_. building sys hu hs X a) E"
proof (rule validI)
  fix s :: "'a shm_scheme" assume b: "building sys hu hs X a s"
  then obtain sh where sh: "shares s a = Some sh" by (auto simp: building_def)
  have "building sys hu hs X a (s\<lparr>shares := (shares s)(a \<mapsto> f sh)\<rparr>)"
    using assms building_ok [OF b sh] by (intro building_update [OF b sh]) (auto simp: refines_share_def)
  with sh show "case set_share a f s of (Inr x, t) \<Rightarrow> building sys hu hs X a t | (Inl (Err e), t) \<Rightarrow> E t | (Inl Fault, t) \<Rightarrow> False"
    by (simp add: set_share_def)
qed

text \<open>An operation on the users alone.\<close>

lemma users_building:
  assumes "\<And>q. valid (usm_inv (\<lambda>u. hu u + q u)) m (\<lambda>r. usm_inv (\<lambda>u. g r u + q u)) (usm_inv (\<lambda>u. e u + q u))"
    and "usm_frame (m :: ('x shm_scheme, 'r) act)"
  shows "valid (building sys hu hs X a) m (\<lambda>r. building sys (g r) hs X a) (building sys e hs X a)"
proof (rule validI)
  fix s :: "'x shm_scheme" assume b: "building sys hu hs X a s"
  let ?q = "held (shares s) (shares_next s)"
  have "usm_inv (\<lambda>u. hu u + ?q u) s \<and> usm.more s = usm.more s" using b by (simp add: building_def shm_inv_def)
  note v = validD [OF valid_frame [OF assms] this]
  have *: "building sys h hs X a t" if "usm_inv (\<lambda>u. h u + ?q u) t" "usm.more t = usm.more s" for h t
    using that b shm_more [OF that(2)] shm_tab_more [OF that(2)] by (simp add: building_def shm_inv_def)
  show "case m s of (Inr r, t) \<Rightarrow> building sys (g r) hs X a t | (Inl (Err x), t) \<Rightarrow> building sys e hs X a t
      | (Inl Fault, t) \<Rightarrow> False"
    using v by (cases "m s"; cases "fst (m s)") (auto split: cerr.splits intro: *)
qed

lemma lookup_user_building:
  "valid (building sys hu hs X a) (usm_lookup_user k)
     (\<lambda>r. building sys (case r of None \<Rightarrow> hu | Some u \<Rightarrow> hu(u := Suc (hu u))) hs X a) (building sys hu hs X a)"
proof (rule users_building)
  fix q :: "addr \<Rightarrow> nat"
  have "(\<lambda>v. hu v + q v)(u := Suc (hu u + q u)) = (\<lambda>v. (hu(u := Suc (hu u))) v + q v)" for u
    by (simp add: fun_eq_iff)
  then show "valid (usm_inv (\<lambda>u. hu u + q u)) (usm_lookup_user k)
      (\<lambda>r. usm_inv (\<lambda>u. (case r of None \<Rightarrow> hu | Some u \<Rightarrow> hu(u := Suc (hu u))) u + q u)) (usm_inv (\<lambda>u. hu u + q u))"
    by (intro valid_post [OF valid_total [OF usm_lookup_user_ok]]) (auto split: option.splits)
qed (rule usm_frame_users)

lemma put_user_building:
  "valid (building sys (hu(u := Suc (hu u))) hs X a) (put_ksmbd_user (Some u)) (\<lambda>_. building sys hu hs X a) (building sys hu hs X a)"
proof (rule users_building)
  fix q :: "addr \<Rightarrow> nat"
  let ?h = "\<lambda>v. (hu(u := Suc (hu u))) v + q v"
  have "?h(u := ?h u - 1) = (\<lambda>v. hu v + q v)" by (simp add: fun_eq_iff)
  with usr.put_law [of ?h u] have "valid (usm_inv ?h) (put_ksmbd_user (Some u)) (\<lambda>_. usm_inv (\<lambda>v. hu v + q v)) (\<lambda>_. False)" by simp
  then show "valid (usm_inv ?h) (put_ksmbd_user (Some u)) (\<lambda>_. usm_inv (\<lambda>v. hu v + q v)) (usm_inv (\<lambda>v. hu v + q v))"
    by (rule valid_total)
qed (rule usm_frame_users)

lemma guest_account_building:
  "decoder_ok sys' \<Longrightarrow> valid (building sys hu hs X a) (usm_add_guest_account sys' n) (\<lambda>_. building sys hu hs X a) (building sys hu hs X a)"
  by (rule users_building [OF usm_add_guest_account_valid usm_frame_users(7)])

lemma add_user_to_map_building:
  "valid (building sys hu hs X a) (add_user_to_map a m name) (\<lambda>_. building sys hu hs X a) (building sys hu hs X a)"
proof (cases "name = []")
  case False
  let ?b = "building sys hu hs X a :: 'a shm_scheme \<Rightarrow> bool"
  let ?b' = "\<lambda>u. building sys (hu(u := Suc (hu u))) hs X a :: 'a shm_scheme \<Rightarrow> bool"
  have u: "valid (?b' u) (bnd (get_user u) (\<lambda>user. bnd (get_share a) (\<lambda>sh.
        let t = (case sh_maps sh m of None \<Rightarrow> [] | Some t \<Rightarrow> t) in
        if ht_lookup id t (u_name user) \<noteq> None then put_ksmbd_user (Some u)
        else set_share a (\<lambda>sh. sh\<lparr>sh_maps := (sh_maps sh)(m := Some (snd (ht_insert id (u_name user) u t)))\<rparr>))))
      (\<lambda>_. ?b) ?b" for u
  proof (rule validI)
    fix s assume b: "?b' u s"
    then obtain sh where sh: "shares s a = Some sh" by (auto simp: building_def)
    from b have "usm_inv (\<lambda>v. (hu(u := Suc (hu u))) v + held (shares s) (shares_next s) v) s"
      by (simp add: building_def shm_inv_def)
    from usm_inv_held [OF this, of u] obtain user where user: "users s u = Some user" by auto
    let ?t = "case sh_maps sh m of None \<Rightarrow> [] | Some t \<Rightarrow> t"
    let ?sh = "sh\<lparr>sh_maps := (sh_maps sh)(m := Some (snd (ht_insert id (u_name user) u ?t)))\<rparr>"
    have "?b (s\<lparr>shares := (shares s)(a \<mapsto> ?sh)\<rparr>)" if "ht_lookup id ?t (u_name user) = None"
    proof (rule building_update [OF b sh])
      show "share_ok ?sh" using building_ok [OF b sh] by (simp add: share_ok_def test_share_flag_def cong: option.case_cong)
      fix v show "(hu(u := Suc (hu u))) v + count_list (share_held sh) v = hu v + count_list (share_held ?sh) v"
        using that by (cases m) (auto simp: share_held_def share_users_maps_def map_users_def ht_insert_new split: option.splits)
    qed simp_all
    then show "case bnd (get_user u) (\<lambda>user. bnd (get_share a) (\<lambda>sh.
        let t = (case sh_maps sh m of None \<Rightarrow> [] | Some t \<Rightarrow> t) in
        if ht_lookup id t (u_name user) \<noteq> None then put_ksmbd_user (Some u)
        else set_share a (\<lambda>sh. sh\<lparr>sh_maps := (sh_maps sh)(m := Some (snd (ht_insert id (u_name user) u t)))\<rparr>))) s
      of (Inr r, t) \<Rightarrow> ?b t | (Inl (Err e), t) \<Rightarrow> ?b t | (Inl Fault, t) \<Rightarrow> False"
      using validD [OF put_user_building b] sh user by (simp add: get_user_def get_share_def set_share_def bnd_def Let_def)
  qed
  show ?thesis
    unfolding add_user_to_map_def if_not_P [OF False]
  proof (rule valid_bnd [OF lookup_user_building])
    fix r show "valid (building sys (case r of None \<Rightarrow> hu | Some u \<Rightarrow> hu(u := Suc (hu u))) hs X a)
      (case r of None \<Rightarrow> ret () | Some u \<Rightarrow> bnd (get_user u) (\<lambda>user. bnd (get_share a) (\<lambda>sh.
        let t = (case sh_maps sh m of None \<Rightarrow> [] | Some t \<Rightarrow> t) in
        if ht_lookup id t (u_name user) \<noteq> None then put_ksmbd_user (Some u)
        else set_share a (\<lambda>sh. sh\<lparr>sh_maps := (sh_maps sh)(m := Some (snd (ht_insert id (u_name user) u t)))\<rparr>))))
      (\<lambda>_. ?b) ?b"
      using u by (cases r) (simp_all only: option.case, rule valid_ret, simp)
  qed
qed (simp add: add_user_to_map_def valid_ret)

lemma init_users_map_building:
  "valid (building sys hu hs X a) (init_users_map a m) (\<lambda>_. building sys hu hs X a) E"
  unfolding init_users_map_def
proof (rule set_share_building)
  have "share_held (sh\<lparr>sh_maps := (sh_maps sh)(m := Some [])\<rparr>) = share_held sh" if "sh_maps sh m = None" for sh
    using that by (cases m) (simp_all add: share_held_def share_users_maps_def map_users_def)
  then show "refines_share (\<lambda>sh. if sh_maps sh m = None then sh\<lparr>sh_maps := (sh_maps sh)(m := Some [])\<rparr> else sh)"
    by (simp add: refines_share_def share_ok_def test_share_flag_def cong: option.case_cong)
qed

lemma add_users_building:
  "valid (building sys hu hs X a) (add_users_plain a m names) (\<lambda>_. building sys hu hs X a) (building sys hu hs X a)"
  "valid (building sys hu hs X a) (add_users_map sys' a m names) (\<lambda>_. building sys hu hs X a) (building sys hu hs X a)"
proof -
  show p: "valid (building sys hu hs X a) (add_users_plain a m names) (\<lambda>_. building sys hu hs X a) (building sys hu hs X a)" for names
    unfolding add_users_plain_def
    by (rule valid_sq [OF init_users_map_building], rule valid_each, rule add_user_to_map_building)
  show "valid (building sys hu hs X a) (add_users_map sys' a m names) (\<lambda>_. building sys hu hs X a) (building sys hu hs X a)"
    unfolding add_users_map_def
    by (rule valid_sq [OF init_users_map_building], rule valid_each)
      (auto intro!: valid_sq [OF p p] add_user_to_map_building valid_ret split: option.split)
qed

lemma conf_users_building:
  "valid (building sys hu hs X a) (conf_users sys' c m kv a) (\<lambda>_. building sys hu hs X a) (building sys hu hs X a)"
  unfolding conf_users_def by (rule valid_option, rule valid_ret, assumption, rule add_users_building(2))

lemma conf_user_lists_building:
  "valid (building sys hu hs X a) (conf_user_lists sys' kv a) (\<lambda>_. building sys hu hs X a) (building sys hu hs X a)"
  unfolding conf_user_lists_def by (rule valid_sq [OF conf_users_building] conf_users_building)+

subsection \<open>The updates\<close>

lemma refines_share_comp [refines_share]: "refines_share f \<Longrightarrow> refines_share g \<Longrightarrow> refines_share (f \<circ> g)"
  by (simp add: refines_share_def)

lemma refines_share_id [refines_share]: "refines_share (\<lambda>sh. sh)"
  by (simp add: refines_share_def)

lemma refines_share_app: "refines_share f \<Longrightarrow> refines_share g \<Longrightarrow> refines_share (\<lambda>sh. f (g sh))"
  by (simp add: refines_share_def)

lemma refines_share_if [refines_share]:
  "refines_share f \<Longrightarrow> refines_share g \<Longrightarrow> refines_share (if b then f else g)"
  by (simp add: refines_share_def)

lemma conf_set_refines [refines_share]: "(\<And>v. refines_share (f v)) \<Longrightarrow> refines_share (conf_set kv c f)"
  by (simp add: refines_share_def conf_set_def split: option.split)

lemma readonly_bit: "test_share_flag sh KSMBD_SHARE_FLAG_READONLY = bit (sh_flags sh) 3"
    "test_share_flag sh KSMBD_SHARE_FLAG_WRITEABLE = bit (sh_flags sh) 2"
  by (simp_all add: test_share_flag_def share_flag_defs and_exp_eq_0_iff_not_bit [of _ 3, simplified] and_exp_eq_0_iff_not_bit [of _ 2, simplified])

definition share_base :: "ksmbd_share \<Rightarrow> bool" where
  "share_base sh \<longleftrightarrow> (case sh_veto_list sh of None \<Rightarrow> True | Some v \<Rightarrow> sh_veto_list_sz sh \<le> int (length v))
     \<and> 0 \<le> sh_max_connections sh \<and> sh_max_connections sh \<le> KSMBD_CONF_MAX_CONNECTIONS"

lemma share_base_flags [simp]: "share_base (sh\<lparr>sh_flags := f\<rparr>) = share_base sh"
  by (simp add: share_base_def cong: option.case_cong)

lemma share_ok_bits: "share_ok sh \<longleftrightarrow> share_base sh \<and> \<not> (bit (sh_flags sh) 3 \<and> bit (sh_flags sh) 2)"
  by (auto simp: share_ok_def share_base_def readonly_bit)

lemma clear_share_flag_refines [refines_share]: "refines_share (clear_share_flag f)"
  by (auto simp: refines_share_def clear_share_flag_def share_ok_bits bit_and_iff share_held_def)

lemma set_share_flag_refines: "\<not> bit f 3 \<Longrightarrow> \<not> bit f 2 \<Longrightarrow> refines_share (set_share_flag f)"
  by (auto simp: refines_share_def set_share_flag_def share_ok_bits bit_or_iff share_held_def)

lemma flag_bits: "\<not> bit f 3 \<and> \<not> bit f 2" if "f \<in> {KSMBD_SHARE_FLAG_GUEST_OK, KSMBD_SHARE_FLAG_BROWSEABLE,
    KSMBD_SHARE_FLAG_STORE_DOS_ATTRS, KSMBD_SHARE_FLAG_OPLOCKS, KSMBD_SHARE_FLAG_PIPE, KSMBD_SHARE_FLAG_HIDE_DOT_FILES,
    KSMBD_SHARE_FLAG_INHERIT_OWNER, KSMBD_SHARE_FLAG_STREAMS, KSMBD_SHARE_FLAG_FOLLOW_SYMLINKS, KSMBD_SHARE_FLAG_ACL_XATTR,
    KSMBD_SHARE_FLAG_CROSSMNT, KSMBD_SHARE_FLAG_CONTINUOUS_AVAILABILITY, KSMBD_SHARE_FLAG_FRUIT_TIME_MACHINE,
    KSMBD_SHARE_FLAG_FRUIT_FINDER_INFO, KSMBD_SHARE_FLAG_FRUIT_RFORK_SIZE, KSMBD_SHARE_FLAG_FRUIT_MAX_ACCESS,
    KSMBD_SHARE_FLAG_STREAMS_DISABLED}"
  using that by (auto simp: share_flag_defs)

lemmas other_flag_refines [refines_share] = set_share_flag_refines [OF conjunct1 [OF flag_bits] conjunct2 [OF flag_bits]]

lemma conf_flag_refines: "\<not> bit f 3 \<and> \<not> bit f 2 \<Longrightarrow> refines_share (conf_flag kv c f)"
  unfolding conf_flag_def by (intro refines_share set_share_flag_refines) simp_all

lemma set_read_only_refines [refines_share]: "refines_share (set_read_only ro)"
  by (auto simp: refines_share_def set_read_only_def clear_share_flag_def set_share_flag_def share_ok_bits bit_and_iff
      bit_or_iff share_held_def share_flag_defs bit_not_iff)

text \<open>An update of fields that the invariant does not read.\<close>

lemma refines_shareI:
  assumes "\<And>sh. sh_flags (f sh) = sh_flags sh" "\<And>sh. share_base sh \<Longrightarrow> share_base (f sh)" "\<And>sh. sh_maps (f sh) = sh_maps sh"
    and "\<And>sh. sh_freeing (f sh) = sh_freeing sh" "\<And>sh. sh_ref_count (f sh) = sh_ref_count sh"
  shows "refines_share f"
  using assms by (simp add: refines_share_def share_ok_bits share_held_def)

lemma fields_refine [refines_share]:
  "refines_share (\<lambda>sh. sh\<lparr>sh_name := n\<rparr>)" "refines_share (\<lambda>sh. sh\<lparr>sh_comment := c\<rparr>)" "refines_share (\<lambda>sh. sh\<lparr>sh_path := c\<rparr>)"
  "refines_share (\<lambda>sh. sh\<lparr>sh_guest_account := c\<rparr>)" "refines_share (\<lambda>sh. sh\<lparr>sh_create_mask := m\<rparr>)"
  "refines_share (\<lambda>sh. sh\<lparr>sh_directory_mask := m\<rparr>)" "refines_share (\<lambda>sh. sh\<lparr>sh_force_create_mode := m\<rparr>)"
  "refines_share (\<lambda>sh. sh\<lparr>sh_force_directory_mode := m\<rparr>)" "refines_share (\<lambda>sh. sh\<lparr>sh_time_machine_max_size := z\<rparr>)"
  "refines_share (add_hosts_map hm names)"
  by (rule refines_shareI; simp add: share_base_def add_hosts_map_def split: share_hosts.split cong: option.case_cong)+

lemma max_connections_refines [refines_share]:
  "0 \<le> n \<Longrightarrow> n \<le> KSMBD_CONF_MAX_CONNECTIONS \<Longrightarrow> refines_share (\<lambda>sh. sh\<lparr>sh_max_connections := n\<rparr>)"
  by (rule refines_shareI; simp add: share_base_def cong: option.case_cong)

lemma make_veto_list_refines: "refines_share (\<lambda>sh. make_veto_list (sh\<lparr>sh_veto_list := Some v, sh_veto_list_sz := to_int (length v)\<rparr>))"
proof (rule refines_shareI)
  have "to_int (length v) \<le> int (length v)" 
    using zmod_le_nonneg_dividend [of "int (length v) + 2 ^ 31" "2 ^ 32"] by (simp add: to_int_def)
  then show "share_base sh \<Longrightarrow> share_base (make_veto_list (sh\<lparr>sh_veto_list := Some v, sh_veto_list_sz := to_int (length v)\<rparr>))" for sh
    by (simp add: share_base_def make_veto_list_def)
qed (simp_all add: make_veto_list_def)

lemma conf_access_refines [refines_share]: "refines_share (conf_access kv)"
proof -
  have b: "refines_share (conf_flag kv 5 KSMBD_SHARE_FLAG_BROWSEABLE)"
    by (rule conf_flag_refines [OF flag_bits]) simp
  have r: "refines_share (conf_set kv 4 (\<lambda>v. set_read_only (cp_get_group_kv_bool v)))"
    by (intro refines_share)
  show ?thesis
    using b r set_read_only_refines unfolding conf_access_def Let_def refines_share_def by (auto split: option.split)
qed

text \<open>A sequence of updates, written as a composition.\<close>

lemma refines_share_chain: "refines_share f \<Longrightarrow> (\<And>sh. h sh = f (g sh)) \<Longrightarrow> refines_share g \<Longrightarrow> refines_share h"
  by (simp add: refines_share_def)

lemmas conf_flag_ok = conf_flag_refines [OF flag_bits]

lemma conf_path_guest_ok_refines: "refines_share (conf_path_guest_ok kv)"
  by (rule refines_share_chain [OF conf_flag_ok conf_path_guest_ok_def]) (auto intro: refines_share)

lemma conf_masks_refines: "refines_share (conf_masks kv)"
proof -
  have f: "refines_share (\<lambda>sh. conf_flag kv 9 KSMBD_SHARE_FLAG_OPLOCKS (conf_flag kv 8 KSMBD_SHARE_FLAG_STORE_DOS_ATTRS sh))"
    by (rule refines_share_chain [OF conf_flag_ok refl conf_flag_ok]) simp_all
  show ?thesis
    unfolding conf_masks_def Let_def
    by (rule refines_share_chain [OF conf_set_refines [OF fields_refine(8)] refl]
        refines_share_chain [OF conf_set_refines [OF fields_refine(7)] refl]
        refines_share_chain [OF conf_set_refines [OF fields_refine(6)] refl]
        refines_share_chain [OF conf_set_refines [OF fields_refine(5)] refl] f)+
qed

lemma conf_limits_refines: "refines_share (conf_limits kv)"
proof -
  let ?f = "\<lambda>v sh. let n = to_int (unat (cp_memparse v)) in
     sh\<lparr>sh_max_connections := (if n \<le> 0 \<or> n > KSMBD_CONF_MAX_CONNECTIONS then KSMBD_CONF_MAX_CONNECTIONS else n)\<rparr>"
  have "conf_limits kv = conf_set kv 24 ?f
     \<circ> conf_set kv 23 (\<lambda>v. add_hosts_map KSMBD_SHARE_HOSTS_DENY_MAP (cp_get_group_kv_list v))
     \<circ> conf_set kv 22 (\<lambda>v. add_hosts_map KSMBD_SHARE_HOSTS_ALLOW_MAP (cp_get_group_kv_list v))"
    by (rule ext) (simp add: conf_limits_def)
  moreover have "refines_share (conf_set kv 24 ?f)"
    by (rule conf_set_refines) (simp add: Let_def max_connections_refines KSMBD_CONF_MAX_CONNECTIONS_def)
  moreover have "refines_share (conf_set kv c (\<lambda>v. add_hosts_map m (cp_get_group_kv_list v)))" for c m
    by (rule conf_set_refines [OF fields_refine(10)])
  ultimately show ?thesis
    by (simp only: refines_share_comp)
qed

lemma conf_fruit_refines: "refines_share (conf_fruit kv)"
proof -
  have "conf_fruit kv = conf_flag kv 36 KSMBD_SHARE_FLAG_CONTINUOUS_AVAILABILITY \<circ> conf_flag kv 35 KSMBD_SHARE_FLAG_FRUIT_MAX_ACCESS
     \<circ> conf_flag kv 34 KSMBD_SHARE_FLAG_FRUIT_RFORK_SIZE \<circ> conf_flag kv 33 KSMBD_SHARE_FLAG_FRUIT_FINDER_INFO
     \<circ> conf_set kv 32 (\<lambda>v sh. sh\<lparr>sh_time_machine_max_size := cp_memparse v\<rparr>)
     \<circ> conf_flag kv 31 KSMBD_SHARE_FLAG_FRUIT_TIME_MACHINE \<circ> conf_flag kv 30 KSMBD_SHARE_FLAG_CROSSMNT"
    by (rule ext) (simp add: conf_fruit_def)
  moreover have "refines_share (conf_set kv 32 (\<lambda>v sh. sh\<lparr>sh_time_machine_max_size := cp_memparse v\<rparr>))"
    by (rule conf_set_refines [OF fields_refine(9)])
  ultimately show ?thesis
    by (simp add: refines_share_comp conf_flag_ok)
qed

lemma refines_share_guard: "refines_share f \<Longrightarrow> refines_share (\<lambda>sh. if P sh then sh else f sh)"
  by (simp add: refines_share_def)

lemma conf_veto_refines: "refines_share (conf_veto kv)"
  unfolding conf_veto_def Let_def
  by (rule conf_set_refines, rule refines_share_guard, rule make_veto_list_refines)

lemma foldl_refines: "(\<And>p. refines_share (\<lambda>sh. f sh p)) \<Longrightarrow> refines_share (\<lambda>sh. foldl f sh ps)"
proof (induction ps)
  case (Cons p ps)
  then show ?case using refines_share_app [OF Cons(1) Cons(2) [of p]] by simp
qed (simp add: refines_share)

lemma conf_vfs_refines: "refines_share (conf_vfs kv)"
proof -
  let ?v = "\<lambda>sh p. if p = bytes_of ''acl_xattr'' then set_share_flag KSMBD_SHARE_FLAG_ACL_XATTR sh
      else if p = bytes_of ''streams_xattr'' then set_share_flag KSMBD_SHARE_FLAG_STREAMS sh else sh"
  let ?w = "\<lambda>v sh. foldl ?v (clear_share_flag KSMBD_SHARE_FLAG_STREAMS (clear_share_flag KSMBD_SHARE_FLAG_ACL_XATTR sh))
      (cp_get_group_kv_list v)"
  let ?s = "\<lambda>v sh. if cp_get_group_kv_bool v
      then clear_share_flag KSMBD_SHARE_FLAG_STREAMS_DISABLED (set_share_flag KSMBD_SHARE_FLAG_STREAMS sh)
      else set_share_flag KSMBD_SHARE_FLAG_STREAMS_DISABLED (clear_share_flag KSMBD_SHARE_FLAG_STREAMS sh)"
  note f = other_flag_refines [of KSMBD_SHARE_FLAG_ACL_XATTR] other_flag_refines [of KSMBD_SHARE_FLAG_STREAMS]
    other_flag_refines [of KSMBD_SHARE_FLAG_STREAMS_DISABLED] clear_share_flag_refines
  have "refines_share (\<lambda>sh. ?v sh p)" for p
    using f by (simp add: refines_share_def)
  from foldl_refines [OF this] have "refines_share (conf_set kv 28 ?w)"
    by (intro conf_set_refines, rule refines_share_chain [OF _ refl refines_share_chain [OF f(4) refl f(4)]])
  moreover have "refines_share (conf_set kv 37 ?s)"
    using f by (intro conf_set_refines) (simp add: refines_share_def)
  moreover have "conf_vfs kv = conf_flag kv 38 KSMBD_SHARE_FLAG_ACL_XATTR \<circ> conf_set kv 37 ?s \<circ> conf_set kv 28 ?w
     \<circ> conf_flag kv 27 KSMBD_SHARE_FLAG_FOLLOW_SYMLINKS \<circ> conf_flag kv 26 KSMBD_SHARE_FLAG_INHERIT_OWNER"
    by (rule ext) (simp add: conf_vfs_def)
  ultimately show ?thesis
    by (simp add: refines_share_comp conf_flag_ok)
qed

lemmas conf_refines = conf_path_guest_ok_refines conf_masks_refines conf_access_refines conf_limits_refines conf_veto_refines
  conf_vfs_refines conf_fruit_refines

lemma valid_or_else:
  assumes "valid P m Q E"
  shows "valid P (or_else e m) Q E"
proof (rule validI)
  fix s assume "P s"
  from validD [OF assms this]
  show "case or_else e m s of (Inr x, t) \<Rightarrow> Q x t | (Inl (Err e), t) \<Rightarrow> E t | (Inl Fault, t) \<Rightarrow> False"
    by (cases "m s"; cases "fst (m s)") (auto simp: or_else_def split: cerr.splits)
qed

lemma valid_attempt:
  assumes "valid P m (\<lambda>_. Q) Q"
  shows "valid P (attempt m) (\<lambda>_. Q) E"
proof (rule validI)
  fix s assume "P s"
  from validD [OF assms this]
  show "case attempt m s of (Inr x, t) \<Rightarrow> Q t | (Inl (Err e), t) \<Rightarrow> E t | (Inl Fault, t) \<Rightarrow> False"
    by (cases "m s"; cases "fst (m s)") (auto simp: attempt_def split: cerr.splits)
qed

lemma conf_comment_building:
  "valid (building sys hu hs X a) (conf_comment sys' kv a) (\<lambda>_. building sys hu hs X a) (building sys hu hs X a)"
  unfolding conf_comment_def
  by (intro valid_option valid_ret valid_sq [OF set_share_building [OF fields_refine(2)]] valid_if valid_fail; assumption)

lemma conf_guest_account_building:
  "decoder_ok sys' \<Longrightarrow>
   valid (building sys hu hs X a) (conf_guest_account sys' kv a) (\<lambda>_. building sys hu hs X a) (building sys hu hs X a)"
  unfolding conf_guest_account_def
  by (intro valid_option valid_ret valid_sq [OF set_share_building [OF fields_refine(4)]] valid_or_else guest_account_building)

lemma force_refines:
  "force_group sys n sh = Inr sh' \<Longrightarrow> share_ok sh \<Longrightarrow> share_ok sh' \<and> sh_freeing sh' = sh_freeing sh
     \<and> sh_ref_count sh' = sh_ref_count sh \<and> share_held sh' = share_held sh"
  "force_user sys n sh = Inr sh' \<Longrightarrow> share_ok sh \<Longrightarrow> share_ok sh' \<and> sh_freeing sh' = sh_freeing sh
     \<and> sh_ref_count sh' = sh_ref_count sh \<and> share_held sh' = share_held sh"
  by (auto simp: force_group_def force_user_def Let_def share_ok_bits share_base_def share_held_def
      split: option.splits if_splits cong: option.case_cong)

lemma conf_force_building:
  assumes "\<And>n sh sh'. force n sh = Inr sh' \<Longrightarrow> share_ok sh \<Longrightarrow> share_ok sh' \<and> sh_freeing sh' = sh_freeing sh
     \<and> sh_ref_count sh' = sh_ref_count sh \<and> share_held sh' = share_held sh"
    and "\<And>n sh. force n sh \<noteq> Inl Fault"
  shows "valid (building sys hu hs X a) (conf_force c force kv a) (\<lambda>_. building sys hu hs X a) (building sys hu hs X a)"
proof (rule validI)
  fix s :: "'a shm_scheme" assume b: "building sys hu hs X a s"
  then obtain sh where sh: "shares s a = Some sh" by (auto simp: building_def)
  show "case conf_force c force kv a s of (Inr x, t) \<Rightarrow> building sys hu hs X a t | (Inl (Err e), t) \<Rightarrow> building sys hu hs X a t
      | (Inl Fault, t) \<Rightarrow> False"
  proof (cases "group_kv_steal kv c")
    case (Some v)
    show ?thesis
    proof (cases "force v sh")
      case (Inl e)
      with b sh Some assms(2) [of v sh] show ?thesis
        by (cases e) (simp_all add: conf_force_def get_share_def bnd_def fail_def)
    next
      case (Inr sh')
      have "building sys hu hs X a (s\<lparr>shares := (shares s)(a \<mapsto> sh')\<rparr>)"
        using assms(1) [OF Inr building_ok [OF b sh]] by (intro building_update [OF b sh]) auto
      with sh Some Inr show ?thesis
        by (simp add: conf_force_def get_share_def set_share_def bnd_def)
    qed
  qed (use b in \<open>simp add: conf_force_def ret_def\<close>)
qed

lemma force_no_fault: "force_group sys n sh \<noteq> Inl Fault" "force_user sys n sh \<noteq> Inl Fault"
  by (auto simp: force_group_def force_user_def Let_def split: option.splits)

lemma init_share_building:
  assumes "decoder_ok sys'"
  shows "valid (building sys hu hs X a) (init_share_from_group sys' ipc name kv a)
     (\<lambda>_. building sys hu hs X a) (building sys hu hs X a)"
proof -
  note set = set_share_building [where E = "building sys hu hs X a"]
  have "refines_share (\<lambda>sh. let sh = sh\<lparr>sh_name := name\<rparr> in if ipc then set_share_flag KSMBD_SHARE_FLAG_PIPE sh else sh)"
    using fields_refine(1) [of name] refines_share_app [OF other_flag_refines fields_refine(1), of KSMBD_SHARE_FLAG_PIPE name]
    by (cases ipc) (simp_all add: Let_def)
  note n = set [OF this]
  note f = set [OF conf_flag_ok [of KSMBD_SHARE_FLAG_HIDE_DOT_FILES kv 16, simplified]]
    set [OF refines_share_comp [OF conf_masks_refines conf_access_refines]]
    set [OF refines_share_comp [OF refines_share_comp [OF refines_share_comp [OF conf_fruit_refines conf_vfs_refines] conf_veto_refines]
        conf_limits_refines]]
  show ?thesis
    unfolding init_share_from_group_def process_share_conf_kv_def
    by (rule n valid_sq [OF n] valid_sq [OF conf_comment_building] valid_sq [OF conf_guest_account_building [OF assms]]
        valid_sq [OF set [OF conf_path_guest_ok_refines]] valid_sq [OF f(2)] valid_sq [OF f(1)] f(3)
        valid_sq [OF conf_force_building [OF force_refines(1) force_no_fault(1)]]
        valid_sq [OF conf_force_building [OF force_refines(2) force_no_fault(2)]]
        valid_sq [OF conf_user_lists_building] | assumption)+
qed

lemma building_start:
  assumes s: "shm_inv sys hu hs {} s" and a: "a = shares_next s"
  shows "building sys hu hs {a} a (s\<lparr>shares := (shares s)(a \<mapsto> new_ksmbd_share r), shares_next := Suc a\<rparr>)"
proof -
  let ?s = "s\<lparr>shares := (shares s)(a \<mapsto> new_ksmbd_share r), shares_next := Suc a\<rparr>"
  have t: "shm_tab sys hs {} s" and u: "usm_inv (\<lambda>u. hu u + held (shares s) (shares_next s) u) s"
    using s by (simp_all add: shm_inv_def)
  have none: "shares s a = None" using shm_tabD(4) [OF t, of a] a by (cases "shares s a") auto
  have f: "sh_maps (new_ksmbd_share r) = (\<lambda>_. None)" "share_ok (new_ksmbd_share r)" "sh_ref_count (new_ksmbd_share r) = 1"
    "\<not> sh_freeing (new_ksmbd_share r)"
    by (auto simp: new_ksmbd_share_def set_share_flag_def share_ok_def Let_def test_share_flag_def share_flag_defs
        KSMBD_CONF_MAX_CONNECTIONS_def)
  have "held ((shares s)(a \<mapsto> new_ksmbd_share r)) (Suc a) v = held (shares s) (shares_next s) v" for v
    unfolding held_def using a f(1) by (auto simp: held_by_def share_held_def map_users_def share_users_maps_def intro!: sum.cong)
  moreover have "shm_tab sys hs {a} ?s"
  proof (rule shm_tabI)
    fix m c assume "(m, c) \<in> set (shares_table ?s)"
    then show "c \<notin> {a} \<and> (\<exists>sh. shares ?s c = Some sh \<and> sh_name sh = m \<and> \<not> sh_freeing sh)"
      using shm_tabD(2) [OF t, of m c] none by auto
  next
    fix c v assume "shares ?s c = Some v"
    then show "share_inv (hs c) {a} (shares_table ?s) c v"
      using shm_tabD(3) [OF t, of c v] shm_tabD(5) [OF t none] f by (cases "c = a") (auto simp: share_inv_def)
  qed (use shm_tabD(1,5) [OF t] shm_tabD(4) [OF t, THEN less_SucI] a in \<open>auto split: if_splits\<close>)
  ultimately show ?thesis
    using u by (simp add: building_def shm_inv_def)
qed

lemma building_kill:
  assumes "building sys hu hs {a} a s"
  shows "\<exists>t. kill_ksmbd_share a s = (Inr (), t) \<and> shm_inv sys hu hs {} t"
proof -
  have t: "shm_tab sys hs {a} s" and u: "usm_inv (\<lambda>u. hu u + held (shares s) (shares_next s) u) s"
    using assms by (simp_all add: building_def shm_inv_def)
  obtain sh where sh: "shares s a = Some sh" using assms by (auto simp: building_def)
  have "hs a = 0" using shm_tabD(3) [OF t sh] by (simp add: share_inv_def)
  then have "hs(a := 0) = hs" by auto
  with shm_tab_drop [OF t sh] show ?thesis
    by (intro kill_ksmbd_share_ok [OF u sh shm_tabD(4) [OF t sh]]) simp
qed

lemma building_insert:
  assumes b: "building sys hu hs {a} a s" and sh: "shares s a = Some sh"
    and new: "ht_lookup (shm_casefold_share_name sys) (shares_table s) (sh_name sh) = None"
  shows "shm_inv sys hu hs {} (s\<lparr>shares_table := shares_table s @ [(sh_name sh, a)]\<rparr>)"
proof -
  have t: "shm_tab sys hs {a} s" and u: "usm_inv (\<lambda>u. hu u + held (shares s) (shares_next s) u) s"
    using b by (simp_all add: building_def shm_inv_def)
  have i: "share_inv (hs a) {a} (shares_table s) a sh" by (rule shm_tabD(3) [OF t sh])
  have "shm_tab sys hs {} (s\<lparr>shares_table := shares_table s @ [(sh_name sh, a)]\<rparr>)"
  proof (rule shm_tabI)
    show "ht_ok (shm_casefold_share_name sys) (shares_table (s\<lparr>shares_table := shares_table s @ [(sh_name sh, a)]\<rparr>))"
      using ht_ok_insert [OF shm_tabD(1) [OF t], of "sh_name sh" a] new by (simp add: ht_insert_new)
    fix n c assume "(n, c) \<in> set (shares_table (s\<lparr>shares_table := shares_table s @ [(sh_name sh, a)]\<rparr>))"
    then show "c \<notin> {} \<and> (\<exists>v. shares (s\<lparr>shares_table := shares_table s @ [(sh_name sh, a)]\<rparr>) c = Some v \<and> sh_name v = n \<and> \<not> sh_freeing v)"
      using shm_tabD(2) [OF t, of n c] sh i by (auto simp: share_inv_def)
  next
    fix c v assume "shares (s\<lparr>shares_table := shares_table s @ [(sh_name sh, a)]\<rparr>) c = Some v"
    then show "share_inv (hs c) {} (shares_table (s\<lparr>shares_table := shares_table s @ [(sh_name sh, a)]\<rparr>)) c v"
      using shm_tabD(3) [OF t, of c v] sh i by (auto simp: share_inv_def split: if_splits)
  qed (use shm_tabD [OF t] in auto)
  then show ?thesis
    using u by (simp add: shm_inv_def)
qed

lemma shm_add_new_share_valid:
  assumes "decoder_ok sys"
  shows "valid (shm_inv sys hu hs {}) (shm_add_new_share sys ipc name kv) (\<lambda>_. shm_inv sys hu hs {}) (shm_inv sys hu hs {})"
proof (rule validI)
  fix s :: "'a shm_scheme" assume s: "shm_inv sys hu hs {} s"
  let ?a = "shares_next s"
  let ?s = "s\<lparr>shares := (shares s)(?a \<mapsto> new_ksmbd_share (should_reload_config s)), shares_next := Suc ?a\<rparr>"
  obtain ok t where t: "attempt (init_share_from_group sys ipc name kv ?a) ?s = (Inr ok, t)" "building sys hu hs {?a} ?a t"
    using valid_returns [OF valid_attempt [OF init_share_building [OF assms]] building_start [OF s refl]] by blast
  obtain sh where sh: "shares t ?a = Some sh" using t(2) by (auto simp: building_def)
  obtain v where v: "kill_ksmbd_share ?a t = (Inr (), v)" "shm_inv sys hu hs {} v"
    using building_kill [OF t(2)] by blast
  note eval = shm_add_new_share_def reads_def modify_def get_share_def ret_def fail_def
  show "case shm_add_new_share sys ipc name kv s of (Inr x, t) \<Rightarrow> shm_inv sys hu hs {} t
      | (Inl (Err e), t) \<Rightarrow> shm_inv sys hu hs {} t | (Inl Fault, t) \<Rightarrow> False"
  proof (cases "ht_lookup (shm_casefold_share_name sys) (shares_table t) (sh_name sh)")
    case None
    from building_insert [OF t(2) sh this] show ?thesis
      using t(1) sh v None by (simp add: eval ht_insert_new)
  next
    case (Some b)
    then show ?thesis using t(1) sh v by (simp add: eval)
  qed
qed

text \<open>A table entry is removed: the share goes at once, or stays for those who hold it.\<close>

lemma shm_tab_unlink:
  assumes t: "shm_tab sys hs X s" and i: "(n, a) \<in> set (shares_table s)"
    and m: "shares s' = (shares s)(a := p)" "shares_next s' = shares_next s"
      "shares_table s' = snd (ht_remove (shm_casefold_share_name sys) n (shares_table s))"
    and p: "case p of None \<Rightarrow> hs a = 0 | Some sh \<Rightarrow> share_ok sh \<and> sh_freeing sh \<and> 0 < hs a \<and> sh_ref_count sh = int (hs a)"
  shows "shm_tab sys hs X s'"
proof (rule shm_tabI)
  have k: "c \<noteq> a" if "(k, c) \<in> set (shares_table s')" for k c
  proof
    assume "c = a"
    with that m have "(k, a) \<in> set (shares_table s)" "shm_casefold_share_name sys k \<noteq> shm_casefold_share_name sys n"
      by (auto simp: set_ht_remove)
    with i shm_tabD(2) [OF t, of k a] shm_tabD(2) [OF t, of n a] show False by auto
  qed
  show "k' \<notin> X \<and> (\<exists>sh. shares s' k' = Some sh \<and> sh_name sh = k \<and> \<not> sh_freeing sh)" if "(k, k') \<in> set (shares_table s')" for k k'
    using that k [OF that] m shm_tabD(2) [OF t, of k k'] by (auto simp: set_ht_remove)
  show "share_inv (hs c) X (shares_table s') c v" if "shares s' c = Some v" for c v
  proof (cases "c = a")
    case True
    with that m p shm_tabD(2) [OF t i] show ?thesis by (simp add: share_inv_def)
  next
    case False
    with that m have v: "shares s c = Some v" by simp
    have "shm_casefold_share_name sys (sh_name v) \<noteq> shm_casefold_share_name sys n" if "(sh_name v, c) \<in> set (shares_table s)"
      using ht_lookup_SomeI [OF shm_tabD(1) [OF t] that, of n] ht_lookup_SomeI [OF shm_tabD(1) [OF t] i, of n] False by auto
    with shm_tabD(3) [OF t v] m show ?thesis by (auto simp: share_inv_def set_ht_remove split: if_splits)
  qed
qed (use shm_tabD(1,4,5) [OF t] shm_tabD(2) [OF t i] m p in \<open>auto split: if_splits option.splits\<close>)

lemma shm_remove_entry_ok:
  fixes s :: "'x shm_scheme"
  assumes s: "shm_inv sys hu hs X s" and i: "(n, a) \<in> set (shares_table s)"
  shows "\<exists>t. shm_remove_entry sys (n, a) s = (Inr (), t) \<and> shm_inv sys hu hs X t
     \<and> shares_table t = snd (ht_remove (shm_casefold_share_name sys) n (shares_table s))"
proof -
  obtain sh where sh: "shares s a = Some sh" "\<not> sh_freeing sh" "share_ok sh" "sh_ref_count sh = int (hs a) + 1"
    using shm_inv_table [OF s i] by auto
  have t: "shm_tab sys hs X s" and u: "usm_inv (\<lambda>u. hu u + held (shares s) (shares_next s) u) s"
    using s by (simp_all add: shm_inv_def)
  let ?sh = "sh_ref_count_update (\<lambda>n. n - 1) (sh_freeing_update (\<lambda>_. True) sh)"
  let ?s = "s\<lparr>shares := (shares s)(a \<mapsto> ?sh)\<rparr>"
  let ?T = "\<lambda>t. t\<lparr>shares_table := snd (ht_remove (shm_casefold_share_name sys) n (shares_table t))\<rparr>"
  have h: "held (shares ?s) (shares_next ?s) v = held (shares s) (shares_next s) v" for v
    using held_update_same [of "Some ?sh" v "shares s" a] shm_tabD(4) [OF t sh(1)] sh by (simp add: held_by_def)
  note eval = shm_remove_entry_def put_ksmbd_share_def set_share_def get_share_def shm_remove_share_def ignore_def modify_def ret_def
  show ?thesis
  proof (cases "hs a = 0")
    case True
    obtain v where v: "kill_ksmbd_share a ?s = (Inr (), v)" "usm.more v = usm.more (?s\<lparr>shares := (shares ?s)(a := None)\<rparr>)"
        "usm_inv (\<lambda>u. hu u + held (shares v) (shares_next v) u) v"
      using kill_ksmbd_share_eq [of hu ?s a ?sh] u h shm_tabD(4) [OF t sh(1)] by auto
    have "shm_tab sys hs X (?T v)"
      by (rule shm_tab_unlink [OF t i, where p = None]) (use shm_more [OF v(2)] True in auto)
    then have "shm_inv sys hu hs X (?T v)" using v(3) by (simp add: shm_inv_def)
    then show ?thesis
      using sh True v(1) shm_more [OF v(2)] by (simp add: eval)
  next
    case False
    have "shm_tab sys hs X (?T ?s)"
      by (rule shm_tab_unlink [OF t i, where p = "Some ?sh"]) (use sh False in auto)
    then have "shm_inv sys hu hs X (?T ?s)" using u h by (simp add: shm_inv_def)
    then show ?thesis
      using sh False by (simp add: eval)
  qed
qed

lemma ht_remove_self:
  assumes "ht_ok key t"
  shows "t = p # t' \<Longrightarrow> snd (ht_remove key (fst p) t) = t'"
  using assms by (auto simp: ht_ok_def ht_remove_def filter_id_conv image_iff)

lemma shm_remove_all_shares_valid:
  "valid (shm_inv sys hu hs X) (shm_remove_all_shares sys) (\<lambda>_ t. shm_inv sys hu hs X t \<and> shares_table t = []) (\<lambda>_. False)"
proof (rule validI)
  fix s :: "'a shm_scheme"
  have "\<exists>t. each (shm_remove_entry sys) ps s = (Inr (), t) \<and> shm_inv sys hu hs X t \<and> shares_table t = []"
    if "shm_inv sys hu hs X s" "shares_table s = ps" for ps and s :: "'a shm_scheme"
    using that
  proof (induction ps arbitrary: s)
    case (Cons p ps)
    obtain n a where p: "p = (n, a)" by (cases p)
    obtain t where t: "shm_remove_entry sys p s = (Inr (), t)" "shm_inv sys hu hs X t"
        "shares_table t = snd (ht_remove (shm_casefold_share_name sys) n (shares_table s))"
      using shm_remove_entry_ok [OF Cons(2), of n a] Cons(3) p by auto
    have "ht_ok (shm_casefold_share_name sys) (shares_table s)"
      using Cons(2) by (simp add: shm_inv_def shm_tab_def)
    from ht_remove_self [OF this Cons(3)] p t(3) have "shares_table t = ps" by simp
    from Cons(1) [OF t(2) this] t(1) show ?case by auto
  qed (simp add: ret_def)
  then show "shm_inv sys hu hs X s \<Longrightarrow> case shm_remove_all_shares sys s of (Inr x, t) \<Rightarrow> shm_inv sys hu hs X t \<and> shares_table t = []
      | (Inl (Err e), t) \<Rightarrow> False | (Inl Fault, t) \<Rightarrow> False"
    by (fastforce simp: shm_remove_all_shares_def reads_def bnd_def)
qed

section \<open>Matching hosts by prefix\<close>

text \<open>The bits of an address, most significant first.\<close>

definition byte_bits :: "byte \<Rightarrow> bool list" where
  "byte_bits b = map (bit b) [7, 6, 5, 4, 3, 2, 1, 0]"

definition addr_bits :: "bytes \<Rightarrow> bool list" where
  "addr_bits bs = concat (map byte_bits bs)"

lemma length_byte_bits [simp]: "length (byte_bits b) = 8"
  by (simp add: byte_bits_def)

lemma length_addr_bits [simp]: "length (addr_bits bs) = 8 * length bs"
  by (induction bs) (simp_all add: addr_bits_def)

lemma byte_bits_inject: "byte_bits a = byte_bits b \<longleftrightarrow> a = b"
proof
  assume "byte_bits a = byte_bits b"
  then have "bit a n = bit b n" if "n < 8" for n
    using that by (auto simp: byte_bits_def less_Suc_eq numeral_eq_Suc)
  then show "a = b" by (auto intro!: bit_word_eqI)
qed simp

lemma nth_byte_bits: "i < 8 \<Longrightarrow> byte_bits b ! i = bit b (7 - i)"
  by (auto simp: byte_bits_def less_Suc_eq numeral_eq_Suc)

lemma byte_prefix:
  assumes "0 < k" "k < 8"
  shows "take k (byte_bits a) = take k (byte_bits b) \<longleftrightarrow>
    (let mask = push_bit (8 - k) 0xFF :: byte in a AND mask = b AND mask)"
proof -
  have m: "bit (push_bit (8 - k) 0xFF :: byte) n \<longleftrightarrow> 8 - k \<le> n" if "n < 8" for n
  proof -
    have "bit (0xFF :: byte) j" if "j < 8" for j
      using that by (auto simp: less_Suc_eq numeral_eq_Suc)
    with that show ?thesis by (auto simp: bit_push_bit_iff)
  qed
  have "a AND push_bit (8 - k) 0xFF = b AND push_bit (8 - k) 0xFF \<longleftrightarrow> (\<forall>n<8. 8 - k \<le> n \<longrightarrow> bit a n = bit b n)"
    (is "?l \<longleftrightarrow> ?r")
  proof
    assume ?l
    then have "bit (a AND push_bit (8 - k) 0xFF) n = bit (b AND push_bit (8 - k) 0xFF) n" for n by simp
    then show ?r using m by (auto simp: bit_and_iff)
  next
    assume ?r
    then show ?l using m by (intro bit_word_eqI) (auto simp: bit_and_iff)
  qed
  also have "\<dots> \<longleftrightarrow> (\<forall>i<k. bit a (7 - i) = bit b (7 - i))"
  proof
    assume r: "\<forall>i<k. bit a (7 - i) = bit b (7 - i)"
    have "bit a n = bit b n" if "n < 8" "8 - k \<le> n" for n
      using r [rule_format, of "7 - n"] that assms by simp
    then show "\<forall>n<8. 8 - k \<le> n \<longrightarrow> bit a n = bit b n" by blast
  qed (use assms in auto)
  also have "\<dots> \<longleftrightarrow> take k (byte_bits a) = take k (byte_bits b)"
    using assms by (auto simp: list_eq_iff_nth_eq nth_byte_bits)
  finally show ?thesis by (simp only: Let_def)
qed

lemma addr_prefix:
  assumes "length n = length h" "p \<le> 8 * length n"
  shows "take p (addr_bits n) = take p (addr_bits h) \<longleftrightarrow>
     take (p div 8) n = take (p div 8) h \<and> (0 < p mod 8 \<longrightarrow>
        take (p mod 8) (byte_bits (n ! (p div 8))) = take (p mod 8) (byte_bits (h ! (p div 8))))"
  using assms
proof (induction n h arbitrary: p rule: list_induct2)
  case (Cons x n y h)
  have bits: "addr_bits (z # zs) = byte_bits z @ addr_bits zs" for z zs by (simp add: addr_bits_def)
  show ?case
  proof (cases "p < 8")
    case True
    then show ?thesis by (cases "p = 0") (simp_all add: bits)
  next
    case False
    then obtain q where q: "p = q + 8" by (metis add.commute le_Suc_ex not_less)
    have "take p (addr_bits (x # n)) = take p (addr_bits (y # h)) \<longleftrightarrow> x = y \<and> take q (addr_bits n) = take q (addr_bits h)"
      by (simp add: bits q byte_bits_inject)
    moreover have "p div 8 = Suc (q div 8)" "p mod 8 = q mod 8" using q by simp_all
    moreover have "q \<le> 8 * length n" using Cons q by simp
    ultimately show ?thesis using Cons(2) [of q] by simp
  qed
qed simp

lemma strto_parse_10: "strto_parse 10 (decimal n) = Some (False, n, [])"
proof -
  obtain c t where d: "decimal n = c # t" and c: "is_digit c"
    using decimal_digits [of n] by (cases "decimal n") auto
  have "strto_sign (decimal n) = (False, decimal n)"
    using d c digit_bytes [of c] by (simp add: strto_sign_def)
  moreover have "strto_base 10 (decimal n) = (10, decimal n)"
    by (auto simp: strto_base_def split: list.split)
  moreover have w: "takeWhile (digit_in 10) (decimal n) = decimal n"
    using decimal_digits [of n] by (simp add: digit_in_10 [abs_def] list_all_iff)
  ultimately show ?thesis
    using decimal_digits [of n] by (simp add: strto_parse_def w del: takeWhile_eq_all_conv)
qed

lemma strtol_decimal: "n < 2 ^ 63 \<Longrightarrow> strtol 10 (decimal n) = Some (int n, [], False)"
  by (simp add: strtol_def strto_parse_10)

text \<open>C23: A pattern \<open>network/p\<close> matches an address of the same family exactly when the two addresses agree
  in their first \<open>p\<close> bits, for every prefix length up to the length of the address (32 or 128 bits).
  The addresses are what \<open>inet_pton\<close> makes of the texts.\<close>

theorem match_host_cidr_prefix:
  assumes "network \<noteq> []" "length network < 47" "0x2F \<notin> set network" "v6 = (0x3A \<in> set network)"
    and "pton v6 network = Some net" "pton v6 host = Some adr"
    and "length net = (if v6 then 16 else 4)" "length adr = (if v6 then 16 else 4)" "p \<le> 8 * length net"
  shows "match_host_cidr pton (network @ 0x2F # decimal p) host \<longleftrightarrow> take p (addr_bits net) = take p (addr_bits adr)"
proof -
  have p: "p \<le> 128" using assms(7,9) by (simp split: if_splits)
  then have "strtol 10 (decimal p) = Some (int p, [], False)" by (intro strtol_decimal) simp
  moreover have "to_int (nat (int p mod 2 ^ 64)) = int p"
    using p by (simp add: to_int_def)
  moreover have "p mod 8 < 8" by simp
  ultimately show ?thesis
    using assms addr_prefix [of net adr p] byte_prefix [of "p mod 8"] p
    by (cases "0x3A \<in> set network") (simp_all add: match_host_cidr_def Let_def nat_div_distrib nat_mod_distrib)
qed

theorem match_host_cidr_prefix_witness:
  "match_host_cidr (\<lambda>v6 t. Some (if t = [0x61] then [10, 1, 255, 0] else [10, 1, 224, 7])) ([0x61] @ 0x2F # decimal 19) [0x62]
   \<and> \<not> match_host_cidr (\<lambda>v6 t. Some (if t = [0x61] then [10, 1, 255, 0] else [10, 1, 224, 7])) ([0x61] @ 0x2F # decimal 20) [0x62]"
  using match_host_cidr_prefix [of "[0x61]" False "\<lambda>v6 t. Some (if t = [0x61] then [10, 1, 255, 0] else [10, 1, 224, 7])"
      "[10, 1, 255, 0]" "[0x62]" "[10, 1, 224, 7]" 19]
    match_host_cidr_prefix [of "[0x61]" False "\<lambda>v6 t. Some (if t = [0x61] then [10, 1, 255, 0] else [10, 1, 224, 7])"
      "[10, 1, 255, 0]" "[0x62]" "[10, 1, 224, 7]" 20]
  by (simp add: addr_bits_def byte_bits_def)

section \<open>Properties of the shares\<close>

lemma shm_open_connection_valid:
  assumes "0 < hs a"
  shows "valid (shm_inv sys hu hs X) (shm_open_connection a) (\<lambda>_. shm_inv sys hu hs X) (shm_inv sys hu hs X)"
proof (rule validI)
  fix s :: "'a shm_scheme" assume s: "shm_inv sys hu hs X s"
  with assms obtain sh where sh: "shares s a = Some sh" "share_ok sh" by (auto dest: shm_inv_held)
  have "a \<in> X \<longrightarrow> hs a = 0" using s sh by (auto simp: shm_inv_def share_inv_def dest: shm_tabD(3))
  then have "shm_inv sys hu (hs(a := hs a)) X (s\<lparr>shares := (shares s)(a \<mapsto> sh_num_connections_update (\<lambda>n. n + 1) sh)\<rparr>)"
    by (intro shm_inv_update [OF s sh(1)]) (use sh assms in auto)
  with s sh show "case shm_open_connection a s of (Inr x, t) \<Rightarrow> shm_inv sys hu hs X t
      | (Inl (Err e), t) \<Rightarrow> shm_inv sys hu hs X t | (Inl Fault, t) \<Rightarrow> False"
    by (simp add: shm_open_connection_def get_share_def set_share_def fail_def)
qed

lemma shm_close_connection_valid:
  assumes "0 < hs a"
  shows "valid (shm_inv sys hu hs X) (shm_close_connection (Some a)) (\<lambda>_. shm_inv sys hu hs X) (\<lambda>_. False)"
proof (rule validI)
  fix s :: "'a shm_scheme" assume s: "shm_inv sys hu hs X s"
  with assms obtain sh where sh: "shares s a = Some sh" "share_ok sh" by (auto dest: shm_inv_held)
  have "a \<in> X \<longrightarrow> hs a = 0" using s sh by (auto simp: shm_inv_def share_inv_def dest: shm_tabD(3))
  then have "shm_inv sys hu (hs(a := hs a)) X (s\<lparr>shares := (shares s)(a \<mapsto> (if sh_num_connections sh > 0
          then sh_num_connections_update (\<lambda>n. n - 1) sh else sh))\<rparr>)"
    by (intro shm_inv_update [OF s sh(1)]) (use sh assms in auto)
  with s sh show "case shm_close_connection (Some a) s of (Inr x, t) \<Rightarrow> shm_inv sys hu hs X t
      | (Inl (Err e), t) \<Rightarrow> False | (Inl Fault, t) \<Rightarrow> False"
    by (simp add: shm_close_connection_def set_share_def)
qed

definition shm_sample :: shm where
  "shm_sample = \<lparr>global_conf = global_conf usm_sample, users_table = users_table usm_sample, users = users usm_sample,
     users_next = users_next usm_sample,
     shares_table = [([112], 0)], shares = [0 \<mapsto> (new_ksmbd_share False)\<lparr>sh_name := [112], sh_path := Some [47, 112],
       sh_max_connections := 2, sh_veto_list := Some [97, 0], sh_veto_list_sz := 2\<rparr>],
     shares_next = 1, should_reload_config = False\<rparr>"

lemma shm_sample_inv: "shm_inv sample_sys (\<lambda>_. 0) (\<lambda>_. 0) {} shm_sample"
proof -
  have f: "held (shares shm_sample) (shares_next shm_sample) u = 0" for u
    by (simp add: shm_sample_def held_def held_by_def share_held_def share_users_maps_def map_users_def new_ksmbd_share_def
        set_share_flag_def)
  have "usm_inv (\<lambda>_. 0) shm_sample"
    using usm_sample_inv by (simp add: usm_inv_def shm_sample_def cong: option.case_cong)
  moreover have "shm_tab sample_sys (\<lambda>_. 0) {} shm_sample"
    by (simp add: shm_sample_def shm_tab_def ht_ok_def share_inv_def share_ok_def new_ksmbd_share_def set_share_flag_def
        test_share_flag_def share_flag_defs KSMBD_CONF_MAX_CONNECTIONS_def)
  ultimately show ?thesis using f by (simp add: shm_inv_def)
qed

text \<open>C4: the shares stay consistent.  Building a share from a configuration group, on every path
  including each failing parameter, and the removal of all shares, never touch a freed user or share
  and keep the invariant: every share in the table is alive under its name, no two names are equal up
  to case, a share out of the table lives exactly as long as it is held, every user on a user list is
  held by one reference, no share is both read-only and writeable.  A lookup hands out one
  reference, a put takes one, and opening and closing connections keeps them.\<close>

theorem shm_operations_keep_invariant:
  assumes "shm_inv sys hu hs {} s"
  shows "(decoder_ok sys \<longrightarrow>
         (\<exists>r t. shm_add_new_share sys is_ipc name kv s = (r, t) \<and> r \<noteq> Inl Fault \<and> shm_inv sys hu hs {} t))
    \<and> (\<exists>t. shm_remove_all_shares sys s = (Inr (), t) \<and> shm_inv sys hu hs {} t \<and> shares_table t = [])
    \<and> (\<exists>r t. shm_lookup_share sys key s = (Inr r, t)
         \<and> shm_inv sys hu (case r of None \<Rightarrow> hs | Some a \<Rightarrow> hs(a := Suc (hs a))) {} t)
    \<and> (0 < hs a \<longrightarrow> (\<exists>t. put_ksmbd_share sys (Some a) s = (Inr (), t) \<and> shm_inv sys hu (hs(a := hs a - 1)) {} t)
         \<and> (\<exists>r t. shm_open_connection a s = (r, t) \<and> r \<noteq> Inl Fault \<and> shm_inv sys hu hs {} t)
         \<and> (\<exists>t. shm_close_connection (Some a) s = (Inr (), t) \<and> shm_inv sys hu hs {} t))"
proof -
  have e: "\<exists>r t. m s = (r, t) \<and> r \<noteq> Inl Fault \<and> Q t" if "valid (shm_inv sys hu hs {}) m (\<lambda>_. Q) Q"
    for Q and m :: "('a shm_scheme, unit) act"
    using validD [OF that assms] by (cases "m s"; cases "fst (m s)") (auto split: cerr.splits)
  have "\<exists>r t. shm_lookup_share sys key s = (Inr r, t)
      \<and> shm_inv sys hu (case r of None \<Rightarrow> hs | Some a \<Rightarrow> hs(a := Suc (hs a))) {} t"
    using valid_returns [OF shr.look_law assms, of key] by (auto split: option.splits)
  then show ?thesis
    using e [OF shm_add_new_share_valid] e [OF shm_open_connection_valid]
      valid_returns_unit [OF shm_close_connection_valid assms] valid_returns_unit [OF shm_remove_all_shares_valid assms]
      valid_returns_unit [OF shr.put_law assms] by simp
qed

theorem shm_operations_keep_invariant_witness:
  "\<exists>r t. shm_add_new_share sample_sys False [113] [] shm_sample = (r, t) \<and> r \<noteq> Inl Fault
     \<and> shm_inv sample_sys (\<lambda>_. 0) (\<lambda>_. 0) {} t"
  using shm_operations_keep_invariant [OF shm_sample_inv] sample_decoder by blast

text \<open>C36: with a connection limit, no sequence of opened and closed connections gets the connection
  count of a share above the limit or below zero.\<close>

theorem shm_connections_bounded:
  assumes "shares s a = Some sh" "0 < sh_max_connections sh" "0 \<le> sh_num_connections sh"
    "sh_num_connections sh \<le> sh_max_connections sh"
  shows "\<exists>t sh'. each (\<lambda>open. if open then ignore (shm_open_connection a) else shm_close_connection (Some a)) ops s = (Inr (), t)
     \<and> shares t a = Some sh' \<and> sh_max_connections sh' = sh_max_connections sh
     \<and> 0 \<le> sh_num_connections sh' \<and> sh_num_connections sh' \<le> sh_max_connections sh'"
  using assms
proof (induction ops arbitrary: s sh)
  case (Cons op ops)
  let ?f = "\<lambda>open. if open then ignore (shm_open_connection a) else shm_close_connection (Some a)"
  obtain t sh' where t: "?f op s = (Inr (), t)" "shares t a = Some sh'" "sh_max_connections sh' = sh_max_connections sh"
      "0 \<le> sh_num_connections sh'" "sh_num_connections sh' \<le> sh_max_connections sh'"
    using Cons(2-) by (cases op; cases "sh_max_connections sh = sh_num_connections sh") (auto simp: ignore_def shm_open_connection_def shm_close_connection_def get_share_def
        set_share_def fail_def)
  from Cons(1) [OF t(2)] t Cons(3) show ?case by auto
qed (simp add: ret_def)

theorem shm_connections_bounded_witness:
  "\<exists>t sh'. each (\<lambda>open. if open then ignore (shm_open_connection 0) else shm_close_connection (Some 0))
        [True, True, True, False, False, False] shm_sample = (Inr (), t)
     \<and> shares t 0 = Some sh' \<and> 0 \<le> sh_num_connections sh' \<and> sh_num_connections sh' \<le> 2"
proof -
  obtain sh where "shares shm_sample 0 = Some sh" "sh_max_connections sh = 2" "sh_num_connections sh = 0"
    by (simp add: shm_sample_def new_ksmbd_share_def set_share_flag_def)
  with shm_connections_bounded [of shm_sample 0 sh "[True, True, True, False, False, False]"] show ?thesis by fastforce
qed

lemma c_str_append: "0 \<notin> set a \<Longrightarrow> c_str (a @ 0 # r) = a"
  by (induction a) (auto simp: c_str_def)

lemma payload_path_ok:
  assumes "\<And>r. root_dir gc = Some r \<Longrightarrow> 0 \<notin> set r" "0 \<notin> set path"
    and "root = (case root_dir gc of None \<Rightarrow> [] | Some r \<Rightarrow> r)" "pos + length (root @ path) + 1 = length buf"
  shows "\<exists>buf'. payload_path gc path buf pos (length buf - pos) = Inr (buf', True) \<and> length buf' = length buf
     \<and> take pos buf' = take pos buf \<and> c_str (drop pos buf') = root @ path"
proof -
  have z: "0 \<notin> set (root @ path)" using assms(1-3) by (auto split: option.splits)
  let ?b = "overwrite pos ((root @ path) @ [0]) buf"
  have d: "drop pos ?b = (root @ path) @ [0]"
    using assms(4) by (simp add: overwrite_def)
  then have "c_str (drop pos ?b) = root @ path"
    using c_str_append [OF z] by simp
  moreover have "take pos ?b = take pos buf" "length ?b = length buf"
    using assms(4) by (simp_all add: overwrite_def)
  moreover have "payload_path gc path buf pos (length buf - pos) = Inr (?b, True)"
    using assms(3,4) by (auto simp: payload_path_def payload_write_def Let_def simp flip: assms(3))
  ultimately show ?thesis by blast
qed

lemma unat_word_of_int_u32: "0 \<le> z \<Longrightarrow> z < 2 ^ 32 \<Longrightarrow> unat (word_of_int z :: u32) = nat z"
  by (simp add: unat_eq_nat_uint uint_word_of_int)

text \<open>C9: the response to a share-config request round-trips.  When the payload has the size that
  \<open>shm_share_config_payload_size\<close> computes, \<open>shm_handle_share_config_request\<close> stays inside it,
  succeeds, and what the kernel reads back is the veto list, the root directory followed by the
  path, the flags, the masks and the forced ids of the share.\<close>

theorem share_config_roundtrip:
  assumes "share_ok sh" "\<not> test_share_flag sh KSMBD_SHARE_FLAG_PIPE" "sh_path sh = Some path" "0 \<notin> set path"
    and "\<And>r. root_dir gc = Some r \<Longrightarrow> 0 \<notin> set r" "root = (case root_dir gc of None \<Rightarrow> [] | Some r \<Rightarrow> r)"
    and "shm_share_config_payload_size gc (Some sh) = Inr sz"
    and "sres_payload_sz resp = word_of_nat sz" "length (sres_payload resp) = sz"
  shows "\<exists>out. shm_handle_share_config_request gc (Some sh) resp = Inr (None, out)
     \<and> ksmbd_share_config_path out = root @ path \<and> length (sres_payload out) = sz
     \<and> take (unat (sres_veto_list_sz out)) (sres_payload out)
        = (case sh_veto_list sh of None \<Rightarrow> [] | Some v \<Rightarrow> take (nat (sh_veto_list_sz sh)) v)
     \<and> sres_flags out = sh_flags sh \<and> sres_create_mask out = sh_create_mask sh
     \<and> sres_directory_mask out = sh_directory_mask sh \<and> sres_force_uid out = sh_force_uid sh
     \<and> sres_force_gid out = sh_force_gid sh"
proof -
  let ?v = "if sh_veto_list sh \<noteq> None \<and> sh_veto_list_sz sh > 0 then nat (sh_veto_list_sz sh) else 0"
  let ?k = "if ?v \<noteq> 0 then ?v + 1 else 0"
  have sz: "sz = ?k + length (root @ path) + 1" and lt: "sz < 2 ^ 31"
    using assms(2,3,6,7) by (auto simp: shm_share_config_payload_size_def Let_def split: option.splits if_splits)
  define h where "h = share_config_head sh resp"
  have v: "unat (sres_veto_list_sz h) = ?v"
    using sz lt by (auto simp: h_def share_config_head_def unat_word_of_int_u32)
  have p: "unat (sres_payload_sz h) = sz" "sres_payload h = sres_payload resp" "sres_flags h = sh_flags sh"
    "sres_create_mask h = sh_create_mask sh" "sres_directory_mask h = sh_directory_mask sh"
    "sres_force_uid h = sh_force_uid sh" "sres_force_gid h = sh_force_gid sh"
    using lt assms(8) by (simp_all add: h_def share_config_head_def unat_of_nat)
  show ?thesis
  proof (cases "?v = 0")
    case True
    obtain b where b: "payload_path gc path (sres_payload resp) 0 sz = Inr (b, True)" "length b = sz" "c_str b = root @ path"
      using payload_path_ok [OF assms(5,4,6), of 0 "sres_payload resp"] True sz assms(9) by auto
    have w: "sres_veto_list_sz h = 0" using v True by (metis unsigned_eq_0_iff)
    have "shm_handle_share_config_request gc (Some sh) resp = Inr (None, h\<lparr>sres_payload := b\<rparr>)"
      using assms(2,3) b(1) p w sz by (simp add: shm_handle_share_config_request_def h_def [symmetric] Let_def)
    moreover have "(case sh_veto_list sh of None \<Rightarrow> [] | Some v \<Rightarrow> take (nat (sh_veto_list_sz sh)) v) = []"
      using True by (auto split: option.splits if_splits)
    ultimately show ?thesis
      using b(2,3) p w by (simp add: ksmbd_share_config_path_def)
  next
    case False
    then obtain veto where veto: "sh_veto_list sh = Some veto" "0 < sh_veto_list_sz sh" by (auto split: if_splits)
    define n where "n = nat (sh_veto_list_sz sh)"
    have n: "n \<le> length veto" "0 < n" "sz = n + 1 + length (root @ path) + 1" "unat (sres_veto_list_sz h) = n"
      using assms(1) veto sz v by (simp_all add: share_ok_def n_def nat_le_iff)
    let ?b0 = "overwrite 0 (take n veto @ [0]) (sres_payload resp)"
    have b0: "payload_write (sres_payload resp) 0 (take n veto @ [0]) = Inr ?b0" "length ?b0 = sz" "take n ?b0 = take n veto"
      using n assms(9) by (auto simp: payload_write_def overwrite_def)
    obtain b where b: "payload_path gc path ?b0 (n + 1) (sz - (n + 1)) = Inr (b, True)" "length b = sz"
        "take (n + 1) b = take (n + 1) ?b0" "c_str (drop (n + 1) b) = root @ path"
      using payload_path_ok [OF assms(5,4,6), of "n + 1" ?b0] n b0(2) by auto
    have "shm_handle_share_config_request gc (Some sh) resp = Inr (None, h\<lparr>sres_payload := b\<rparr>)"
      using assms(2,3) veto(1) b0(1) b(1) p n
      by (auto simp: shm_handle_share_config_request_def h_def [symmetric] Let_def)
    moreover have "take n b = take n veto"
      using take_le_cong [OF b(3), of n] b0(3) by simp
    ultimately show ?thesis
      using b(2,4) p n veto by (auto simp: ksmbd_share_config_path_def n_def)
  qed
qed

text \<open>The sample share has the veto list \<open>a\<close> and the path \<open>/p\<close>.\<close>

definition share_config_frame :: "nat \<Rightarrow> ksmbd_share_config_response" where
  "share_config_frame sz = \<lparr>sres_handle = 0, sres_flags = 0, sres_create_mask = 0, sres_directory_mask = 0,
     sres_force_create_mode = 0, sres_force_directory_mode = 0, sres_force_uid = 0, sres_force_gid = 0,
     sres_share_name = replicate 64 0, sres_time_machine_max_size = 0, sres_payload_sz = word_of_nat sz,
     sres_veto_list_sz = 0, sres_payload = replicate sz 0\<rparr>"

theorem share_config_roundtrip_witness:
  "\<exists>sh out. shares shm_sample 0 = Some sh
     \<and> shm_handle_share_config_request (global_conf shm_sample) (Some sh) (share_config_frame 6) = Inr (None, out)
     \<and> ksmbd_share_config_path out = [47, 112]"
proof -
  obtain sh where sh: "shares shm_sample 0 = Some sh" "sh_path sh = Some [47, 112]" "sh_flags sh = 1" "sh_veto_list_sz sh = 2"
      "sh_veto_list sh = Some [97, 0]"
    by (simp add: shm_sample_def new_ksmbd_share_def set_share_flag_def share_flag_defs)
  have "share_ok sh"
    using shm_sample_inv sh(1) by (auto simp: shm_inv_def share_inv_def dest: shm_tabD(3))
  moreover have r: "root_dir (global_conf shm_sample) = None"
    by (simp add: shm_sample_def usm_sample_def global_conf_zero_def)
  moreover have p: "\<not> test_share_flag sh KSMBD_SHARE_FLAG_PIPE"
    using sh by (simp add: test_share_flag_def share_flag_defs)
  moreover have "shm_share_config_payload_size (global_conf shm_sample) (Some sh) = Inr 6"
    using sh r p by (simp add: shm_share_config_payload_size_def)
  ultimately show ?thesis
    using share_config_roundtrip [of sh "[47, 112]" "global_conf shm_sample" "[]" 6 "share_config_frame 6"] sh
    by (auto simp: share_config_frame_def)
qed

end
