(* ===== verification/Sessions.thy ===== *)
theory Sessions
  imports Shares
begin

text \<open>
  \<open>src/tools/management/session.c\<close>, with the tree connection objects of
  \<open>src/tools/management/tree_conn.c\<close> that it frees.  The state extends that of the shares: a session
  holds a reference to its user, and each of its tree connections holds a share and counts as one of
  the share's connections.  A tree connection is reachable from one list only, so it is a value in
  that list.  \<open>sm_insert_session\<close> is the section of \<open>sm_handle_tree_connect\<close> under the table's writer
  lock; another thread may run between it and the lookup before it.
\<close>

section \<open>Data\<close>

record ksmbd_tree_conn =
  tc_id :: u64
  tc_share :: "addr option"
  tc_flags :: u32

record ksmbd_session =
  ss_id :: u64
  ss_user :: "addr option"
  ss_tree_conns :: "ksmbd_tree_conn list"
  ss_ref_counter :: int

record sms = shm +
  sessions_table :: "(u64 \<times> addr) list"
  sessions :: "addr \<rightharpoonup> ksmbd_session"
  sessions_next :: addr

section \<open>Operations\<close>

definition get_sess :: "addr \<Rightarrow> ('x sms_scheme, ksmbd_session) act" where
  "get_sess a = (\<lambda>s. case sessions s a of None \<Rightarrow> (Inl Fault, s) | Some x \<Rightarrow> (Inr x, s))"

definition set_sess :: "addr \<Rightarrow> (ksmbd_session \<Rightarrow> ksmbd_session) \<Rightarrow> ('x sms_scheme, unit) act" where
  "set_sess a f = (\<lambda>s. case sessions s a of None \<Rightarrow> (Inl Fault, s)
     | Some x \<Rightarrow> (Inr (), s\<lparr>sessions := (sessions s)(a \<mapsto> f x)\<rparr>))"

definition new_ksmbd_tree_conn :: ksmbd_tree_conn where
  "new_ksmbd_tree_conn = \<lparr>tc_id = 0, tc_share = None, tc_flags = 0\<rparr>"

definition set_conn_flag :: "u32 \<Rightarrow> ksmbd_tree_conn \<Rightarrow> ksmbd_tree_conn" where
  "set_conn_flag f conn = conn\<lparr>tc_flags := tc_flags conn OR f\<rparr>"

definition clear_conn_flag :: "u32 \<Rightarrow> ksmbd_tree_conn \<Rightarrow> ksmbd_tree_conn" where
  "clear_conn_flag f conn = conn\<lparr>tc_flags := tc_flags conn AND NOT f\<rparr>"

definition tcm_tree_conn_free :: "sysdb \<Rightarrow> ksmbd_tree_conn \<Rightarrow> ('x shm_scheme, unit) act" where
  "tcm_tree_conn_free sys conn = sq (shm_close_connection (tc_share conn)) (put_ksmbd_share sys (tc_share conn))"

definition kill_ksmbd_session :: "sysdb \<Rightarrow> addr \<Rightarrow> ('x sms_scheme, unit) act" where
  "kill_ksmbd_session sys a =
     bnd (get_sess a) (\<lambda>sess.
     sq (each (tcm_tree_conn_free sys) (ss_tree_conns sess))
    (sq (put_ksmbd_user (ss_user sess))
        (modify (\<lambda>s. s\<lparr>sessions := (sessions s)(a := None)\<rparr>))))"

definition new_ksmbd_session :: "u64 \<Rightarrow> addr option \<Rightarrow> ('x sms_scheme, addr) act" where
  "new_ksmbd_session i user =
     bnd (reads sessions_next) (\<lambda>a.
     sq (modify (\<lambda>s. s\<lparr>sessions := (sessions s)(a \<mapsto> \<lparr>ss_id = i, ss_user = user, ss_tree_conns = [], ss_ref_counter = 1\<rparr>),
           sessions_next := Suc a\<rparr>))
        (ret a))"

definition sm_clear_sessions :: "sysdb \<Rightarrow> ('x sms_scheme, unit) act" where
  "sm_clear_sessions sys = bnd (reads sessions_table) (each (\<lambda>p. kill_ksmbd_session sys (snd p)))"

definition sm_remove_session :: "sysdb \<Rightarrow> addr \<Rightarrow> ('x sms_scheme, unit) act" where
  "sm_remove_session sys a =
     bnd (get_sess a) (\<lambda>sess.
     bnd (reads (\<lambda>s. ht_remove id (ss_id sess) (sessions_table s))) (\<lambda>(found, t).
     if \<not> found then fail (Err EINVAL)
     else sq (modify (\<lambda>s. s\<lparr>sessions_table := t\<rparr>)) (kill_ksmbd_session sys a)))"

definition get_session :: "addr \<Rightarrow> ('x sms_scheme, addr option) act" where
  "get_session a =
     bnd (get_sess a) (\<lambda>sess.
     if ss_ref_counter sess \<noteq> 0 then sq (set_sess a (ss_ref_counter_update (\<lambda>n. n + 1))) (ret (Some a))
     else ret None)"

definition put_session :: "sysdb \<Rightarrow> addr \<Rightarrow> ('x sms_scheme, unit) act" where
  "put_session sys a =
     sq (set_sess a (ss_ref_counter_update (\<lambda>n. n - 1)))
    (bnd (get_sess a) (\<lambda>sess.
     if ss_ref_counter sess \<noteq> 0 then ret () else ignore (sm_remove_session sys a)))"

definition sm_lookup_session :: "u64 \<Rightarrow> ('x sms_scheme, addr option) act" where
  "sm_lookup_session i =
     bnd (reads (\<lambda>s. ht_lookup id (sessions_table s) i)) (\<lambda>r.
     case r of None \<Rightarrow> ret None | Some a \<Rightarrow> get_session a)"

text \<open>Under the writer lock: \<open>None\<close> sends the caller back to its lookup.\<close>

definition sm_insert_session :: "sysdb \<Rightarrow> u64 \<Rightarrow> addr \<Rightarrow> ('x sms_scheme, addr option) act" where
  "sm_insert_session sys i a =
     bnd (sm_lookup_session i) (\<lambda>r.
     bnd (case r of None \<Rightarrow> ret a | Some b \<Rightarrow> sq (kill_ksmbd_session sys a) (ret b)) (\<lambda>sess.
     bnd (get_sess sess) (\<lambda>x.
     bnd (reads (\<lambda>s. ht_insert id (ss_id x) sess (sessions_table s))) (\<lambda>(new, t).
     sq (modify (\<lambda>s. s\<lparr>sessions_table := t\<rparr>))
        (if new then ret (Some sess) else sq (kill_ksmbd_session sys sess) (ret None))))))"

text \<open>The loop around \<open>retry\<close>, with the number of rounds left.\<close>

fun sm_find_session :: "nat \<Rightarrow> sysdb \<Rightarrow> u64 \<Rightarrow> addr option \<Rightarrow> ('x sms_scheme, addr) act" where
  "sm_find_session 0 sys i user = fail Fault"
| "sm_find_session (Suc n) sys i user =
     bnd (sm_lookup_session i) (\<lambda>r. case r of
       Some a \<Rightarrow> ret a
     | None \<Rightarrow> bnd (new_ksmbd_session i user) (\<lambda>a.
         bnd (sm_insert_session sys i a) (\<lambda>r. case r of
           Some sess \<Rightarrow> ret sess
         | None \<Rightarrow> sm_find_session n sys i user)))"

definition sm_handle_tree_connect :: "sysdb \<Rightarrow> u64 \<Rightarrow> addr option \<Rightarrow> ksmbd_tree_conn \<Rightarrow> ('x sms_scheme, unit) act" where
  "sm_handle_tree_connect sys i user conn =
     bnd (sm_find_session 2 sys i user) (\<lambda>a.
     set_sess a (\<lambda>sess. sess\<lparr>ss_tree_conns := ss_tree_conns sess @ [conn]\<rparr>))"

definition add_sessions_cap :: "int \<Rightarrow> ('x usm_scheme, unit) act" where
  "add_sessions_cap d = modify (\<lambda>s. s\<lparr>global_conf := (global_conf s)\<lparr>sessions_cap := sessions_cap (global_conf s) + d\<rparr>\<rparr>)"

definition sm_check_sessions_capacity :: "sysdb \<Rightarrow> u64 \<Rightarrow> ('x sms_scheme, errno option) act" where
  "sm_check_sessions_capacity sys i =
     bnd (sm_lookup_session i) (\<lambda>r. case r of
       Some a \<Rightarrow> sq (put_session sys a) (ret None)
     | None \<Rightarrow>
        bnd (reads (\<lambda>s. sessions_cap (global_conf s))) (\<lambda>cap.
        if cap < 1 then ret (Some EINVAL)
        else bnd (reads (\<lambda>s. sessions_cap (global_conf s))) (\<lambda>old.
          sq (add_sessions_cap (- 1))
             (if old < 1 then sq (add_sessions_cap 1) (ret (Some EINVAL)) else ret None))))"

definition lookup_tree_conn :: "u64 \<Rightarrow> ksmbd_tree_conn \<Rightarrow> bool" where
  "lookup_tree_conn i conn \<longleftrightarrow> tc_id conn = i"

text \<open>The section of \<open>sm_handle_tree_disconnect\<close> under the session's lock.\<close>

definition sm_drop_tree_conn :: "sysdb \<Rightarrow> addr \<Rightarrow> u64 \<Rightarrow> ('x sms_scheme, unit) act" where
  "sm_drop_tree_conn sys a tree_conn_id =
     bnd (get_sess a) (\<lambda>sess.
     case find (lookup_tree_conn tree_conn_id) (ss_tree_conns sess) of
       None \<Rightarrow> ret ()
     | Some conn \<Rightarrow>
         let rest = remove1 conn (ss_tree_conns sess) in
         sq (set_sess a (\<lambda>sess. sess\<lparr>ss_tree_conns := rest, ss_ref_counter := ss_ref_counter sess - 1\<rparr>))
        (sq (if rest = [] then add_sessions_cap 1 else ret ())
            (tcm_tree_conn_free sys conn)))"

definition sm_handle_tree_disconnect :: "sysdb \<Rightarrow> u64 \<Rightarrow> u64 \<Rightarrow> ('x sms_scheme, unit) act" where
  "sm_handle_tree_disconnect sys sess_id tree_conn_id =
     bnd (sm_lookup_session sess_id) (\<lambda>r. case r of
       None \<Rightarrow> ret ()
     | Some a \<Rightarrow> sq (sm_drop_tree_conn sys a tree_conn_id) (put_session sys a))"

definition sm_destroy :: "sysdb \<Rightarrow> ('x sms_scheme, unit) act" where
  "sm_destroy sys = sq (sm_clear_sessions sys) (modify (\<lambda>s. s\<lparr>sessions_table := []\<rparr>))"

section \<open>Frames\<close>

definition shm_frame :: "('x shm_scheme, 'a) act \<Rightarrow> bool" where
  "shm_frame m \<longleftrightarrow> (\<forall>s. shm.more (snd (m s)) = shm.more s)"

named_theorems shm_frame \<open>frame of the share operations\<close>

lemma usm_frame_shm [shm_frame]: "usm_frame m \<Longrightarrow> shm_frame m"
  unfolding usm_frame_def shm_frame_def by (metis shm.ext_inject shm.surjective usm.select_convs(5))

lemma shm_frame_basic [shm_frame]:
  "shm_frame (ret x)" "shm_frame (fail e)" "shm_frame (reads f)" "shm_frame (get_share a)" "shm_frame (set_share a h)"
  "shm_frame (modify (\<lambda>s. s\<lparr>shares := g s\<rparr>))" "shm_frame (modify (\<lambda>s. s\<lparr>shares_table := t s\<rparr>))"
  by (auto simp: shm_frame_def act_simps get_share_def set_share_def split: option.split)

lemma shm_frame_bnd [shm_frame]:
  assumes "shm_frame m" and "\<And>x. shm_frame (f x)"
  shows "shm_frame (bnd m f)"
  unfolding shm_frame_def
proof
  fix s :: "'a shm_scheme"
  obtain r t where t: "m s = (r, t)" by (cases "m s")
  have "shm.more t = shm.more s" using assms(1) [unfolded shm_frame_def, rule_format, of s] t by simp
  then show "shm.more (snd (bnd m f s)) = shm.more s"
    using assms(2) t by (cases r) (simp_all add: bnd_def shm_frame_def)
qed

lemma shm_frame_sq [shm_frame]: "shm_frame m \<Longrightarrow> shm_frame n \<Longrightarrow> shm_frame (sq m n)"
  by (simp add: sq_def shm_frame_bnd)

lemma shm_frame_if [shm_frame]: "shm_frame m \<Longrightarrow> shm_frame n \<Longrightarrow> shm_frame (if b then m else n)"
  by simp

lemma shm_frame_option [shm_frame]:
  "shm_frame m \<Longrightarrow> (\<And>x. shm_frame (f x)) \<Longrightarrow> shm_frame (case r of None \<Rightarrow> m | Some x \<Rightarrow> f x)"
  by (cases r) simp_all

lemma shm_frame_prod [shm_frame]: "(\<And>x y. shm_frame (f x y)) \<Longrightarrow> shm_frame (case r of (x, y) \<Rightarrow> f x y)"
  by (cases r) simp

lemma shm_frame_ignore [shm_frame]: "shm_frame m \<Longrightarrow> shm_frame (ignore m)"
  unfolding shm_frame_def ignore_def by (auto split: prod.splits sum.splits cerr.splits) (metis snd_conv)+

lemma shm_frame_each [shm_frame]: "(\<And>x. shm_frame (f x)) \<Longrightarrow> shm_frame (each f xs)"
  by (induction xs) (simp_all add: shm_frame)

lemma shm_frame_shares:
  "shm_frame (kill_ksmbd_share a)" "shm_frame (shm_remove_share sys a)" "shm_frame (put_ksmbd_share sys p)"
  "shm_frame (shm_lookup_share sys n)" "shm_frame (shm_open_connection a)" "shm_frame (shm_close_connection p)"
  "shm_frame (tcm_tree_conn_free sys conn)"
proof -
  have u: "shm_frame (put_ksmbd_user q)" for q by (rule usm_frame_shm [OF usm_frame_users(4)])
  show k: "shm_frame (kill_ksmbd_share a)" for a
    unfolding kill_ksmbd_share_def free_user_map_def by (intro shm_frame_bnd shm_frame_sq shm_frame_each shm_frame_option shm_frame_basic u)
  show r: "shm_frame (shm_remove_share sys a)" for a
    unfolding shm_remove_share_def by (intro shm_frame_bnd shm_frame_sq shm_frame_if shm_frame_prod shm_frame_basic k)
  show p: "shm_frame (put_ksmbd_share sys p)" for p
    unfolding put_ksmbd_share_def by (intro shm_frame_option shm_frame_bnd shm_frame_sq shm_frame_if shm_frame_ignore shm_frame_basic r)
  show "shm_frame (shm_lookup_share sys n)"
    unfolding shm_lookup_share_def get_ksmbd_share_def by (intro shm_frame_option shm_frame_bnd shm_frame_sq shm_frame_if shm_frame_basic)
  show "shm_frame (shm_open_connection a)"
    unfolding shm_open_connection_def by (intro shm_frame_bnd shm_frame_if shm_frame_basic)
  show c: "shm_frame (shm_close_connection p)" for p
    unfolding shm_close_connection_def by (intro shm_frame_option shm_frame_basic)
  show "shm_frame (tcm_tree_conn_free sys conn)"
    unfolding tcm_tree_conn_free_def by (intro shm_frame_sq c p)
qed

lemma shm_inv_more [simp]:
  "shm_inv sys hu hs X (s\<lparr>sessions := m\<rparr>) = shm_inv sys hu hs X s"
  "shm_inv sys hu hs X (s\<lparr>sessions_table := t\<rparr>) = shm_inv sys hu hs X s"
  "shm_inv sys hu hs X (s\<lparr>sessions_next := n\<rparr>) = shm_inv sys hu hs X s"
  by (simp_all add: shm_inv_def shm_tab_def usm_inv_def cong: option.case_cong)

lemma shm_inv_conf [simp]: "shm_inv sys hu hs X (s\<lparr>global_conf := c\<rparr>) = shm_inv sys hu hs X s"
  by (simp add: shm_inv_def shm_tab_def usm_inv_def cong: option.case_cong)

section \<open>The invariant of the sessions\<close>

text \<open>What the sessions hold: \<open>f\<close> counts for one session.\<close>

definition sess_refs :: "(ksmbd_session \<Rightarrow> nat) \<Rightarrow> (addr \<rightharpoonup> ksmbd_session) \<Rightarrow> addr \<Rightarrow> nat" where
  "sess_refs f m nx = (\<Sum>a<nx. case m a of None \<Rightarrow> 0 | Some x \<Rightarrow> f x)"

definition user_refs :: "addr \<Rightarrow> ksmbd_session \<Rightarrow> nat" where
  "user_refs u x = (if ss_user x = Some u then 1 else 0)"

definition share_refs :: "addr \<Rightarrow> ksmbd_session \<Rightarrow> nat" where
  "share_refs a x = count_list (map tc_share (ss_tree_conns x)) (Some a)"

text \<open>\<open>g\<close> counts the references to sessions that are held for the time of an operation.\<close>

definition sess_tab :: "(addr \<Rightarrow> nat) \<Rightarrow> 'x sms_scheme \<Rightarrow> bool" where
  "sess_tab g s \<longleftrightarrow> ht_ok id (sessions_table s)
     \<and> (\<forall>p \<in> set (sessions_table s). \<exists>x. sessions s (snd p) = Some x \<and> ss_id x = fst p)
     \<and> (\<forall>a. case sessions s a of None \<Rightarrow> g a = 0
          | Some x \<Rightarrow> a < sessions_next s \<and> (ss_id x, a) \<in> set (sessions_table s)
              \<and> ss_ref_counter x = int (length (ss_tree_conns x) + g a) \<and> 0 < ss_ref_counter x)"

definition sm_inv :: "sysdb \<Rightarrow> (addr \<Rightarrow> nat) \<Rightarrow> (addr \<Rightarrow> nat) \<Rightarrow> (addr \<Rightarrow> nat) \<Rightarrow> 'x sms_scheme \<Rightarrow> bool" where
  "sm_inv sys hu hs g s \<longleftrightarrow> sess_tab g s
     \<and> shm_inv sys (\<lambda>u. hu u + sess_refs (user_refs u) (sessions s) (sessions_next s))
         (\<lambda>a. hs a + sess_refs (share_refs a) (sessions s) (sessions_next s)) {} s"

lemma sess_refs_update:
  assumes "a < nx"
  shows "sess_refs f (m(a := p)) nx + (case m a of None \<Rightarrow> 0 | Some x \<Rightarrow> f x)
     = sess_refs f m nx + (case p of None \<Rightarrow> 0 | Some x \<Rightarrow> f x)"
proof -
  have "sess_refs f (m(a := p)) nx = (case p of None \<Rightarrow> 0 | Some x \<Rightarrow> f x) + (\<Sum>b \<in> {..<nx} - {a}. case m b of None \<Rightarrow> 0 | Some x \<Rightarrow> f x)"
    unfolding sess_refs_def using assms by (subst sum.remove [of _ a]) (auto intro!: sum.cong)
  moreover have "sess_refs f m nx = (case m a of None \<Rightarrow> 0 | Some x \<Rightarrow> f x) + (\<Sum>b \<in> {..<nx} - {a}. case m b of None \<Rightarrow> 0 | Some x \<Rightarrow> f x)"
    unfolding sess_refs_def using assms by (subst sum.remove [of _ a]) auto
  ultimately show ?thesis by simp
qed

lemma sess_refs_new: "m nx = None \<Longrightarrow> sess_refs f (m(nx \<mapsto> x)) (Suc nx) = sess_refs f m nx + f x"
  unfolding sess_refs_def by (auto intro!: sum.cong)

lemma sess_tabD:
  assumes "sess_tab g s"
  shows "ht_ok id (sessions_table s)"
    and "(i, a) \<in> set (sessions_table s) \<Longrightarrow> \<exists>x. sessions s a = Some x \<and> ss_id x = i"
    and "sessions s a = Some x \<Longrightarrow> a < sessions_next s \<and> (ss_id x, a) \<in> set (sessions_table s)
           \<and> ss_ref_counter x = int (length (ss_tree_conns x) + g a) \<and> 0 < ss_ref_counter x"
    and "sessions s a = None \<Longrightarrow> g a = 0"
proof -
  have "case sessions s a of None \<Rightarrow> g a = 0
          | Some x \<Rightarrow> a < sessions_next s \<and> (ss_id x, a) \<in> set (sessions_table s)
              \<and> ss_ref_counter x = int (length (ss_tree_conns x) + g a) \<and> 0 < ss_ref_counter x"
    using assms by (simp only: sess_tab_def)
  then show "sessions s a = Some x \<Longrightarrow> a < sessions_next s \<and> (ss_id x, a) \<in> set (sessions_table s)
           \<and> ss_ref_counter x = int (length (ss_tree_conns x) + g a) \<and> 0 < ss_ref_counter x"
    "sessions s a = None \<Longrightarrow> g a = 0" by simp_all
qed (use assms in \<open>auto simp: sess_tab_def\<close>)

lemma sess_tab_frame: "shm.more s = shm.more t \<Longrightarrow> sess_tab g s = sess_tab g (t :: 'x sms_scheme)"
  by (cases s; cases t) (simp add: sess_tab_def cong: option.case_cong)

lemma sms_frame: "shm.more s = shm.more (t :: 'x sms_scheme) \<Longrightarrow>
   sessions s = sessions t \<and> sessions_table s = sessions_table t \<and> sessions_next s = sessions_next t"
  by (cases s; cases t) simp

text \<open>Operations on shares and users, seen with the references the sessions hold.\<close>

lemma sm_lift:
  assumes v: "\<And>p q. valid (shm_inv sys (\<lambda>u. hu u + p u) (\<lambda>a. hs a + q a) {}) m
      (\<lambda>r. shm_inv sys (\<lambda>u. hu' r u + p u) (\<lambda>a. hs' r a + q a) {}) (\<lambda>s. b \<and> shm_inv sys (\<lambda>u. eu u + p u) (\<lambda>a. es a + q a) {} s)"
    and f: "shm_frame (m :: ('x sms_scheme, 'r) act)"
  shows "valid (sm_inv sys hu hs g) m (\<lambda>r. sm_inv sys (hu' r) (hs' r) g) (\<lambda>s. b \<and> sm_inv sys eu es g s)"
proof (rule validI)
  fix s :: "'x sms_scheme" assume s: "sm_inv sys hu hs g s"
  let ?p = "\<lambda>u. sess_refs (user_refs u) (sessions s) (sessions_next s)"
  let ?q = "\<lambda>a. sess_refs (share_refs a) (sessions s) (sessions_next s)"
  have i: "shm_inv sys (\<lambda>u. hu u + ?p u) (\<lambda>a. hs a + ?q a) {} s" and t: "sess_tab g s"
    using s by (simp_all add: sm_inv_def)
  obtain r t where m: "m s = (r, t)" by (cases "m s")
  have e: "shm.more t = shm.more s" using f m by (simp add: shm_frame_def) (metis snd_conv)
  have *: "sm_inv sys a c g t" if "shm_inv sys (\<lambda>u. a u + ?p u) (\<lambda>u. c u + ?q u) {} t" for a c
    using that t sms_frame [OF e] sess_tab_frame [OF e] by (simp add: sm_inv_def)
  from validD [OF v i] m * show "case m s of (Inr r, t) \<Rightarrow> sm_inv sys (hu' r) (hs' r) g t
      | (Inl (Err e), t) \<Rightarrow> b \<and> sm_inv sys eu es g t | (Inl Fault, t) \<Rightarrow> False"
    by (cases r) (auto split: cerr.splits)
qed

lemma users_shm:
  assumes "\<And>q. valid (usm_inv (\<lambda>u. hu u + q u)) m (\<lambda>r. usm_inv (\<lambda>u. hu' r u + q u)) (\<lambda>s. b \<and> usm_inv (\<lambda>u. eu u + q u) s)"
    and "usm_frame (m :: ('x shm_scheme, 'r) act)"
  shows "valid (shm_inv sys hu hs X) m (\<lambda>r. shm_inv sys (hu' r) hs X) (\<lambda>s. b \<and> shm_inv sys eu hs X s)"
proof (rule validI)
  fix s :: "'x shm_scheme" assume b: "shm_inv sys hu hs X s"
  let ?q = "held (shares s) (shares_next s)"
  have "usm_inv (\<lambda>u. hu u + ?q u) s \<and> usm.more s = usm.more s" using b by (simp add: shm_inv_def)
  note v = validD [OF valid_frame [OF assms] this]
  have *: "shm_inv sys h hs X t" if "usm_inv (\<lambda>u. h u + ?q u) t" "usm.more t = usm.more s" for h t
    using that b shm_more [OF that(2)] shm_tab_more [OF that(2)] by (simp add: shm_inv_def)
  show "case m s of (Inr r, t) \<Rightarrow> shm_inv sys (hu' r) hs X t | (Inl (Err e), t) \<Rightarrow> b \<and> shm_inv sys eu hs X t
      | (Inl Fault, t) \<Rightarrow> False"
    using v by (cases "m s"; cases "fst (m s)") (auto split: cerr.splits intro: *)
qed

definition took :: "addr option \<Rightarrow> (addr \<Rightarrow> nat) \<Rightarrow> addr \<Rightarrow> nat" where
  "took r h = (case r of None \<Rightarrow> h | Some a \<Rightarrow> h(a := Suc (h a)))"

definition gave :: "addr option \<Rightarrow> (addr \<Rightarrow> nat) \<Rightarrow> addr \<Rightarrow> nat" where
  "gave r h = (case r of None \<Rightarrow> h | Some a \<Rightarrow> h(a := h a - 1))"

lemma gave_took [simp]: "gave r (took r h) = h"
  by (cases r) (simp_all add: gave_def took_def)

lemma took_gave: "(\<And>a. r = Some a \<Longrightarrow> 0 < h a) \<Longrightarrow> took r (gave r h) = h"
  by (cases r) (simp_all add: gave_def took_def)

lemma took_add: "took r (\<lambda>v. h v + q v) = (\<lambda>v. took r h v + q v)"
  by (cases r) (auto simp: took_def fun_eq_iff)

lemma gave_add: "(\<And>a. r = Some a \<Longrightarrow> 0 < h a) \<Longrightarrow> gave r (\<lambda>v. h v + q v) = (\<lambda>v. gave r h v + q v)"
  by (cases r) (auto simp: gave_def fun_eq_iff)

text \<open>The laws of the two reference counted tables, in one form.\<close>

lemma look_took:
  "valid (usm_inv hu) (usm_lookup_user k) (\<lambda>r. usm_inv (took r hu)) (\<lambda>_. False)"
  "valid (shm_inv sys hu hs X) (shm_lookup_share sys n) (\<lambda>r. shm_inv sys hu (took r hs) X) (\<lambda>_. False)"
  by (rule valid_post [OF usr.look_law], simp add: took_def split: option.splits)
    (rule valid_post [OF shr.look_law], simp add: took_def split: option.splits)

lemma put_gave_user:
  assumes "\<And>a. r = Some a \<Longrightarrow> 0 < hu a"
  shows "valid (usm_inv hu) (put_ksmbd_user r) (\<lambda>_. usm_inv (gave r hu)) (\<lambda>_. False)"
proof (cases r)
  case None
  then show ?thesis by (simp add: gave_def put_ksmbd_user_def valid_ret)
next
  case (Some a)
  with usr.put_law [of hu a] assms show ?thesis by (simp add: gave_def)
qed

lemma put_gave_share:
  assumes "\<And>a. r = Some a \<Longrightarrow> 0 < hs a"
  shows "valid (shm_inv sys hu hs X) (put_ksmbd_share sys r) (\<lambda>_. shm_inv sys hu (gave r hs) X) (\<lambda>_. False)"
proof (cases r)
  case None
  then show ?thesis by (simp add: gave_def put_ksmbd_share_def valid_ret)
next
  case (Some a)
  with shr.put_law [of hs a] assms show ?thesis by (simp add: gave_def)
qed

lemma close_share:
  assumes "\<And>a. r = Some a \<Longrightarrow> 0 < hs a"
  shows "valid (shm_inv sys hu hs X) (shm_close_connection r) (\<lambda>_. shm_inv sys hu hs X) (\<lambda>_. False)"
proof (cases r)
  case None
  then show ?thesis by (simp add: shm_close_connection_def valid_ret)
next
  case (Some a)
  with shm_close_connection_valid [of hs a] assms show ?thesis by simp
qed

lemma users_sm:
  assumes "\<And>q. valid (usm_inv (\<lambda>u. hu u + q u)) m (\<lambda>r. usm_inv (\<lambda>u. hu' r u + q u)) (\<lambda>_. False)"
    and "usm_frame (m :: ('x sms_scheme, 'r) act)"
  shows "valid (sm_inv sys hu hs g) m (\<lambda>r. sm_inv sys (hu' r) hs g) (\<lambda>_. False)"
proof (rule sm_lift [where b = False, simplified])
  fix p q :: "addr \<Rightarrow> nat"
  have "valid (usm_inv (\<lambda>u. hu u + p u + q u)) m (\<lambda>r. usm_inv (\<lambda>u. hu' r u + p u + q u)) (\<lambda>_. False)" for q
    using assms(1) [of "\<lambda>u. p u + q u"] by (simp add: add.assoc)
  then show "valid (shm_inv sys (\<lambda>u. hu u + p u) (\<lambda>a. hs a + q a) {}) m
      (\<lambda>r. shm_inv sys (\<lambda>u. hu' r u + p u) (\<lambda>a. hs a + q a) {}) (\<lambda>_. False)"
    by (rule users_shm [where b = False, simplified, OF _ assms(2)])
qed (rule usm_frame_shm [OF assms(2)])

lemma lookup_user_sm:
  "valid (sm_inv sys hu hs g) (usm_lookup_user k) (\<lambda>r. sm_inv sys (took r hu) hs g) (\<lambda>_. False)"
  using look_took(1) by (intro users_sm usm_frame_users(5)) (simp flip: took_add)

lemma put_user_sm:
  assumes "\<And>a. r = Some a \<Longrightarrow> 0 < hu a"
  shows "valid (sm_inv sys hu hs g) (put_ksmbd_user r) (\<lambda>_. sm_inv sys (gave r hu) hs g) (\<lambda>_. False)"
proof (rule users_sm [OF _ usm_frame_users(4)])
  fix q :: "addr \<Rightarrow> nat"
  show "valid (usm_inv (\<lambda>u. hu u + q u)) (put_ksmbd_user r) (\<lambda>_. usm_inv (\<lambda>u. gave r hu u + q u)) (\<lambda>_. False)"
    using put_gave_user [of r "\<lambda>u. hu u + q u"] assms by (simp add: gave_add)
qed

lemma lookup_share_sm:
  "valid (sm_inv sys hu hs g) (shm_lookup_share sys k) (\<lambda>r. sm_inv sys hu (took r hs) g) (\<lambda>_. False)"
  using look_took(2) by (intro sm_lift [where b = False, simplified] shm_frame_shares) (simp flip: took_add)

lemma put_share_sm:
  assumes "\<And>a. r = Some a \<Longrightarrow> 0 < hs a"
  shows "valid (sm_inv sys hu hs g) (put_ksmbd_share sys r) (\<lambda>_. sm_inv sys hu (gave r hs) g) (\<lambda>_. False)"
proof (rule sm_lift [where b = False, simplified, OF _ shm_frame_shares(3)])
  fix p q :: "addr \<Rightarrow> nat"
  show "valid (shm_inv sys (\<lambda>u. hu u + p u) (\<lambda>a. hs a + q a) {}) (put_ksmbd_share sys r)
      (\<lambda>_. shm_inv sys (\<lambda>u. hu u + p u) (\<lambda>a. gave r hs a + q a) {}) (\<lambda>_. False)"
    using put_gave_share [of r "\<lambda>a. hs a + q a"] assms by (simp add: gave_add)
qed

lemma close_share_sm:
  assumes "\<And>a. r = Some a \<Longrightarrow> 0 < hs a"
  shows "valid (sm_inv sys hu hs g) (shm_close_connection r) (\<lambda>_. sm_inv sys hu hs g) (\<lambda>_. False)"
  by (rule sm_lift [where b = False, simplified, OF _ shm_frame_shares(6)], rule close_share) (use assms in auto)

lemma open_share_sm:
  assumes "0 < hs a"
  shows "valid (sm_inv sys hu hs g) (shm_open_connection a) (\<lambda>_. sm_inv sys hu hs g) (sm_inv sys hu hs g)"
  by (rule sm_lift [where b = True, simplified, OF _ shm_frame_shares(5)], rule shm_open_connection_valid) (use assms in auto)

lemma tree_conn_free_sm:
  assumes "\<And>a. tc_share conn = Some a \<Longrightarrow> 0 < hs a"
  shows "valid (sm_inv sys hu hs g) (tcm_tree_conn_free sys conn) (\<lambda>_. sm_inv sys hu (gave (tc_share conn) hs) g) (\<lambda>_. False)"
  unfolding tcm_tree_conn_free_def
  by (rule valid_sq [OF close_share_sm put_share_sm]) (use assms in auto)

lemma sess_tabI:
  assumes "ht_ok id (sessions_table s)"
    and "\<And>i a. (i, a) \<in> set (sessions_table s) \<Longrightarrow> \<exists>x. sessions s a = Some x \<and> ss_id x = i"
    and "\<And>a x. sessions s a = Some x \<Longrightarrow> a < sessions_next s \<and> (ss_id x, a) \<in> set (sessions_table s)
           \<and> ss_ref_counter x = int (length (ss_tree_conns x) + g a) \<and> 0 < ss_ref_counter x"
    and "\<And>a. sessions s a = None \<Longrightarrow> g a = 0"
  shows "sess_tab g s"
  unfolding sess_tab_def
proof (intro conjI allI ballI)
  fix a show "case sessions s a of None \<Rightarrow> g a = 0
      | Some x \<Rightarrow> a < sessions_next s \<and> (ss_id x, a) \<in> set (sessions_table s)
          \<and> ss_ref_counter x = int (length (ss_tree_conns x) + g a) \<and> 0 < ss_ref_counter x"
    using assms(3,4) [of a] by (cases "sessions s a") simp_all
qed (use assms(1,2) in auto)

text \<open>A change of one session.\<close>

lemma sm_inv_update:
  assumes s: "sm_inv sys hu hs g s" and x: "sessions s a = Some x" and i: "ss_id x' = ss_id x"
    and r: "ss_ref_counter x' = int (length (ss_tree_conns x') + j)" "0 < ss_ref_counter x'"
    and u: "\<And>u. hu' u + user_refs u x' = hu u + user_refs u x"
    and c: "\<And>a. hs' a + share_refs a x' = hs a + share_refs a x"
  shows "sm_inv sys hu' hs' (g(a := j)) (s\<lparr>sessions := (sessions s)(a \<mapsto> x')\<rparr>)"
proof -
  have t: "sess_tab g s" using s by (simp add: sm_inv_def)
  have n: "a < sessions_next s" using sess_tabD(3) [OF t x] by simp
  have "hu' v + sess_refs (user_refs v) ((sessions s)(a \<mapsto> x')) (sessions_next s)
      = hu v + sess_refs (user_refs v) (sessions s) (sessions_next s)" for v
    using sess_refs_update [OF n, of "user_refs v" "sessions s" "Some x'"] u [of v] x by simp
  moreover have "hs' v + sess_refs (share_refs v) ((sessions s)(a \<mapsto> x')) (sessions_next s)
      = hs v + sess_refs (share_refs v) (sessions s) (sessions_next s)" for v
    using sess_refs_update [OF n, of "share_refs v" "sessions s" "Some x'"] c [of v] x by simp
  moreover have "sess_tab (g(a := j)) (s\<lparr>sessions := (sessions s)(a \<mapsto> x')\<rparr>)"
  proof (rule sess_tabI)
    fix k b assume "(k, b) \<in> set (sessions_table (s\<lparr>sessions := (sessions s)(a \<mapsto> x')\<rparr>))"
    then show "\<exists>y. sessions (s\<lparr>sessions := (sessions s)(a \<mapsto> x')\<rparr>) b = Some y \<and> ss_id y = k"
      using sess_tabD(2) [OF t, of k b] x i by auto
  next
    fix b y assume "sessions (s\<lparr>sessions := (sessions s)(a \<mapsto> x')\<rparr>) b = Some y"
    then show "b < sessions_next (s\<lparr>sessions := (sessions s)(a \<mapsto> x')\<rparr>)
        \<and> (ss_id y, b) \<in> set (sessions_table (s\<lparr>sessions := (sessions s)(a \<mapsto> x')\<rparr>))
        \<and> ss_ref_counter y = int (length (ss_tree_conns y) + (g(a := j)) b) \<and> 0 < ss_ref_counter y"
      using sess_tabD(3) [OF t, of b y] sess_tabD(3) [OF t x] i r by (cases "b = a") simp_all
  qed (use sess_tabD(1,4) [OF t] in \<open>auto split: if_splits\<close>)
  ultimately show ?thesis
    using s by (simp add: sm_inv_def)
qed

lemma sm_inv_table: "sm_inv sys hu hs g s \<Longrightarrow> (i, a) \<in> set (sessions_table s) \<Longrightarrow>
    \<exists>x. sessions s a = Some x \<and> ss_id x = i \<and> 0 < ss_ref_counter x \<and> ss_ref_counter x = int (length (ss_tree_conns x) + g a)"
  using sess_tabD(2) [of g s i a] sess_tabD(3) [of g s a] by (auto simp: sm_inv_def)

lemma sm_lookup_session_sm:
  "valid (sm_inv sys hu hs g) (sm_lookup_session i) (\<lambda>r. sm_inv sys hu hs (took r g)) (\<lambda>_. False)"
proof (rule validI)
  fix s :: "'a sms_scheme" assume s: "sm_inv sys hu hs g s"
  show "case sm_lookup_session i s of (Inr r, t) \<Rightarrow> sm_inv sys hu hs (took r g) t
      | (Inl (Err e), t) \<Rightarrow> False | (Inl Fault, t) \<Rightarrow> False"
  proof (cases "ht_lookup id (sessions_table s) i")
    case None
    with s show ?thesis by (simp add: sm_lookup_session_def act_simps bnd_def took_def)
  next
    case (Some a)
    then have "(i, a) \<in> set (sessions_table s)" by (auto dest: ht_lookup_SomeD)
    from sm_inv_table [OF s this] obtain x where x: "sessions s a = Some x" "0 < ss_ref_counter x"
      "ss_ref_counter x = int (length (ss_tree_conns x) + g a)" by auto
    have "sm_inv sys hu hs (g(a := Suc (g a))) (s\<lparr>sessions := (sessions s)(a \<mapsto> ss_ref_counter_update (\<lambda>n. n + 1) x)\<rparr>)"
      by (rule sm_inv_update [OF s x(1)]) (use x in \<open>simp_all add: user_refs_def share_refs_def\<close>)
    with Some x show ?thesis
      by (simp add: sm_lookup_session_def get_session_def get_sess_def set_sess_def act_simps bnd_def sq_def took_def)
  qed
qed

lemma sm_lookup_none:
  assumes "sm_inv sys hu hs g s" "sm_lookup_session i s = (Inr None, t)"
  shows "t = s \<and> ht_lookup id (sessions_table s) i = None"
proof (cases "ht_lookup id (sessions_table s) i")
  case None
  with assms show ?thesis by (simp add: sm_lookup_session_def act_simps bnd_def)
next
  case (Some a)
  then have "(i, a) \<in> set (sessions_table s)" by (auto dest: ht_lookup_SomeD)
  from sm_inv_table [OF assms(1) this] Some assms(2) show ?thesis
    by (auto simp: sm_lookup_session_def get_session_def get_sess_def set_sess_def act_simps bnd_def sq_def)
qed

lemma put_user_shm:
  "(\<And>a. r = Some a \<Longrightarrow> 0 < hu a) \<Longrightarrow>
   valid (shm_inv sys hu hs X) (put_ksmbd_user r) (\<lambda>_. shm_inv sys (gave r hu) hs X) (\<lambda>_. False)"
  by (rule users_shm [where b = False, simplified, OF _ usm_frame_users(4)])
    (use put_gave_user [of r "\<lambda>u. hu u + _ u"] in \<open>simp add: gave_add\<close>)

lemma tree_conns_free_shm:
  "valid (shm_inv sys hu (\<lambda>a. hs a + count_list (map tc_share conns) (Some a)) X) (each (tcm_tree_conn_free sys) conns)
     (\<lambda>_. shm_inv sys hu hs X) (\<lambda>_. False)"
proof (induction conns)
  case Nil
  then show ?case by (simp add: valid_ret)
next
  case (Cons c conns)
  let ?h = "\<lambda>a. hs a + count_list (map tc_share (c # conns)) (Some a)"
  have p: "0 < ?h a" if "tc_share c = Some a" for a using that by simp
  have e: "gave (tc_share c) ?h = (\<lambda>a. hs a + count_list (map tc_share conns) (Some a))"
    by (cases "tc_share c") (auto simp: gave_def fun_eq_iff)
  have "valid (shm_inv sys hu ?h X) (tcm_tree_conn_free sys c) (\<lambda>_. shm_inv sys hu (gave (tc_share c) ?h) X) (\<lambda>_. False)"
    unfolding tcm_tree_conn_free_def by (rule valid_sq [OF close_share [OF p] put_gave_share [OF p]])
  note this [unfolded e]
  from valid_sq [OF this Cons] show ?case by simp
qed

lemma shm_frameD: "shm_frame m \<Longrightarrow> m s = (r, t) \<Longrightarrow> shm.more t = shm.more s"
  unfolding shm_frame_def by (metis snd_conv)

text \<open>Freeing a session gives back its user and its shares.\<close>

lemma kill_session_eq:
  fixes s :: "'x sms_scheme"
  assumes i: "shm_inv sys (\<lambda>u. P u + user_refs u x) (\<lambda>a. Q a + share_refs a x) {} s" and x: "sessions s a = Some x"
  shows "\<exists>t. kill_ksmbd_session sys a s = (Inr (), t) \<and> shm_inv sys P Q {} t
     \<and> shm.more t = shm.more (s\<lparr>sessions := (sessions s)(a := None)\<rparr>)"
proof -
  obtain t where t: "each (tcm_tree_conn_free sys) (ss_tree_conns x) s = (Inr (), t)" "shm_inv sys (\<lambda>u. P u + user_refs u x) Q {} t"
    using valid_returns_unit [OF tree_conns_free_shm i [unfolded share_refs_def]] by blast
  have "gave (ss_user x) (\<lambda>u. P u + user_refs u x) = P"
    by (cases "ss_user x") (auto simp: gave_def user_refs_def fun_eq_iff)
  then obtain v where v: "put_ksmbd_user (ss_user x) t = (Inr (), v)" "shm_inv sys P Q {} v"
    using valid_returns_unit [OF put_user_shm t(2), of "ss_user x"] by (auto simp: user_refs_def)
  have "shm.more v = shm.more s"
    using shm_frameD [OF shm_frame_each [OF shm_frame_shares(7)] t(1)] shm_frameD [OF usm_frame_shm [OF usm_frame_users(4)] v(1)] by simp
  then have "shm.more (v\<lparr>sessions := (sessions v)(a := None)\<rparr>) = shm.more (s\<lparr>sessions := (sessions s)(a := None)\<rparr>)"
    by (cases v; cases s) simp
  with v x t(1) show ?thesis
    by (auto simp: kill_ksmbd_session_def get_sess_def modify_def)
qed

text \<open>A session that nobody uses leaves the table and the heap.\<close>

lemma sess_tab_unlink:
  assumes t: "sess_tab g s" and x: "sessions s a = Some x"
    and m: "sessions s' = (sessions s)(a := None)" "sessions_next s' = sessions_next s"
      "sessions_table s' = snd (ht_remove id (ss_id x) (sessions_table s))"
  shows "sess_tab (g(a := 0)) s'"
proof (rule sess_tabI)
  have i: "(ss_id x, a) \<in> set (sessions_table s)" using sess_tabD(3) [OF t x] by simp
  show "\<exists>y. sessions s' b = Some y \<and> ss_id y = k" if "(k, b) \<in> set (sessions_table s')" for k b
    using that m sess_tabD(2) [OF t, of k b] x by (auto simp: set_ht_remove)
  show "b < sessions_next s' \<and> (ss_id y, b) \<in> set (sessions_table s')
      \<and> ss_ref_counter y = int (length (ss_tree_conns y) + (g(a := 0)) b) \<and> 0 < ss_ref_counter y"
    if "sessions s' b = Some y" for b y
  proof -
    have y: "sessions s b = Some y" "b \<noteq> a" using that m by (auto split: if_splits)
    note d = sess_tabD(3) [OF t y(1)]
    have "ss_id y \<noteq> ss_id x"
      using ht_lookup_SomeI [OF sess_tabD(1) [OF t] i refl] ht_lookup_SomeI [OF sess_tabD(1) [OF t] conjunct1 [OF conjunct2 [OF d]] refl] y(2) by auto
    with d y m show ?thesis by (simp add: set_ht_remove)
  qed
qed (use sess_tabD(1,4) [OF t] m in \<open>auto split: if_splits\<close>)

lemma put_session_sm:
  assumes "0 < g a"
  shows "valid (sm_inv sys hu hs g) (put_session sys a) (\<lambda>_. sm_inv sys hu hs (g(a := g a - 1))) (\<lambda>_. False)"
proof (rule validI)
  fix s :: "'a sms_scheme" assume s: "sm_inv sys hu hs g s"
  have t: "sess_tab g s" using s by (simp add: sm_inv_def)
  obtain x where x: "sessions s a = Some x" using assms sess_tabD(4) [OF t, of a] by (cases "sessions s a") auto
  note d = sess_tabD(3) [OF t x]
  let ?x = "ss_ref_counter_update (\<lambda>n. n - 1) x"
  let ?s = "s\<lparr>sessions := (sessions s)(a \<mapsto> ?x)\<rparr>"
  show "case put_session sys a s of (Inr r, t) \<Rightarrow> sm_inv sys hu hs (g(a := g a - 1)) t
      | (Inl (Err e), t) \<Rightarrow> False | (Inl Fault, t) \<Rightarrow> False"
  proof (cases "ss_ref_counter x = 1")
    case False
    have "sm_inv sys hu hs (g(a := g a - 1)) ?s"
      by (rule sm_inv_update [OF s x]) (use d False assms in \<open>auto simp: user_refs_def share_refs_def\<close>)
    with x False show ?thesis
      by (simp add: put_session_def set_sess_def get_sess_def act_simps bnd_def sq_def)
  next
    case True
    let ?t = "snd (ht_remove id (ss_id x) (sessions_table s))"
    let ?v = "?s\<lparr>sessions_table := ?t\<rparr>"
    have g: "g a = 1" using d True assms by auto
    have n: "a < sessions_next s" using d by simp
    define U where "U = (\<lambda>u. sess_refs (user_refs u) ((sessions s)(a := None)) (sessions_next s))"
    define C where "C = (\<lambda>u. sess_refs (share_refs u) ((sessions s)(a := None)) (sessions_next s))"
    have "sess_refs (user_refs u) (sessions s) (sessions_next s) = U u + user_refs u ?x" for u
      using sess_refs_update [OF n, of "user_refs u" "sessions s" None] x by (simp add: U_def user_refs_def)
    moreover have "sess_refs (share_refs u) (sessions s) (sessions_next s) = C u + share_refs u ?x" for u
      using sess_refs_update [OF n, of "share_refs u" "sessions s" None] x by (simp add: C_def share_refs_def)
    ultimately have "shm_inv sys (\<lambda>u. (hu u + U u) + user_refs u ?x) (\<lambda>b. (hs b + C b) + share_refs b ?x) {} ?v"
      using s by (simp add: sm_inv_def add.assoc)
    from kill_session_eq [OF this, of a] obtain w where w: "kill_ksmbd_session sys a ?v = (Inr (), w)"
        "shm_inv sys (\<lambda>u. hu u + U u) (\<lambda>b. hs b + C b) {} w" "shm.more w = shm.more (?v\<lparr>sessions := (sessions ?v)(a := None)\<rparr>)"
      by auto
    note m = sms_frame [OF w(3)]
    have "sess_tab (g(a := 0)) w"
      by (rule sess_tab_unlink [OF t x]) (use m in simp_all)
    then have "sm_inv sys hu hs (g(a := g a - 1)) w"
      using w(2) m g by (simp add: sm_inv_def U_def C_def)
    moreover have "ht_lookup id (sessions_table s) (ss_id x) = Some a"
      using d ht_lookup_SomeI [OF sess_tabD(1) [OF t]] by blast
    ultimately show ?thesis
      using x True w(1)
      by (simp add: put_session_def sm_remove_session_def set_sess_def get_sess_def ignore_def act_simps ht_remove_def bnd_def sq_def)
  qed
qed

text \<open>A session of an unused id: the new session takes over the caller's reference to the user.\<close>

lemma sm_new_session:
  fixes s :: "'x sms_scheme"
  assumes s: "sm_inv sys hu hs g s" and n: "ht_lookup id (sessions_table s) i = None" and u: "\<And>a. user = Some a \<Longrightarrow> 0 < hu a"
  shows "\<exists>a t. bnd (new_ksmbd_session i user) (sm_insert_session sys i) s = (Inr (Some a), t)
     \<and> sm_inv sys (gave user hu) hs (g(a := Suc (g a))) t"
proof -
  let ?a = "sessions_next s"
  let ?x = "\<lparr>ss_id = i, ss_user = user, ss_tree_conns = [], ss_ref_counter = 1\<rparr>"
  let ?t = "s\<lparr>sessions := (sessions s)(?a \<mapsto> ?x), sessions_next := Suc ?a, sessions_table := sessions_table s @ [(i, ?a)]\<rparr>"
  have t: "sess_tab g s" using s by (simp add: sm_inv_def)
  have a: "sessions s ?a = None" using sess_tabD(3) [OF t, of ?a] by (cases "sessions s ?a") auto
  have "bnd (new_ksmbd_session i user) (sm_insert_session sys i) s = (Inr (Some ?a), ?t)"
    using n by (simp add: new_ksmbd_session_def sm_insert_session_def sm_lookup_session_def get_sess_def act_simps bnd_def sq_def ht_insert_new)
  moreover have "sess_tab (g(?a := Suc (g ?a))) ?t"
  proof (rule sess_tabI)
    show "ht_ok id (sessions_table ?t)"
      using ht_ok_insert [OF sess_tabD(1) [OF t], of i ?a] n by (simp add: ht_insert_new)
    show "\<exists>y. sessions ?t b = Some y \<and> ss_id y = k" if "(k, b) \<in> set (sessions_table ?t)" for k b
      using that sess_tabD(2) [OF t, of k b] a by auto
    show "b < sessions_next ?t \<and> (ss_id y, b) \<in> set (sessions_table ?t)
        \<and> ss_ref_counter y = int (length (ss_tree_conns y) + (g(?a := Suc (g ?a))) b) \<and> 0 < ss_ref_counter y"
      if "sessions ?t b = Some y" for b y
      using that sess_tabD(3) [OF t, of b y] sess_tabD(4) [OF t a] by (cases "b = ?a") auto
  qed (use sess_tabD(4) [OF t] in \<open>auto split: if_splits\<close>)
  moreover
  have n: "sess_refs f (sessions ?t) (sessions_next ?t) = sess_refs f (sessions s) (sessions_next s) + f ?x" for f
    using sess_refs_new [of "sessions s" ?a f ?x] a by simp
  have "gave user hu v + user_refs v ?x = hu v" for v
    using u by (cases user) (auto simp: gave_def user_refs_def)
  then have e: "gave user hu v + (sess_refs (user_refs v) (sessions s) (sessions_next s) + user_refs v ?x)
      = hu v + sess_refs (user_refs v) (sessions s) (sessions_next s)" for v
    by (metis add.commute add.left_commute)
  have "shm_inv sys (\<lambda>v. gave user hu v + sess_refs (user_refs v) (sessions ?t) (sessions_next ?t))
      (\<lambda>v. hs v + sess_refs (share_refs v) (sessions ?t) (sessions_next ?t)) {} ?t"
    unfolding n e using s by (simp add: sm_inv_def share_refs_def)
  ultimately show ?thesis
    unfolding sm_inv_def by blast
qed

definition find_post :: "sysdb \<Rightarrow> addr option \<Rightarrow> (addr \<Rightarrow> nat) \<Rightarrow> (addr \<Rightarrow> nat) \<Rightarrow> (addr \<Rightarrow> nat) \<Rightarrow> addr \<Rightarrow> 'x sms_scheme \<Rightarrow> bool" where
  "find_post sys user hu hs g a s \<longleftrightarrow> sm_inv sys hu hs (g(a := Suc (g a))) s \<or> sm_inv sys (gave user hu) hs (g(a := Suc (g a))) s"

lemma sm_find_session_sm:
  assumes "\<And>a. user = Some a \<Longrightarrow> 0 < hu a"
  shows "valid (sm_inv sys hu hs g) (sm_find_session (Suc n) sys i user) (find_post sys user hu hs g) (\<lambda>_. False)"
proof (rule validI)
  fix s :: "'a sms_scheme" assume s: "sm_inv sys hu hs g s"
  obtain r t where r: "sm_lookup_session i s = (Inr r, t)" "sm_inv sys hu hs (took r g) t"
    using valid_returns [OF sm_lookup_session_sm s] by blast
  show "case sm_find_session (Suc n) sys i user s of (Inr a, t) \<Rightarrow> find_post sys user hu hs g a t
      | (Inl (Err e), t) \<Rightarrow> False | (Inl Fault, t) \<Rightarrow> False"
  proof (cases r)
    case None
    with r sm_lookup_none [OF s] have l: "t = s" "ht_lookup id (sessions_table s) i = None" by auto
    obtain a v where v: "bnd (new_ksmbd_session i user) (sm_insert_session sys i) s = (Inr (Some a), v)"
        "sm_inv sys (gave user hu) hs (g(a := Suc (g a))) v"
      using sm_new_session [OF s l(2) assms] by blast
    then have "bnd (new_ksmbd_session i user) (\<lambda>a. bnd (sm_insert_session sys i a) (\<lambda>r. case r of
           Some sess \<Rightarrow> ret sess | None \<Rightarrow> sm_find_session n sys i user)) s = (Inr a, v)"
      unfolding bnd_assoc [symmetric] by (simp add: ret_def)
    with r None l v show ?thesis by (simp add: find_post_def)
  next
    case (Some a)
    with r show ?thesis by (simp add: find_post_def took_def ret_def)
  qed
qed

lemma sm_handle_tree_connect_sm:
  assumes u: "\<And>a. user = Some a \<Longrightarrow> 0 < hu a" and c: "\<And>a. tc_share conn = Some a \<Longrightarrow> 0 < hs a"
  shows "valid (sm_inv sys hu hs g :: 'x sms_scheme \<Rightarrow> bool) (sm_handle_tree_connect sys i user conn)
     (\<lambda>_ s. (sm_inv sys hu (gave (tc_share conn) hs) g s \<or> sm_inv sys (gave user hu) (gave (tc_share conn) hs) g s)
        \<and> (\<exists>a x. sessions s a = Some x \<and> conn \<in> set (ss_tree_conns x))) (\<lambda>_. False)"
  unfolding sm_handle_tree_connect_def numeral_2_eq_2
proof (rule valid_bnd [OF sm_find_session_sm [OF u]])
  fix a
  have *: "\<exists>t. set_sess a (\<lambda>sess. sess\<lparr>ss_tree_conns := ss_tree_conns sess @ [conn]\<rparr>) s = (Inr (), t)
      \<and> sm_inv sys h (gave (tc_share conn) hs) g t \<and> (\<exists>a x. sessions t a = Some x \<and> conn \<in> set (ss_tree_conns x))" if s: "sm_inv sys h hs (g(a := Suc (g a))) s" for h and s :: "'x sms_scheme"
  proof -
    have t: "sess_tab (g(a := Suc (g a))) s" using s by (simp add: sm_inv_def)
    obtain x where x: "sessions s a = Some x" using sess_tabD(4) [OF t, of a] by (cases "sessions s a") auto
    let ?x = "x\<lparr>ss_tree_conns := ss_tree_conns x @ [conn]\<rparr>"
    have "sm_inv sys h (gave (tc_share conn) hs) ((g(a := Suc (g a)))(a := g a)) (s\<lparr>sessions := (sessions s)(a \<mapsto> ?x)\<rparr>)"
    proof (rule sm_inv_update [OF s x])
      show "gave (tc_share conn) hs b + share_refs b ?x = hs b + share_refs b x" for b
        using c by (cases "tc_share conn") (auto simp: gave_def share_refs_def)
    qed (use sess_tabD(3) [OF t x] in \<open>simp_all add: user_refs_def\<close>)
    with x show ?thesis by (auto simp: set_sess_def intro!: exI [of _ a])
  qed
  show "valid (find_post sys user hu hs g a :: 'x sms_scheme \<Rightarrow> bool) (set_sess a (\<lambda>sess. sess\<lparr>ss_tree_conns := ss_tree_conns sess @ [conn]\<rparr>))
      (\<lambda>_ s. (sm_inv sys hu (gave (tc_share conn) hs) g s \<or> sm_inv sys (gave user hu) (gave (tc_share conn) hs) g s)
        \<and> (\<exists>a x. sessions s a = Some x \<and> conn \<in> set (ss_tree_conns x))) (\<lambda>_. False)"
    unfolding find_post_def by (rule validI, erule disjE) (drule *, fastforce)+
qed

lemma add_sessions_cap_sm: "valid (sm_inv sys hu hs g) (add_sessions_cap d) (\<lambda>_. sm_inv sys hu hs g) E"
  unfolding add_sessions_cap_def by (rule valid_modify) (simp add: sm_inv_def sess_tab_def cong: option.case_cong)

lemma sm_check_sessions_capacity_sm:
  "valid (sm_inv sys hu hs g) (sm_check_sessions_capacity sys i) (\<lambda>_. sm_inv sys hu hs g) (\<lambda>_. False)"
  unfolding sm_check_sessions_capacity_def
proof (rule valid_bnd [OF sm_lookup_session_sm])
  fix r show "valid (sm_inv sys hu hs (took r g)) (case r of
       Some a \<Rightarrow> sq (put_session sys a) (ret None)
     | None \<Rightarrow>
        bnd (reads (\<lambda>s. sessions_cap (global_conf s))) (\<lambda>cap.
        if cap < 1 then ret (Some EINVAL)
        else bnd (reads (\<lambda>s. sessions_cap (global_conf s))) (\<lambda>old.
          sq (add_sessions_cap (- 1))
             (if old < 1 then sq (add_sessions_cap 1) (ret (Some EINVAL)) else ret None)))) (\<lambda>_. sm_inv sys hu hs g) (\<lambda>_. False)"
  proof (cases r)
    case None
    then show ?thesis
      by (auto simp: took_def intro!: valid_bnd [OF valid_reads [where Q = "\<lambda>_. sm_inv sys hu hs g"]] valid_sq [OF add_sessions_cap_sm] valid_ret)
  next
    case (Some a)
    have "(g(a := Suc (g a)))(a := (g(a := Suc (g a))) a - 1) = g" by simp
    with put_session_sm [of "g(a := Suc (g a))" a] Some show ?thesis
      by (auto simp: took_def intro!: valid_sq [where R = "sm_inv sys hu hs g"] valid_ret)
  qed
qed

lemma count_remove1:
  "c \<in> set cs \<Longrightarrow> count_list (map f cs) y = count_list (map f (remove1 c cs)) y + (if f c = y then 1 else 0)"
  by (induction cs) auto

lemma sm_drop_tree_conn_sm:
  assumes "0 < g a"
  shows "valid (sm_inv sys hu hs g) (sm_drop_tree_conn sys a i) (\<lambda>_. sm_inv sys hu hs g) (\<lambda>_. False)"
proof (rule validI)
  fix s :: "'a sms_scheme" assume s: "sm_inv sys hu hs g s"
  have t: "sess_tab g s" using s by (simp add: sm_inv_def)
  obtain x where x: "sessions s a = Some x" using assms sess_tabD(4) [OF t, of a] by (cases "sessions s a") auto
  note d = sess_tabD(3) [OF t x]
  have "\<exists>t. sm_drop_tree_conn sys a i s = (Inr (), t) \<and> sm_inv sys hu hs g t"
  proof (cases "find (lookup_tree_conn i) (ss_tree_conns x)")
    case (Some conn)
    then have m: "conn \<in> set (ss_tree_conns x)" by (auto simp: find_Some_iff)
    then have l: "length (ss_tree_conns x) = Suc (length (remove1 conn (ss_tree_conns x)))"
      using length_pos_if_in_set [OF m] by (simp add: length_remove1)
    let ?x = "x\<lparr>ss_tree_conns := remove1 conn (ss_tree_conns x), ss_ref_counter := ss_ref_counter x - 1\<rparr>"
    let ?s = "s\<lparr>sessions := (sessions s)(a \<mapsto> ?x)\<rparr>"
    have "sm_inv sys hu (took (tc_share conn) hs) (g(a := g a)) ?s"
    proof (rule sm_inv_update [OF s x])
      show "took (tc_share conn) hs b + share_refs b ?x = hs b + share_refs b x" for b
        using count_remove1 [OF m, of tc_share "Some b"] by (cases "tc_share conn") (auto simp: took_def share_refs_def)
    qed (use d l assms in \<open>simp_all add: user_refs_def\<close>)
    then have i: "sm_inv sys hu (took (tc_share conn) hs) g ?s" by simp
    have "valid (sm_inv sys hu (took (tc_share conn) hs) g) (sq (if remove1 conn (ss_tree_conns x) = [] then add_sessions_cap 1 else ret ())
        (tcm_tree_conn_free sys conn)) (\<lambda>_. sm_inv sys hu (gave (tc_share conn) (took (tc_share conn) hs)) g) (\<lambda>_. False)"
      by (rule valid_sq [OF valid_if tree_conn_free_sm]) (auto intro: add_sessions_cap_sm valid_ret simp: took_def)
    from valid_returns_unit [OF this i] Some x show ?thesis
      by (auto simp: sm_drop_tree_conn_def get_sess_def Let_def set_sess_def)
  qed (use s x in \<open>simp add: sm_drop_tree_conn_def get_sess_def ret_def\<close>)
  then show "case sm_drop_tree_conn sys a i s of (Inr r, t) \<Rightarrow> sm_inv sys hu hs g t
      | (Inl (Err e), t) \<Rightarrow> False | (Inl Fault, t) \<Rightarrow> False"
    by auto
qed

lemma put_session_taken:
  "valid (sm_inv sys hu hs (took (Some a) g)) (put_session sys a) (\<lambda>_. sm_inv sys hu hs g) (\<lambda>_. False)"
  using put_session_sm [of "took (Some a) g" a] by (simp add: took_def)

lemma sm_handle_tree_disconnect_sm:
  "valid (sm_inv sys hu hs g) (sm_handle_tree_disconnect sys sess_id i) (\<lambda>_. sm_inv sys hu hs g) (\<lambda>_. False)"
  unfolding sm_handle_tree_disconnect_def
proof (rule valid_bnd [OF sm_lookup_session_sm], rule valid_option)
  fix r and a :: addr assume "r = Some a"
  then show "valid (sm_inv sys hu hs (took r g)) (sq (sm_drop_tree_conn sys a i) (put_session sys a)) (\<lambda>_. sm_inv sys hu hs g) (\<lambda>_. False)"
    using valid_sq [OF sm_drop_tree_conn_sm [of "took (Some a) g" a] put_session_taken] by (simp add: took_def)
qed (simp add: took_def valid_ret)

text \<open>The retry loop: the second round never gets to the third.  When the insertion under the lock finds
  the id in use it frees the session that stays in the table, and the lookup of the next round reads
  freed memory.\<close>

lemma sm_insert_race:
  fixes s :: "'x sms_scheme"
  assumes s: "sm_inv sys hu hs g s" and b: "(i, b) \<in> set (sessions_table s)" and u: "\<And>a. user = Some a \<Longrightarrow> 0 < hu a"
  shows "\<exists>t. bnd (new_ksmbd_session i user) (sm_insert_session sys i) s = (Inr None, t)
     \<and> sessions t b = None \<and> ht_lookup id (sessions_table t) i = Some b"
proof -
  obtain x where x: "sessions s b = Some x" "ss_id x = i" "0 < ss_ref_counter x" using sm_inv_table [OF s b] by blast
  let ?a = "sessions_next s"
  let ?n = "\<lparr>ss_id = i, ss_user = user, ss_tree_conns = [], ss_ref_counter = 1\<rparr>"
  let ?x = "ss_ref_counter_update (\<lambda>n. n + 1) x"
  let ?s = "s\<lparr>sessions_next := Suc ?a, sessions := (sessions s)(?a \<mapsto> ?n, b \<mapsto> ?x)\<rparr>"
  have t: "sess_tab g s" using s by (simp add: sm_inv_def)
  have ab: "b < ?a" using sess_tabD(3) [OF t x(1)] by simp
  have l: "ht_lookup id (sessions_table s) i = Some b" using ht_lookup_SomeI [OF sess_tabD(1) [OF t] b refl] .
  define U where "U = (\<lambda>u. sess_refs (user_refs u) ((sessions s)(b := None)) ?a)"
  define C where "C = (\<lambda>u. sess_refs (share_refs u) ((sessions s)(b := None)) ?a)"
  have r: "sess_refs f (sessions s) ?a = sess_refs f ((sessions s)(b := None)) ?a + f x" for f
    using sess_refs_update [OF ab, of f "sessions s" None] x by simp
  have "gave user hu v + user_refs v ?n = hu v" for v
    using u by (cases user) (auto simp: gave_def user_refs_def)
  then have "hu v + sess_refs (user_refs v) (sessions s) ?a = gave user hu v + U v + user_refs v ?x + user_refs v ?n" for v
    unfolding r U_def by (simp add: user_refs_def)
  then have "shm_inv sys (\<lambda>v. (gave user hu v + U v + user_refs v ?x) + user_refs v ?n) (\<lambda>v. (hs v + C v + share_refs v ?x) + share_refs v ?n) {} ?s"
    using s unfolding sm_inv_def r by (simp add: C_def share_refs_def add.assoc)
  from kill_session_eq [OF this, of ?a] ab obtain v where v: "kill_ksmbd_session sys ?a ?s = (Inr (), v)"
      "shm_inv sys (\<lambda>v. gave user hu v + U v + user_refs v ?x) (\<lambda>v. hs v + C v + share_refs v ?x) {} v"
      "shm.more v = shm.more (?s\<lparr>sessions := (sessions ?s)(?a := None)\<rparr>)" by auto
  let ?v = "v\<lparr>sessions_table := snd (ht_insert id i b (sessions_table s))\<rparr>"
  have "shm_inv sys (\<lambda>v. gave user hu v + U v + user_refs v ?x) (\<lambda>v. hs v + C v + share_refs v ?x) {} ?v" using v(2) by simp
  from kill_session_eq [OF this, of b] sms_frame [OF v(3)] ab obtain w where w: "kill_ksmbd_session sys b ?v = (Inr (), w)"
      "shm.more w = shm.more (?v\<lparr>sessions := (sessions ?v)(b := None)\<rparr>)" by auto
  have "bnd (new_ksmbd_session i user) (sm_insert_session sys i) s = (Inr None, w)"
    using x l ab v(1) w(1) sms_frame [OF v(3)]
    by (simp add: new_ksmbd_session_def sm_insert_session_def sm_lookup_session_def get_session_def get_sess_def set_sess_def
        act_simps bnd_def sq_def ht_insert_def)
  then show ?thesis
    using sms_frame [OF w(2)] sms_frame [OF v(3)] by simp
qed

text \<open>The share of a tree connection is alive.\<close>

lemma conn_share_held:
  assumes s: "sm_inv sys hu hs g s" and x: "sessions s a = Some x" "conn \<in> set (ss_tree_conns x)" "tc_share conn = Some b"
  shows "0 < sess_refs (share_refs b) (sessions s) (sessions_next s)"
proof -
  have "a < sessions_next s" using s x(1) by (auto simp: sm_inv_def dest: sess_tabD(3))
  moreover have "0 < share_refs b x"
    using x(2,3) by (metis share_refs_def count_list_0_iff image_eqI list.set_map neq0_conv)
  ultimately show ?thesis
    using sess_refs_update [of a "sessions_next s" "share_refs b" "sessions s" None] x(1) by simp
qed

end
