(* ===== verification/Tree_Conn.thy ===== *)
theory Tree_Conn
  imports Sessions
begin

text \<open>
  \<open>src/tools/management/tree_conn.c\<close>: the decision whether an account may connect to a share from an
  address, and the binding of the tree connection to a session.  The conditions are in the order of
  the code; each failing one goes to \<open>out_error\<close> with its status.
\<close>

section \<open>Frames and constants\<close>

definition KSMBD_TREE_CONN_STATUS_OK :: u16 where "KSMBD_TREE_CONN_STATUS_OK = 0"
definition KSMBD_TREE_CONN_STATUS_NO_SHARE :: u16 where "KSMBD_TREE_CONN_STATUS_NO_SHARE = 2"
definition KSMBD_TREE_CONN_STATUS_NO_USER :: u16 where "KSMBD_TREE_CONN_STATUS_NO_USER = 3"
definition KSMBD_TREE_CONN_STATUS_INVALID_USER :: u16 where "KSMBD_TREE_CONN_STATUS_INVALID_USER = 4"
definition KSMBD_TREE_CONN_STATUS_HOST_DENIED :: u16 where "KSMBD_TREE_CONN_STATUS_HOST_DENIED = 5"
definition KSMBD_TREE_CONN_STATUS_TOO_MANY_CONNS :: u16 where "KSMBD_TREE_CONN_STATUS_TOO_MANY_CONNS = 7"
definition KSMBD_TREE_CONN_STATUS_TOO_MANY_SESSIONS :: u16 where "KSMBD_TREE_CONN_STATUS_TOO_MANY_SESSIONS = 8"
definition KSMBD_TREE_CONN_STATUS_ERROR :: u16 where "KSMBD_TREE_CONN_STATUS_ERROR = 9"

lemmas tree_conn_status_defs = KSMBD_TREE_CONN_STATUS_OK_def KSMBD_TREE_CONN_STATUS_NO_SHARE_def
  KSMBD_TREE_CONN_STATUS_NO_USER_def KSMBD_TREE_CONN_STATUS_INVALID_USER_def KSMBD_TREE_CONN_STATUS_HOST_DENIED_def
  KSMBD_TREE_CONN_STATUS_TOO_MANY_CONNS_def KSMBD_TREE_CONN_STATUS_TOO_MANY_SESSIONS_def KSMBD_TREE_CONN_STATUS_ERROR_def

definition KSMBD_TREE_CONN_FLAG_GUEST_ACCOUNT :: u32 where "KSMBD_TREE_CONN_FLAG_GUEST_ACCOUNT = 0x01"
definition KSMBD_TREE_CONN_FLAG_READ_ONLY :: u32 where "KSMBD_TREE_CONN_FLAG_READ_ONLY = 0x02"
definition KSMBD_TREE_CONN_FLAG_WRITABLE :: u32 where "KSMBD_TREE_CONN_FLAG_WRITABLE = 0x04"
definition KSMBD_TREE_CONN_FLAG_ADMIN_ACCOUNT :: u32 where "KSMBD_TREE_CONN_FLAG_ADMIN_ACCOUNT = 0x08"
definition KSMBD_TREE_CONN_FLAG_UPDATE :: u32 where "KSMBD_TREE_CONN_FLAG_UPDATE = 0x10"

lemmas tree_conn_flag_defs = KSMBD_TREE_CONN_FLAG_GUEST_ACCOUNT_def KSMBD_TREE_CONN_FLAG_READ_ONLY_def
  KSMBD_TREE_CONN_FLAG_WRITABLE_def KSMBD_TREE_CONN_FLAG_ADMIN_ACCOUNT_def KSMBD_TREE_CONN_FLAG_UPDATE_def

definition KSMBD_RESTRICT_ANON_TYPE_1 :: int where "KSMBD_RESTRICT_ANON_TYPE_1 = 1"

record ksmbd_tree_connect_request =
  treq_account_flags :: u16
  treq_session_id :: u64
  treq_connect_id :: u64
  treq_account :: bytes
  treq_share :: bytes
  treq_peer_addr :: bytes

record ksmbd_tree_connect_response =
  tres_status :: u16
  tres_connection_flags :: u16

definition test_account_flag :: "ksmbd_tree_connect_request \<Rightarrow> u32 \<Rightarrow> bool" where
  "test_account_flag req f \<longleftrightarrow> ucast (treq_account_flags req) AND f \<noteq> 0"

section \<open>The decisions\<close>

text \<open>The strings of the request end inside their arrays.\<close>

definition tcm_request_ok :: "ksmbd_tree_connect_request \<Rightarrow> bool" where
  "tcm_request_ok req \<longleftrightarrow>
     \<not> (strnlen (treq_share req) KSMBD_REQ_MAX_SHARE_NAME = KSMBD_REQ_MAX_SHARE_NAME
      \<or> strnlen (treq_account req) KSMBD_REQ_MAX_ACCOUNT_NAME_SZ = KSMBD_REQ_MAX_ACCOUNT_NAME_SZ
      \<or> strnlen (treq_peer_addr req) 64 = 64)"

definition tcm_share_flags :: "ksmbd_share \<Rightarrow> ksmbd_tree_conn \<Rightarrow> ksmbd_tree_conn" where
  "tcm_share_flags sh conn =
    (let conn = (if test_share_flag sh KSMBD_SHARE_FLAG_WRITEABLE then set_conn_flag KSMBD_TREE_CONN_FLAG_WRITABLE conn else conn);
         conn = (if test_share_flag sh KSMBD_SHARE_FLAG_READONLY then set_conn_flag KSMBD_TREE_CONN_FLAG_READ_ONLY conn else conn)
     in if test_share_flag sh KSMBD_SHARE_FLAG_UPDATE then set_conn_flag KSMBD_TREE_CONN_FLAG_UPDATE conn else conn)"

definition tcm_host_denied :: "inet_pton \<Rightarrow> ksmbd_share \<Rightarrow> bytes \<Rightarrow> bool" where
  "tcm_host_denied pton sh peer_addr =
    (case shm_lookup_hosts_map pton sh KSMBD_SHARE_HOSTS_ALLOW_MAP peer_addr of
       Some ENOENT \<Rightarrow> True
     | None \<Rightarrow> False
     | _ \<Rightarrow> shm_lookup_hosts_map pton sh KSMBD_SHARE_HOSTS_DENY_MAP peer_addr = None)"

definition tcm_guest_denied :: "smbconf_global \<Rightarrow> ksmbd_tree_connect_request \<Rightarrow> ksmbd_share \<Rightarrow> bool" where
  "tcm_guest_denied gc req sh \<longleftrightarrow>
     (restrict_anon gc \<ge> KSMBD_RESTRICT_ANON_TYPE_1 \<and> test_account_flag req KSMBD_USER_FLAG_GUEST_ACCOUNT
        \<and> (\<not> test_share_flag sh KSMBD_SHARE_FLAG_GUEST_OK \<or> test_share_flag sh KSMBD_SHARE_FLAG_PIPE))
     \<or> (test_account_flag req KSMBD_USER_FLAG_GUEST_ACCOUNT \<and> \<not> test_share_flag sh KSMBD_SHARE_FLAG_GUEST_OK)"

text \<open>The user lists: a refusal, or the connection and whether the capacity is still to be checked.\<close>

definition tcm_user_lists :: "ksmbd_share \<Rightarrow> bytes \<Rightarrow> ksmbd_tree_conn \<Rightarrow> u16 + (ksmbd_tree_conn \<times> bool)" where
  "tcm_user_lists sh account conn =
    (if shm_lookup_users_map sh KSMBD_SHARE_ADMIN_USERS_MAP account = None
     then Inr (set_conn_flag KSMBD_TREE_CONN_FLAG_ADMIN_ACCOUNT conn, False)
     else if shm_lookup_users_map sh KSMBD_SHARE_INVALID_USERS_MAP account = None
     then Inl KSMBD_TREE_CONN_STATUS_INVALID_USER
     else if shm_lookup_users_map sh KSMBD_SHARE_READ_LIST_MAP account = None
     then Inr (clear_conn_flag KSMBD_TREE_CONN_FLAG_WRITABLE (set_conn_flag KSMBD_TREE_CONN_FLAG_READ_ONLY conn), False)
     else if shm_lookup_users_map sh KSMBD_SHARE_WRITE_LIST_MAP account = None
     then Inr (set_conn_flag KSMBD_TREE_CONN_FLAG_WRITABLE conn, False)
     else case shm_lookup_users_map sh KSMBD_SHARE_VALID_USERS_MAP account of
       None \<Rightarrow> Inr (conn, False)
     | Some ENOENT \<Rightarrow> Inl KSMBD_TREE_CONN_STATUS_INVALID_USER
     | Some _ \<Rightarrow> Inr (conn, True))"

section \<open>The handler\<close>

type_synonym tcm_result = "errno option \<times> ksmbd_tree_connect_response"

definition tcm_out_error ::
    "sysdb \<Rightarrow> ksmbd_tree_conn \<Rightarrow> addr option \<Rightarrow> addr option \<Rightarrow> ksmbd_tree_connect_response \<Rightarrow> u16 \<Rightarrow> ('x sms_scheme, tcm_result) act" where
  "tcm_out_error sys conn share user resp status =
     sq (tcm_tree_conn_free sys conn)
    (sq (shm_close_connection share)
    (sq (put_ksmbd_share sys share)
    (sq (put_ksmbd_user user)
        (ret (Some EINVAL, resp\<lparr>tres_status := status\<rparr>)))))"

definition tcm_bind ::
    "sysdb \<Rightarrow> ksmbd_tree_connect_request \<Rightarrow> ksmbd_tree_connect_response \<Rightarrow> addr \<Rightarrow> addr \<Rightarrow> ksmbd_tree_conn \<Rightarrow> ('x sms_scheme, tcm_result) act" where
  "tcm_bind sys req resp share user conn =
    (let conn = conn\<lparr>tc_id := treq_connect_id req, tc_share := Some share\<rparr> in
     sq (sm_handle_tree_connect sys (treq_session_id req) (Some user) conn)
    (sq (set_share share (clear_share_flag KSMBD_SHARE_FLAG_UPDATE))
        (ret (None, resp\<lparr>tres_connection_flags := ucast (tc_flags conn), tres_status := KSMBD_TREE_CONN_STATUS_OK\<rparr>))))"

definition tcm_admit_user ::
    "sysdb \<Rightarrow> ksmbd_tree_connect_request \<Rightarrow> ksmbd_tree_connect_response \<Rightarrow> addr \<Rightarrow> ksmbd_share \<Rightarrow> ksmbd_tree_conn \<Rightarrow> addr
      \<Rightarrow> ('x sms_scheme, tcm_result) act" where
  "tcm_admit_user sys req resp share sh conn user =
     sq (set_user user (\<lambda>u. u\<lparr>u_failed_login_count := 0, u_flags := u_flags u AND NOT KSMBD_USER_FLAG_DELAY_SESSION\<rparr>))
    (bnd (get_user user) (\<lambda>u.
     let conn = (if test_user_flag u KSMBD_USER_FLAG_GUEST_ACCOUNT then set_conn_flag KSMBD_TREE_CONN_FLAG_GUEST_ACCOUNT conn else conn) in
     case tcm_user_lists sh (c_str (treq_account req)) conn of
       Inl status \<Rightarrow> tcm_out_error sys conn (Some share) (Some user) resp status
     | Inr (conn, check) \<Rightarrow>
        bnd (if check then sm_check_sessions_capacity sys (treq_session_id req) else ret None) (\<lambda>full.
        if full \<noteq> None then tcm_out_error sys conn (Some share) (Some user) resp KSMBD_TREE_CONN_STATUS_TOO_MANY_SESSIONS
        else tcm_bind sys req resp share user conn)))"

definition tcm_connect_account ::
    "sysdb \<Rightarrow> ksmbd_tree_connect_request \<Rightarrow> ksmbd_tree_connect_response \<Rightarrow> addr \<Rightarrow> ksmbd_share \<Rightarrow> ksmbd_tree_conn \<Rightarrow> ('x sms_scheme, tcm_result) act" where
  "tcm_connect_account sys req resp share sh conn =
     bnd (usm_lookup_user (Some (c_str (treq_account req)))) (\<lambda>r. case r of
       None \<Rightarrow> tcm_out_error sys conn (Some share) None resp KSMBD_TREE_CONN_STATUS_NO_USER
     | Some user \<Rightarrow> tcm_admit_user sys req resp share sh conn user)"

text \<open>A guest is served as the share's or else the global guest account, if there is one.\<close>

definition tcm_connect_guest ::
    "sysdb \<Rightarrow> ksmbd_tree_connect_request \<Rightarrow> ksmbd_tree_connect_response \<Rightarrow> addr \<Rightarrow> ksmbd_share \<Rightarrow> ksmbd_tree_conn \<Rightarrow> ('x sms_scheme, tcm_result) act" where
  "tcm_connect_guest sys req resp share sh conn =
    (let guest = set_conn_flag KSMBD_TREE_CONN_FLAG_GUEST_ACCOUNT conn in
     bnd (usm_lookup_user (sh_guest_account sh)) (\<lambda>r. case r of
       Some user \<Rightarrow> tcm_bind sys req resp share user guest
     | None \<Rightarrow>
        bnd (reads (\<lambda>s. gc_guest_account (global_conf s))) (\<lambda>n.
        bnd (usm_lookup_user n) (\<lambda>r. case r of
          Some user \<Rightarrow> tcm_bind sys req resp share user guest
        | None \<Rightarrow> tcm_connect_account sys req resp share sh conn))))"

definition tcm_connect_share ::
    "inet_pton \<Rightarrow> sysdb \<Rightarrow> smbconf_global \<Rightarrow> ksmbd_tree_connect_request \<Rightarrow> ksmbd_tree_connect_response \<Rightarrow> addr
      \<Rightarrow> ('x sms_scheme, tcm_result) act" where
  "tcm_connect_share pton sys gc req resp share =
     bnd (get_share share) (\<lambda>sh.
     let conn = tcm_share_flags sh new_ksmbd_tree_conn in
     bnd (attempt (shm_open_connection share)) (\<lambda>opened.
     if \<not> opened then tcm_out_error sys conn (Some share) None resp KSMBD_TREE_CONN_STATUS_TOO_MANY_CONNS
     else if tcm_host_denied pton sh (c_str (treq_peer_addr req))
     then tcm_out_error sys conn (Some share) None resp KSMBD_TREE_CONN_STATUS_HOST_DENIED
     else if tcm_guest_denied gc req sh
     then tcm_out_error sys conn (Some share) None resp KSMBD_TREE_CONN_STATUS_ERROR
     else if test_account_flag req KSMBD_USER_FLAG_GUEST_ACCOUNT \<and> test_share_flag sh KSMBD_SHARE_FLAG_GUEST_OK
     then tcm_connect_guest sys req resp share sh conn
     else tcm_connect_account sys req resp share sh conn))"

definition tcm_handle_tree_connect ::
    "inet_pton \<Rightarrow> sysdb \<Rightarrow> ksmbd_tree_connect_request \<Rightarrow> ksmbd_tree_connect_response \<Rightarrow> ('x sms_scheme, tcm_result) act" where
  "tcm_handle_tree_connect pton sys req resp =
    (if \<not> tcm_request_ok req then tcm_out_error sys new_ksmbd_tree_conn None None resp KSMBD_TREE_CONN_STATUS_ERROR
     else bnd (reads global_conf) (\<lambda>gc.
     if map_to_guest gc = KSMBD_CONF_MAP_TO_GUEST_NEVER \<and> test_account_flag req KSMBD_USER_FLAG_BAD_PASSWORD
     then tcm_out_error sys new_ksmbd_tree_conn None None resp KSMBD_TREE_CONN_STATUS_INVALID_USER
     else bnd (shm_lookup_share sys (c_str (treq_share req))) (\<lambda>r. case r of
       None \<Rightarrow> tcm_out_error sys new_ksmbd_tree_conn None None resp KSMBD_TREE_CONN_STATUS_NO_SHARE
     | Some share \<Rightarrow> tcm_connect_share pton sys gc req resp share)))"

definition tcm_handle_tree_disconnect :: "sysdb \<Rightarrow> u64 \<Rightarrow> u64 \<Rightarrow> ('x sms_scheme, unit) act" where
  "tcm_handle_tree_disconnect sys sess_id tree_conn_id = sm_handle_tree_disconnect sys sess_id tree_conn_id"

section \<open>Who may connect\<close>

definition on_list :: "ksmbd_share \<Rightarrow> share_users \<Rightarrow> bytes \<Rightarrow> bool" where
  "on_list sh m name \<longleftrightarrow> (case sh_maps sh m of None \<Rightarrow> False | Some t \<Rightarrow> name \<in> fst ` set t)"

definition host_allowed :: "inet_pton \<Rightarrow> ksmbd_share \<Rightarrow> bytes \<Rightarrow> bool" where
  "host_allowed pton sh host \<longleftrightarrow> (case sh_hosts_allow_map sh of
      Some ps \<Rightarrow> \<exists>p \<in> set ps. match_host_cidr pton p host
    | None \<Rightarrow> (case sh_hosts_deny_map sh of None \<Rightarrow> True | Some ps \<Rightarrow> \<forall>p \<in> set ps. \<not> match_host_cidr pton p host))"

definition account_allowed :: "ksmbd_share \<Rightarrow> bytes \<Rightarrow> bool" where
  "account_allowed sh account \<longleftrightarrow> on_list sh KSMBD_SHARE_ADMIN_USERS_MAP account
     \<or> (\<not> on_list sh KSMBD_SHARE_INVALID_USERS_MAP account
        \<and> (on_list sh KSMBD_SHARE_READ_LIST_MAP account \<or> on_list sh KSMBD_SHARE_WRITE_LIST_MAP account
          \<or> on_list sh KSMBD_SHARE_VALID_USERS_MAP account \<or> sh_maps sh KSMBD_SHARE_VALID_USERS_MAP = None))"

lemma ht_lookup_id_None: "ht_lookup id t k = None \<longleftrightarrow> k \<notin> fst ` set t"
  by (simp add: ht_lookup_None)

lemma lookup_users_map_on_list: "shm_lookup_users_map sh m name = None \<longleftrightarrow> on_list sh m name"
  by (auto simp: shm_lookup_users_map_def on_list_def ht_lookup_id_None split: option.split)

lemma lookup_users_map_cases:
  "shm_lookup_users_map sh m name = (if on_list sh m name then None else if sh_maps sh m = None then Some EINVAL else Some ENOENT)"
  by (auto simp: shm_lookup_users_map_def on_list_def ht_lookup_id_None split: option.split)

lemma host_denied_iff: "tcm_host_denied pton sh host \<longleftrightarrow> \<not> host_allowed pton sh host"
  by (auto simp: tcm_host_denied_def host_allowed_def shm_lookup_hosts_map_def list_ex_iff split: option.split)

lemma user_lists_allowed: "(\<exists>x. tcm_user_lists sh account conn = Inr x) \<longleftrightarrow> account_allowed sh account"
  by (auto simp: tcm_user_lists_def lookup_users_map_cases account_allowed_def)

lemma user_lists_read_list:
  assumes "tcm_user_lists sh account conn = Inr (conn', c)" "on_list sh KSMBD_SHARE_READ_LIST_MAP account"
    "\<not> on_list sh KSMBD_SHARE_ADMIN_USERS_MAP account"
  shows "bit (tc_flags conn') 1 \<and> \<not> bit (tc_flags conn') 2"
  using assms by (auto simp: tcm_user_lists_def lookup_users_map_cases set_conn_flag_def clear_conn_flag_def tree_conn_flag_defs
      bit_and_iff bit_or_iff bit_not_iff split: if_splits)

lemma allowed_ref [simp]: "on_list (sh_ref_count_update f sh) m n = on_list sh m n"
    "host_allowed pton (sh_ref_count_update f sh) h = host_allowed pton sh h"
    "account_allowed (sh_ref_count_update f sh) n = account_allowed sh n"
  by (simp_all add: on_list_def host_allowed_def account_allowed_def cong: option.case_cong)

lemma tcm_out_error_Inr: "tcm_out_error sys conn share user resp st s = (Inr (e, out), t) \<Longrightarrow> e = Some EINVAL \<and> tres_status out = st"
  unfolding tcm_out_error_def by (elim sq_InrE) (auto simp: ret_def)

lemma tcm_bind_Inr: "tcm_bind sys req resp share user conn s = (Inr (e, out), t) \<Longrightarrow>
    e = None \<and> tres_status out = KSMBD_TREE_CONN_STATUS_OK \<and> tres_connection_flags out = ucast (tc_flags conn)"
  unfolding tcm_bind_def Let_def by (elim sq_InrE) (auto simp: ret_def)

lemma usm_lookup_user_Some:
  "usm_lookup_user k s = (Inr (Some u), t) \<Longrightarrow> \<exists>n. k = Some n \<and> ht_lookup id (users_table s) n = Some u"
  by (auto simp: usm_lookup_user_def reads_def ret_def bnd_def get_ksmbd_user_def sq_def split: option.splits prod.splits sum.splits if_splits)

lemma admit_user_Inr:
  assumes "tcm_admit_user sys req resp share sh conn user s = (Inr (None, out), t)"
  shows "account_allowed sh (c_str (treq_account req)) \<and> tres_status out = KSMBD_TREE_CONN_STATUS_OK
     \<and> (on_list sh KSMBD_SHARE_READ_LIST_MAP (c_str (treq_account req))
          \<and> \<not> on_list sh KSMBD_SHARE_ADMIN_USERS_MAP (c_str (treq_account req)) \<longrightarrow>
          bit (tres_connection_flags out) 1 \<and> \<not> bit (tres_connection_flags out) 2)"
proof -
  let ?n = "c_str (treq_account req)"
  obtain conn1 s1 where c: "(case tcm_user_lists sh ?n conn1 of
       Inl status \<Rightarrow> tcm_out_error sys conn1 (Some share) (Some user) resp status
     | Inr (conn, check) \<Rightarrow>
        bnd (if check then sm_check_sessions_capacity sys (treq_session_id req) else ret None) (\<lambda>full.
        if full \<noteq> None then tcm_out_error sys conn (Some share) (Some user) resp KSMBD_TREE_CONN_STATUS_TOO_MANY_SESSIONS
        else tcm_bind sys req resp share user conn)) s1 = (Inr (None, out), t)"
    using assms unfolding tcm_admit_user_def Let_def by (elim sq_InrE bnd_InrE)
  then obtain conn2 chk where l: "tcm_user_lists sh ?n conn1 = Inr (conn2, chk)"
    by (auto split: sum.splits dest: tcm_out_error_Inr)
  with c have "bnd (if chk then sm_check_sessions_capacity sys (treq_session_id req) else ret None) (\<lambda>full.
        if full \<noteq> None then tcm_out_error sys conn2 (Some share) (Some user) resp KSMBD_TREE_CONN_STATUS_TOO_MANY_SESSIONS
        else tcm_bind sys req resp share user conn2) s1 = (Inr (None, out), t)" by simp
  then obtain s2 where "tcm_bind sys req resp share user conn2 s2 = (Inr (None, out), t)"
    by (rule bnd_InrE) (auto split: if_splits dest: tcm_out_error_Inr)
  from tcm_bind_Inr [OF this] have o: "tres_status out = KSMBD_TREE_CONN_STATUS_OK" "tres_connection_flags out = ucast (tc_flags conn2)"
    by simp_all
  have "account_allowed sh ?n" using l user_lists_allowed by blast
  with o user_lists_read_list [OF l] show ?thesis by (simp add: bit_ucast_iff)
qed

lemma connect_account_Inr:
  assumes "tcm_connect_account sys req resp share sh conn s = (Inr (None, out), t)"
  shows "c_str (treq_account req) \<in> fst ` set (users_table s) \<and> account_allowed sh (c_str (treq_account req))
     \<and> tres_status out = KSMBD_TREE_CONN_STATUS_OK
     \<and> (on_list sh KSMBD_SHARE_READ_LIST_MAP (c_str (treq_account req))
          \<and> \<not> on_list sh KSMBD_SHARE_ADMIN_USERS_MAP (c_str (treq_account req)) \<longrightarrow>
          bit (tres_connection_flags out) 1 \<and> \<not> bit (tres_connection_flags out) 2)"
proof -
  from assms obtain r s1 where r: "usm_lookup_user (Some (c_str (treq_account req))) s = (Inr r, s1)"
    and k: "(case r of None \<Rightarrow> tcm_out_error sys conn (Some share) None resp KSMBD_TREE_CONN_STATUS_NO_USER
       | Some user \<Rightarrow> tcm_admit_user sys req resp share sh conn user) s1 = (Inr (None, out), t)"
    unfolding tcm_connect_account_def by (rule bnd_InrE)
  then obtain user where u: "r = Some user" by (cases r) (auto dest: tcm_out_error_Inr)
  have "c_str (treq_account req) \<in> fst ` set (users_table s)"
    using usm_lookup_user_Some [OF r [unfolded u]] by (force dest: ht_lookup_SomeD)
  with admit_user_Inr [of sys req resp share sh conn user s1 out t] k u show ?thesis by simp
qed

lemma connect_guest_Inr:
  assumes "tcm_connect_guest sys req resp share sh conn s = (Inr (None, out), t)"
  shows "tres_status out = KSMBD_TREE_CONN_STATUS_OK"
  using assms unfolding tcm_connect_guest_def Let_def
  by (elim bnd_InrE) (auto split: option.splits elim!: bnd_InrE dest: tcm_bind_Inr connect_account_Inr)

lemma shm_lookup_share_Some:
  assumes "shm_lookup_share sys n s = (Inr (Some a), t)"
  shows "\<exists>sh. ht_lookup (shm_casefold_share_name sys) (shares_table s) n = Some a \<and> shares s a = Some sh
     \<and> t = s\<lparr>shares := (shares s)(a \<mapsto> sh_ref_count_update (\<lambda>n. n + 1) sh)\<rparr>"
  using assms by (auto simp: shm_lookup_share_def reads_def ret_def bnd_def get_ksmbd_share_def get_share_def set_share_def sq_def
      split: option.splits if_splits)

lemma attempt_open:
  assumes "attempt (shm_open_connection a) s = (Inr ok, t)" "shares s a = Some sh" "ok"
  shows "(sh_max_connections sh = 0 \<or> sh_num_connections sh < sh_max_connections sh) \<and> users_table t = users_table s"
  using assms by (auto simp: attempt_def shm_open_connection_def get_share_def set_share_def bnd_def fail_def split: if_splits)

definition admitted :: "inet_pton \<Rightarrow> ksmbd_tree_connect_request \<Rightarrow> ksmbd_share \<Rightarrow> 'x usm_scheme \<Rightarrow> ksmbd_tree_connect_response \<Rightarrow> bool" where
  "admitted pton req sh s out \<longleftrightarrow> (sh_max_connections sh = 0 \<or> sh_num_connections sh < sh_max_connections sh)
     \<and> host_allowed pton sh (c_str (treq_peer_addr req))
     \<and> (test_account_flag req KSMBD_USER_FLAG_GUEST_ACCOUNT \<longrightarrow> test_share_flag sh KSMBD_SHARE_FLAG_GUEST_OK)
     \<and> (\<not> test_account_flag req KSMBD_USER_FLAG_GUEST_ACCOUNT \<longrightarrow>
          c_str (treq_account req) \<in> fst ` set (users_table s) \<and> account_allowed sh (c_str (treq_account req))
          \<and> (on_list sh KSMBD_SHARE_READ_LIST_MAP (c_str (treq_account req))
               \<and> \<not> on_list sh KSMBD_SHARE_ADMIN_USERS_MAP (c_str (treq_account req)) \<longrightarrow>
               bit (tres_connection_flags out) 1 \<and> \<not> bit (tres_connection_flags out) 2))
     \<and> tres_status out = KSMBD_TREE_CONN_STATUS_OK"

lemma connect_share_Inr:
  assumes "tcm_connect_share pton sys gc req resp a s = (Inr (None, out), t)" "shares s a = Some sh"
  shows "admitted pton req sh s out"
proof -
  obtain opened s1 where o: "attempt (shm_open_connection a) s = (Inr opened, s1)"
    and k: "(if \<not> opened then tcm_out_error sys (tcm_share_flags sh new_ksmbd_tree_conn) (Some a) None resp KSMBD_TREE_CONN_STATUS_TOO_MANY_CONNS
       else if tcm_host_denied pton sh (c_str (treq_peer_addr req))
       then tcm_out_error sys (tcm_share_flags sh new_ksmbd_tree_conn) (Some a) None resp KSMBD_TREE_CONN_STATUS_HOST_DENIED
       else if tcm_guest_denied gc req sh
       then tcm_out_error sys (tcm_share_flags sh new_ksmbd_tree_conn) (Some a) None resp KSMBD_TREE_CONN_STATUS_ERROR
       else if test_account_flag req KSMBD_USER_FLAG_GUEST_ACCOUNT \<and> test_share_flag sh KSMBD_SHARE_FLAG_GUEST_OK
       then tcm_connect_guest sys req resp a sh (tcm_share_flags sh new_ksmbd_tree_conn)
       else tcm_connect_account sys req resp a sh (tcm_share_flags sh new_ksmbd_tree_conn)) s1 = (Inr (None, out), t)"
    using assms unfolding tcm_connect_share_def Let_def
    by (elim bnd_InrE) (auto simp: get_share_def)
  then have h: "opened" "host_allowed pton sh (c_str (treq_peer_addr req))" "\<not> tcm_guest_denied gc req sh"
    by (auto simp: host_denied_iff split: if_splits dest: tcm_out_error_Inr)
  note a = attempt_open [OF o assms(2) h(1)]
  have g: "test_account_flag req KSMBD_USER_FLAG_GUEST_ACCOUNT \<longrightarrow> test_share_flag sh KSMBD_SHARE_FLAG_GUEST_OK"
    using h(3) by (auto simp: tcm_guest_denied_def)
  show ?thesis
  proof (cases "test_account_flag req KSMBD_USER_FLAG_GUEST_ACCOUNT")
    case True
    with k h g have "tcm_connect_guest sys req resp a sh (tcm_share_flags sh new_ksmbd_tree_conn) s1 = (Inr (None, out), t)"
      by (simp add: host_denied_iff)
    with connect_guest_Inr [OF this] a h g True show ?thesis by (simp add: admitted_def)
  next
    case False
    with k h have "tcm_connect_account sys req resp a sh (tcm_share_flags sh new_ksmbd_tree_conn) s1 = (Inr (None, out), t)"
      by (simp add: host_denied_iff)
    with connect_account_Inr [OF this] a h False show ?thesis by (simp add: admitted_def)
  qed
qed

definition field_of :: "nat \<Rightarrow> bytes \<Rightarrow> bytes" where
  "field_of k n = n @ replicate (k - length n) 0"

lemma c_str_replicate_0 [simp]: "c_str (replicate k 0) = []"
  by (cases k) (simp_all add: c_str_def)

lemma c_str_append_replicate: "0 \<notin> set n \<Longrightarrow> c_str (n @ replicate k 0) = n"
  by (induction n) (auto simp: c_str_def takeWhile_replicate)

lemma c_str_field [simp]: "0 \<notin> set n \<Longrightarrow> c_str (field_of k n) = n"
  by (simp add: field_of_def c_str_append_replicate)

lemma strnlen_field [simp]: "0 \<notin> set n \<Longrightarrow> length n < k \<Longrightarrow> strnlen (field_of k n) k = length n"
  by (simp add: strnlen_def field_of_def c_str_append_replicate)

definition sms_sample :: sms where
  "sms_sample = \<lparr>global_conf = global_conf shm_sample, users_table = users_table shm_sample, users = users shm_sample,
     users_next = users_next shm_sample, shares_table = shares_table shm_sample, shares = shares shm_sample,
     shares_next = shares_next shm_sample, should_reload_config = False, sessions_table = [], sessions = (\<lambda>_. None),
     sessions_next = 0\<rparr>"

definition tree_req :: "bytes \<Rightarrow> u64 \<Rightarrow> u64 \<Rightarrow> ksmbd_tree_connect_request" where
  "tree_req account i c = \<lparr>treq_account_flags = 1, treq_session_id = i, treq_connect_id = c,
     treq_account = field_of 256 account, treq_share = field_of 64 [112], treq_peer_addr = field_of 64 [49]\<rparr>"

definition tree_resp :: ksmbd_tree_connect_response where
  "tree_resp = \<lparr>tres_status = 0, tres_connection_flags = 0\<rparr>"

lemma tree_req_sel [simp]:
  assumes "0 \<notin> set account" "length account < 256"
  shows "tcm_request_ok (tree_req account i c)" "c_str (treq_account (tree_req account i c)) = account"
    "c_str (treq_share (tree_req account i c)) = [112]" "c_str (treq_peer_addr (tree_req account i c)) = [49]"
    "treq_session_id (tree_req account i c) = i" "treq_connect_id (tree_req account i c) = c"
    "test_account_flag (tree_req account i c) KSMBD_USER_FLAG_GUEST_ACCOUNT = False"
    "test_account_flag (tree_req account i c) KSMBD_USER_FLAG_BAD_PASSWORD = False"
  using assms by (simp_all add: tree_req_def tcm_request_ok_def KSMBD_REQ_MAX_SHARE_NAME_def KSMBD_REQ_MAX_ACCOUNT_NAME_SZ_def
      test_account_flag_def user_flag_defs)

lemmas tree_conn_eval = act_simps bnd_def sq_def ht_lookup_Cons shm_lookup_share_def get_ksmbd_share_def get_share_def set_share_def
  tcm_handle_tree_connect_def tcm_connect_share_def tcm_connect_account_def tcm_admit_user_def tcm_bind_def Let_def
  attempt_def shm_open_connection_def tcm_host_denied_def shm_lookup_hosts_map_def tcm_guest_denied_def
  usm_lookup_user_def get_ksmbd_user_def get_user_def set_user_def tcm_user_lists_def shm_lookup_users_map_def
  sm_check_sessions_capacity_def sm_lookup_session_def add_sessions_cap_def
  sm_handle_tree_connect_def sm_find_session.simps(2) [of "Suc 0", simplified numeral_2_eq_2 [symmetric]]
  new_ksmbd_session_def sm_insert_session_def get_sess_def set_sess_def ht_insert_def

lemma sms_sample_connect:
  "\<exists>out t. tcm_handle_tree_connect (\<lambda>_ _. None) sample_sys (tree_req [98, 111, 98] 5 6) tree_resp
     (sms_sample\<lparr>global_conf := (global_conf sms_sample)\<lparr>sessions_cap := 1\<rparr>\<rparr>) = (Inr (None, out), t)"
proof -
  obtain sh where sh: "shares sms_sample 0 = Some sh" "sh_ref_count sh = 1" "sh_max_connections sh = 2" "sh_num_connections sh = 0"
      "sh_hosts_allow_map sh = None" "sh_hosts_deny_map sh = None" "sh_maps sh = (\<lambda>_. None)"
    by (simp add: sms_sample_def shm_sample_def new_ksmbd_share_def set_share_flag_def)
  have s: "shares_table sms_sample = [([112], 0)]" "users_table sms_sample = [([98, 111, 98], 0), ([110], 1)]"
      "users sms_sample 0 = Some bob" "sessions_table sms_sample = []" "sessions sms_sample = (\<lambda>_. None)" "sessions_next sms_sample = 0"
    by (simp_all add: sms_sample_def shm_sample_def usm_sample_def)
  show ?thesis
    using sh s by (simp add: tree_conn_eval bob_def)
qed




section \<open>Consistency\<close>

lemma out_error_sm:
  assumes "\<And>a. share = Some a \<Longrightarrow> 0 < hs a" "\<And>a. user = Some a \<Longrightarrow> 0 < hu a" "tc_share conn = None"
  shows "valid (sm_inv sys hu hs g) (tcm_out_error sys conn share user resp st) (\<lambda>_. sm_inv sys (gave user hu) (gave share hs) g) (\<lambda>_. False)"
proof -
  have f: "valid (sm_inv sys hu hs g) (tcm_tree_conn_free sys conn) (\<lambda>_. sm_inv sys hu hs g) (\<lambda>_. False)"
    using tree_conn_free_sm [of conn hs] assms(3) by (simp add: gave_def)
  show ?thesis
    unfolding tcm_out_error_def
    by (rule valid_sq [OF f valid_sq [OF close_share_sm valid_sq [OF put_share_sm valid_sq [OF put_user_sm valid_ret]]]])
      (use assms in auto)
qed

definition leaks :: "sysdb \<Rightarrow> (addr \<Rightarrow> nat) \<Rightarrow> (addr \<Rightarrow> nat) \<Rightarrow> (addr \<Rightarrow> nat) \<Rightarrow> 'x sms_scheme \<Rightarrow> bool" where
  "leaks sys hu hs g s \<longleftrightarrow> (\<exists>r. sm_inv sys (took r hu) hs g s)"

lemma sm_inv_leaks: "sm_inv sys hu hs g s \<Longrightarrow> leaks sys hu hs g s"
  unfolding leaks_def by (rule exI [of _ None]) (simp add: took_def)

lemma clear_update_sm:
  assumes s: "sm_inv sys hu hs g s" and x: "sessions s a = Some x" "conn \<in> set (ss_tree_conns x)" "tc_share conn = Some b"
  shows "\<exists>t. set_share b (clear_share_flag KSMBD_SHARE_FLAG_UPDATE) s = (Inr (), t) \<and> sm_inv sys hu hs g t"
proof -
  let ?H = "\<lambda>u. hu u + sess_refs (user_refs u) (sessions s) (sessions_next s)"
  let ?S = "\<lambda>a. hs a + sess_refs (share_refs a) (sessions s) (sessions_next s)"
  have i: "shm_inv sys ?H ?S {} s" and t: "sess_tab g s" using s by (simp_all add: sm_inv_def)
  have p: "0 < ?S b" using conn_share_held [OF assms] by simp
  obtain sh where sh: "shares s b = Some sh" "share_ok sh" using shm_inv_held [OF i p] by blast
  let ?sh = "clear_share_flag KSMBD_SHARE_FLAG_UPDATE sh"
  have "shm_inv sys ?H (?S(b := ?S b)) {} (s\<lparr>shares := (shares s)(b \<mapsto> ?sh)\<rparr>)"
    using clear_share_flag_refines [of KSMBD_SHARE_FLAG_UPDATE] sh p
    by (intro shm_inv_update [OF i sh(1)]) (auto simp: refines_share_def clear_share_flag_def)
  moreover have "?S(b := ?S b) = ?S" by (simp add: fun_eq_iff)
  ultimately have "shm_inv sys ?H ?S {} (s\<lparr>shares := (shares s)(b \<mapsto> ?sh)\<rparr>)" by (simp only:)
  moreover have "sess_tab g (s\<lparr>shares := (shares s)(b \<mapsto> ?sh)\<rparr>)"
    using t by (simp add: sess_tab_def cong: option.case_cong)
  ultimately show ?thesis
    using sh by (simp add: set_share_def sm_inv_def)
qed

lemma tcm_bind_sm:
  "valid (sm_inv sys (took (Some user) hu) (took (Some share) hs) g :: 'x sms_scheme \<Rightarrow> bool) (tcm_bind sys req resp share user conn)
     (\<lambda>_. leaks sys hu hs g) (\<lambda>_. False)"
proof -
  let ?hu = "took (Some user) hu" and ?hs = "took (Some share) hs"
  let ?c = "conn\<lparr>tc_id := treq_connect_id req, tc_share := Some share\<rparr>"
  let ?R = "\<lambda>s :: 'x sms_scheme. leaks sys hu hs g s \<and> (\<exists>a x. sessions s a = Some x \<and> ?c \<in> set (ss_tree_conns x))"
  have "valid (sm_inv sys ?hu ?hs g :: 'x sms_scheme \<Rightarrow> bool) (sm_handle_tree_connect sys (treq_session_id req) (Some user) ?c)
     (\<lambda>_ s. (sm_inv sys ?hu (gave (tc_share ?c) ?hs) g s \<or> sm_inv sys (gave (Some user) ?hu) (gave (tc_share ?c) ?hs) g s)
        \<and> (\<exists>a x. sessions s a = Some x \<and> ?c \<in> set (ss_tree_conns x))) (\<lambda>_. False)"
    by (rule sm_handle_tree_connect_sm) (simp_all add: took_def)
  then have "valid (sm_inv sys ?hu ?hs g :: 'x sms_scheme \<Rightarrow> bool) (sm_handle_tree_connect sys (treq_session_id req) (Some user) ?c)
     (\<lambda>_. ?R) (\<lambda>_. False)"
    by (rule valid_post) (auto simp: leaks_def intro: sm_inv_leaks [unfolded leaks_def])
  moreover have "valid ?R (set_share share (clear_share_flag KSMBD_SHARE_FLAG_UPDATE)) (\<lambda>_. leaks sys hu hs g) (\<lambda>_. False)"
  proof (rule validI)
    fix s assume "?R s"
    then obtain r a x where "sm_inv sys (took r hu) hs g s" "sessions s a = Some x" "?c \<in> set (ss_tree_conns x)"
      by (auto simp: leaks_def)
    from clear_update_sm [OF this, of share] show "case set_share share (clear_share_flag KSMBD_SHARE_FLAG_UPDATE) s of
        (Inr x, t) \<Rightarrow> leaks sys hu hs g t | (Inl (Err e), t) \<Rightarrow> False | (Inl Fault, t) \<Rightarrow> False"
      unfolding leaks_def by (clarsimp, blast)
  qed
  ultimately show ?thesis
    unfolding tcm_bind_def Let_def by (intro valid_sq valid_ret) auto
qed

lemma out_error_leaks:
  "tc_share conn = None \<Longrightarrow> valid (sm_inv sys (took user hu) (took share hs) g) (tcm_out_error sys conn share user resp st) (\<lambda>_. leaks sys hu hs g) (\<lambda>_. False)"
  by (rule valid_post [OF out_error_sm]) (auto simp: took_def gave_def intro: sm_inv_leaks split: option.splits)

lemma user_lists_conn: "tcm_user_lists sh n conn = Inr (conn', c) \<Longrightarrow> tc_share conn' = tc_share conn"
  by (auto simp: tcm_user_lists_def lookup_users_map_cases set_conn_flag_def clear_conn_flag_def split: if_splits)

lemma clear_delay_sm:
  assumes "0 < hu a"
  shows "valid (sm_inv sys hu hs g) (set_user a (\<lambda>u. u\<lparr>u_failed_login_count := 0, u_flags := u_flags u AND NOT KSMBD_USER_FLAG_DELAY_SESSION\<rparr>))
     (\<lambda>_. sm_inv sys hu hs g) (\<lambda>_. False)"
  by (rule users_sm [OF set_user_ok usm_frame_basic(5)]) (use assms in \<open>simp_all add: user_ok_def\<close>)

lemma get_user_sm:
  assumes "0 < hu a"
  shows "valid (sm_inv sys hu hs g) (get_user a) (\<lambda>_. sm_inv sys hu hs g) (\<lambda>_. False)"
  by (rule users_sm [OF valid_post [OF get_user_ok] usm_frame_basic(4)]) (use assms in simp_all)

lemma admit_user_sm:
  assumes "tc_share conn = None"
  shows "valid (sm_inv sys (took (Some user) hu) (took (Some share) hs) g) (tcm_admit_user sys req resp share sh conn user)
     (\<lambda>_. leaks sys hu hs g) (\<lambda>_. False)"
  unfolding tcm_admit_user_def Let_def
proof (rule valid_sq [OF clear_delay_sm valid_bnd [OF get_user_sm]])
  fix u
  let ?c = "if test_user_flag u KSMBD_USER_FLAG_GUEST_ACCOUNT then set_conn_flag KSMBD_TREE_CONN_FLAG_GUEST_ACCOUNT conn else conn"
  have c: "tc_share ?c = None" using assms by (simp add: set_conn_flag_def)
  show "valid (sm_inv sys (took (Some user) hu) (took (Some share) hs) g) (case tcm_user_lists sh (c_str (treq_account req)) ?c of
       Inl status \<Rightarrow> tcm_out_error sys ?c (Some share) (Some user) resp status
     | Inr (conn, check) \<Rightarrow>
        bnd (if check then sm_check_sessions_capacity sys (treq_session_id req) else ret None) (\<lambda>full.
        if full \<noteq> None then tcm_out_error sys conn (Some share) (Some user) resp KSMBD_TREE_CONN_STATUS_TOO_MANY_SESSIONS
        else tcm_bind sys req resp share user conn)) (\<lambda>_. leaks sys hu hs g) (\<lambda>_. False)"
  proof (cases "tcm_user_lists sh (c_str (treq_account req)) ?c")
    case (Inl st)
    then show ?thesis by (simp only: sum.case out_error_leaks [OF c])
  next
    case (Inr p)
    obtain conn2 chk where p: "p = (conn2, chk)" by (cases p)
    with Inr c user_lists_conn have c2: "tc_share conn2 = None" by metis
    have "valid (sm_inv sys (took (Some user) hu) (took (Some share) hs) g) (if chk then sm_check_sessions_capacity sys (treq_session_id req) else ret None)
        (\<lambda>_. sm_inv sys (took (Some user) hu) (took (Some share) hs) g) (\<lambda>_. False)"
      by (rule valid_if [OF sm_check_sessions_capacity_sm valid_ret])
    from valid_bnd [OF this valid_if [OF out_error_leaks [OF c2] tcm_bind_sm]] show ?thesis
      using Inr p by (simp only: sum.case prod.case)
  qed
qed (simp_all add: took_def)

lemma connect_account_sm:
  assumes "tc_share conn = None"
  shows "valid (sm_inv sys hu (took (Some share) hs) g) (tcm_connect_account sys req resp share sh conn) (\<lambda>_. leaks sys hu hs g) (\<lambda>_. False)"
  unfolding tcm_connect_account_def
proof (rule valid_bnd [OF lookup_user_sm])
  fix r show "valid (sm_inv sys (took r hu) (took (Some share) hs) g) (case r of
       None \<Rightarrow> tcm_out_error sys conn (Some share) None resp KSMBD_TREE_CONN_STATUS_NO_USER
     | Some user \<Rightarrow> tcm_admit_user sys req resp share sh conn user) (\<lambda>_. leaks sys hu hs g) (\<lambda>_. False)"
    using admit_user_sm [OF assms] out_error_leaks [OF assms, of sys None hu "Some share"] by (cases r) simp_all
qed

lemma connect_guest_sm:
  assumes "tc_share conn = None"
  shows "valid (sm_inv sys hu (took (Some share) hs) g) (tcm_connect_guest sys req resp share sh conn) (\<lambda>_. leaks sys hu hs g) (\<lambda>_. False)"
  unfolding tcm_connect_guest_def Let_def
proof (rule valid_bnd [OF lookup_user_sm], rule valid_option)
  fix r :: "addr option" assume r: "r = None"
  show "valid (sm_inv sys (took r hu) (took (Some share) hs) g) (bnd (reads (\<lambda>s. gc_guest_account (global_conf s))) (\<lambda>n.
        bnd (usm_lookup_user n) (\<lambda>r. case r of
          Some user \<Rightarrow> tcm_bind sys req resp share user (set_conn_flag KSMBD_TREE_CONN_FLAG_GUEST_ACCOUNT conn)
        | None \<Rightarrow> tcm_connect_account sys req resp share sh conn))) (\<lambda>_. leaks sys hu hs g) (\<lambda>_. False)"
  proof (rule valid_bnd [OF valid_reads [where Q = "\<lambda>_. sm_inv sys hu (took (Some share) hs) g"]], use r in \<open>simp add: took_def\<close>)
    fix n show "valid (sm_inv sys hu (took (Some share) hs) g) (bnd (usm_lookup_user n) (\<lambda>r. case r of
          Some user \<Rightarrow> tcm_bind sys req resp share user (set_conn_flag KSMBD_TREE_CONN_FLAG_GUEST_ACCOUNT conn)
        | None \<Rightarrow> tcm_connect_account sys req resp share sh conn)) (\<lambda>_. leaks sys hu hs g) (\<lambda>_. False)"
    proof (rule valid_bnd [OF lookup_user_sm])
      fix r show "valid (sm_inv sys (took r hu) (took (Some share) hs) g) (case r of
          Some user \<Rightarrow> tcm_bind sys req resp share user (set_conn_flag KSMBD_TREE_CONN_FLAG_GUEST_ACCOUNT conn)
        | None \<Rightarrow> tcm_connect_account sys req resp share sh conn) (\<lambda>_. leaks sys hu hs g) (\<lambda>_. False)"
        using tcm_bind_sm connect_account_sm [OF assms] by (cases r) (simp_all add: took_def [of None])
    qed
  qed
qed (use tcm_bind_sm in simp)

lemma get_share_sm:
  assumes "0 < hs a"
  shows "valid (sm_inv sys hu hs g) (get_share a) (\<lambda>_. sm_inv sys hu hs g) (\<lambda>_. False)"
proof (rule validI)
  fix s :: "'a sms_scheme" assume s: "sm_inv sys hu hs g s"
  then obtain sh where "shares s a = Some sh"
    using shm_inv_held [of sys _ _ "{}" s a] assms by (force simp: sm_inv_def)
  with s show "case get_share a s of (Inr x, t) \<Rightarrow> sm_inv sys hu hs g t | (Inl (Err e), t) \<Rightarrow> False | (Inl Fault, t) \<Rightarrow> False"
    by (simp add: get_share_def)
qed

lemma connect_share_sm:
  "valid (sm_inv sys hu (took (Some share) hs) g) (tcm_connect_share pton sys gc req resp share) (\<lambda>_. leaks sys hu hs g) (\<lambda>_. False)"
  unfolding tcm_connect_share_def Let_def
proof (rule valid_bnd [OF get_share_sm])
  fix sh
  let ?c = "tcm_share_flags sh new_ksmbd_tree_conn"
  let ?I = "sm_inv sys hu (took (Some share) hs) g"
  have c: "tc_share ?c = None"
    by (simp add: tcm_share_flags_def Let_def set_conn_flag_def new_ksmbd_tree_conn_def)
  have e: "valid ?I (tcm_out_error sys ?c (Some share) None resp st) (\<lambda>_. leaks sys hu hs g) (\<lambda>_. False)" for st
    using out_error_leaks [OF c, of sys None hu "Some share"] by (simp add: took_def [of None])
  have o: "valid ?I (attempt (shm_open_connection share)) (\<lambda>_. ?I) (\<lambda>_. False)"
    by (rule valid_attempt [OF open_share_sm]) (simp add: took_def)
  show "valid ?I (bnd (attempt (shm_open_connection share)) (\<lambda>opened.
     if \<not> opened then tcm_out_error sys ?c (Some share) None resp KSMBD_TREE_CONN_STATUS_TOO_MANY_CONNS
     else if tcm_host_denied pton sh (c_str (treq_peer_addr req))
     then tcm_out_error sys ?c (Some share) None resp KSMBD_TREE_CONN_STATUS_HOST_DENIED
     else if tcm_guest_denied gc req sh
     then tcm_out_error sys ?c (Some share) None resp KSMBD_TREE_CONN_STATUS_ERROR
     else if test_account_flag req KSMBD_USER_FLAG_GUEST_ACCOUNT \<and> test_share_flag sh KSMBD_SHARE_FLAG_GUEST_OK
     then tcm_connect_guest sys req resp share sh ?c
     else tcm_connect_account sys req resp share sh ?c)) (\<lambda>_. leaks sys hu hs g) (\<lambda>_. False)"
    by (intro valid_bnd [OF o] valid_if e connect_guest_sm connect_account_sm c)
qed (simp add: took_def)

lemma tcm_handle_tree_connect_sm:
  "valid (sm_inv sys hu hs g :: 'x sms_scheme \<Rightarrow> bool) (tcm_handle_tree_connect pton sys req resp) (\<lambda>_. leaks sys hu hs g) (\<lambda>_. False)"
proof -
  have e: "valid (sm_inv sys hu hs g :: 'x sms_scheme \<Rightarrow> bool) (tcm_out_error sys new_ksmbd_tree_conn None None resp st) (\<lambda>_. leaks sys hu hs g) (\<lambda>_. False)" for st
    using out_error_leaks [of new_ksmbd_tree_conn sys None hu None hs] by (simp add: took_def [of None] new_ksmbd_tree_conn_def)
  have l: "valid (sm_inv sys hu hs g :: 'x sms_scheme \<Rightarrow> bool) (bnd (shm_lookup_share sys n) (\<lambda>r. case r of
       None \<Rightarrow> tcm_out_error sys new_ksmbd_tree_conn None None resp KSMBD_TREE_CONN_STATUS_NO_SHARE
     | Some share \<Rightarrow> tcm_connect_share pton sys gc req resp share)) (\<lambda>_. leaks sys hu hs g) (\<lambda>_. False)" for n gc
  proof (rule valid_bnd [OF lookup_share_sm])
    fix r show "valid (sm_inv sys hu (took r hs) g :: 'x sms_scheme \<Rightarrow> bool) (case r of
       None \<Rightarrow> tcm_out_error sys new_ksmbd_tree_conn None None resp KSMBD_TREE_CONN_STATUS_NO_SHARE
     | Some share \<Rightarrow> tcm_connect_share pton sys gc req resp share) (\<lambda>_. leaks sys hu hs g) (\<lambda>_. False)"
      using e connect_share_sm by (cases r) (simp_all add: took_def [of None])
  qed
  show ?thesis
    unfolding tcm_handle_tree_connect_def
    by (intro valid_if e valid_bnd [OF valid_reads [where Q = "\<lambda>_. sm_inv sys hu hs g"]] l)
qed

lemma sms_sample_inv: "sm_inv sample_sys (\<lambda>_. 0) (\<lambda>_. 0) (\<lambda>_. 0) sms_sample"
proof -
  have "shm_inv sample_sys (\<lambda>_. 0) (\<lambda>_. 0) {} sms_sample"
    using shm_sample_inv by (simp add: shm_inv_def shm_tab_def usm_inv_def sms_sample_def cong: option.case_cong)
  then show ?thesis
    by (simp add: sm_inv_def sess_tab_def sess_refs_def sms_sample_def)
qed



text \<open>C27: a refused connection is still counted as closed.  When a share is at its connection limit, the
  refusal with \<open>TOO_MANY_CONNS\<close> lowers the connection count by one, so the next request is let in and
  the limit does not hold.\<close>

theorem tree_connect_refusal_frees_a_slot:
  assumes "tcm_request_ok req" "\<not> test_account_flag req KSMBD_USER_FLAG_BAD_PASSWORD"
    and "ht_lookup (shm_casefold_share_name sys) (shares_table s) (c_str (treq_share req)) = Some a" "shares s a = Some sh"
    and "0 < sh_ref_count sh" "0 < sh_max_connections sh" "sh_num_connections sh = sh_max_connections sh"
  shows "tcm_handle_tree_connect pton sys req resp s = (Inr (Some EINVAL, resp\<lparr>tres_status := KSMBD_TREE_CONN_STATUS_TOO_MANY_CONNS\<rparr>),
     s\<lparr>shares := (shares s)(a \<mapsto> sh\<lparr>sh_num_connections := sh_max_connections sh - 1\<rparr>)\<rparr>)"
proof -
  have e: "sh_ref_count_update ((\<lambda>n. n - 1) \<circ> (\<lambda>n. n + 1)) (sh_num_connections_update (\<lambda>n. n - 1) sh)
      = sh\<lparr>sh_num_connections := sh_max_connections sh - 1\<rparr>"
    using assms(7) by (cases sh) (simp add: comp_def)
  show ?thesis
    using assms
    by (simp add: e tcm_handle_tree_connect_def tcm_connect_share_def tcm_out_error_def tcm_tree_conn_free_def tcm_share_flags_def
        new_ksmbd_tree_conn_def set_conn_flag_def shm_close_connection_def put_ksmbd_share_def put_ksmbd_user_def shm_lookup_share_def
        get_ksmbd_share_def get_share_def set_share_def shm_open_connection_def attempt_def act_simps bnd_def sq_def Let_def)
qed

theorem tree_connect_refusal_frees_a_slot_witness:
  "\<exists>sh t. shares sms_sample 0 = Some sh
     \<and> tcm_handle_tree_connect (\<lambda>_ _. None) sample_sys (tree_req [98, 111, 98] 5 6) tree_resp
         (sms_sample\<lparr>shares := (shares sms_sample)(0 \<mapsto> sh\<lparr>sh_num_connections := 2\<rparr>)\<rparr>)
       = (Inr (Some EINVAL, tree_resp\<lparr>tres_status := 7\<rparr>), t)
     \<and> map_option sh_num_connections (shares t 0) = Some 1"
proof -
  obtain sh where sh: "shares sms_sample 0 = Some sh" "sh_ref_count sh = 1" "sh_max_connections sh = 2"
    by (simp add: sms_sample_def shm_sample_def new_ksmbd_share_def set_share_flag_def)
  let ?s = "sms_sample\<lparr>shares := (shares sms_sample)(0 \<mapsto> sh\<lparr>sh_num_connections := 2\<rparr>)\<rparr>"
  have "shares_table sms_sample = [([112], 0)]" by (simp add: sms_sample_def shm_sample_def)
  with tree_connect_refusal_frees_a_slot [of "tree_req [98, 111, 98] 5 6" sample_sys ?s 0 "sh\<lparr>sh_num_connections := 2\<rparr>" "\<lambda>_ _. None" tree_resp] sh
  show ?thesis by (simp add: ht_lookup_Cons KSMBD_TREE_CONN_STATUS_TOO_MANY_CONNS_def)
qed

text \<open>C26: two threads that connect on the same new session race.  When the session of the id appears in the
  table between the lookup and the locked insertion, the insertion frees that live session and leaves it
  in the table, so the lookup of the retry reads freed memory.\<close>

theorem tree_connect_race_use_after_free:
  assumes "sm_inv sys hu hs g s" and "(i, b) \<in> set (sessions_table s)" and "0 < hu user"
  shows "\<exists>t. bnd (new_ksmbd_session i (Some user)) (sm_insert_session sys i) s = (Inr None, t)
     \<and> sm_lookup_session i t = (Inl Fault, t)"
proof -
  obtain t where t: "bnd (new_ksmbd_session i (Some user)) (sm_insert_session sys i) s = (Inr None, t)"
      "sessions t b = None" "ht_lookup id (sessions_table t) i = Some b"
    using sm_insert_race [OF assms(1,2), of "Some user"] assms(3) by auto
  then have "sm_lookup_session i t = (Inl Fault, t)"
    by (simp add: sm_lookup_session_def get_session_def get_sess_def reads_def bnd_def)
  with t(1) show ?thesis by blast
qed

text \<open>The sample with one session of \<open>bob\<close>, and one more reference to \<open>bob\<close> in a caller's hands.\<close>

definition sms_busy :: sms where
  "sms_busy = sms_sample\<lparr>users := (users sms_sample)(0 \<mapsto> bob\<lparr>u_ref_count := 3\<rparr>),
     sessions_table := [(5, 0)], sessions := [0 \<mapsto> \<lparr>ss_id = 5, ss_user = Some 0, ss_tree_conns = [new_ksmbd_tree_conn], ss_ref_counter = 1\<rparr>],
     sessions_next := 1\<rparr>"

lemma sms_busy_inv: "sm_inv sample_sys ((\<lambda>_. 0)(0 := 1)) (\<lambda>_. 0) (\<lambda>_. 0) sms_busy"
proof -
  have r: "sess_refs (user_refs u) (sessions sms_busy) (sessions_next sms_busy) = (if u = 0 then 1 else 0)"
    "sess_refs (share_refs u) (sessions sms_busy) (sessions_next sms_busy) = 0" for u
    by (simp_all add: sms_busy_def sess_refs_def user_refs_def share_refs_def new_ksmbd_tree_conn_def)
  have h: "held (shares sms_busy) (shares_next sms_busy) u = 0" for u
    by (simp add: sms_busy_def sms_sample_def shm_sample_def held_def held_by_def share_held_def share_users_maps_def map_users_def
        new_ksmbd_share_def set_share_flag_def)
  have "usm_inv (\<lambda>u. if u = 0 then 2 else 0) sms_busy"
    by (rule usm_invI) (auto simp: sms_busy_def sms_sample_def shm_sample_def usm_sample_def ht_ok_def bob_def nobody_def user_inv_def user_ok_def
        KSMBD_USER_FLAG_GUEST_ACCOUNT_def split: if_splits)
  moreover have "shm_tab sample_sys (\<lambda>_. 0) {} sms_busy"
    using sms_sample_inv by (simp add: sm_inv_def shm_inv_def shm_tab_def sess_refs_def sms_busy_def sms_sample_def cong: option.case_cong)
  moreover have "(\<lambda>u. ((\<lambda>_. 0)(0 := 1)) u + (if u = 0 then 1 else 0) + 0) = (\<lambda>u :: addr. if u = 0 then 2 else 0 :: nat)"
    by (simp add: fun_eq_iff)
  ultimately have "shm_inv sample_sys (\<lambda>u. ((\<lambda>_. 0)(0 := 1)) u + (if u = 0 then 1 else 0)) (\<lambda>_. 0) {} sms_busy"
    unfolding shm_inv_def h by (simp only: simp_thms)
  then show ?thesis
    unfolding sm_inv_def r by (simp add: sess_tab_def ht_ok_def sms_busy_def)
qed

theorem tree_connect_race_use_after_free_witness:
  "\<exists>t. bnd (new_ksmbd_session 5 (Some 0)) (sm_insert_session sample_sys 5) sms_busy = (Inr None, t)
     \<and> sm_lookup_session 5 t = (Inl Fault, t)"
  by (rule tree_connect_race_use_after_free [OF sms_busy_inv, of _ 0]) (simp_all add: sms_busy_def)

text \<open>The sample with \<open>bob\<close> on the valid users list of the share and no session allowed.\<close>

definition sms_listed :: sms where
  "sms_listed = sms_sample\<lparr>users := (users sms_sample)(0 \<mapsto> bob\<lparr>u_ref_count := 2\<rparr>),
     shares := (\<lambda>a. map_option (\<lambda>sh. sh\<lparr>sh_maps := (sh_maps sh)(KSMBD_SHARE_VALID_USERS_MAP \<mapsto> [([98, 111, 98], 0)])\<rparr>) (shares sms_sample a))\<rparr>"

lemmas tree_disconnect_eval = tcm_handle_tree_disconnect_def sm_handle_tree_disconnect_def sm_drop_tree_conn_def lookup_tree_conn_def
  tcm_tree_conn_free_def shm_close_connection_def put_ksmbd_share_def put_ksmbd_user_def put_session_def sm_remove_session_def
  kill_ksmbd_session_def get_session_def ignore_def ht_remove_def


end
