(* ===== verification/Asn1.thy ===== *)
theory Asn1
  imports Objects
begin

text \<open>
  \<open>src/tools/asn1.c\<close>: the BER decoder and encoder that the SPNEGO code is written with.  A context is its
  buffer, the index of the next octet and the error code; the decoders return 0 or 1, here an error or
  the values they store.  The loops read octets until one has its high bit clear; they end because the
  context ends.
\<close>

section \<open>Contexts and octets\<close>

record asn1_ctx =
  ac_buf :: "byte list"
  ac_pointer :: nat
  ac_error :: int

definition ASN1_ERR_NOERROR :: int where "ASN1_ERR_NOERROR = 0"
definition ASN1_ERR_DEC_EMPTY :: int where "ASN1_ERR_DEC_EMPTY = 2"
definition ASN1_ERR_DEC_BADVALUE :: int where "ASN1_ERR_DEC_BADVALUE = 5"
definition ASN1_PRI :: u32 where "ASN1_PRI = 0"

abbreviation ac_end :: "asn1_ctx \<Rightarrow> nat" where
  "ac_end ctx \<equiv> length (ac_buf ctx)"

definition asn1_open :: "byte list \<Rightarrow> asn1_ctx" where
  "asn1_open buf = \<lparr>ac_buf = buf, ac_pointer = 0, ac_error = ASN1_ERR_NOERROR\<rparr>"

definition asn1_octet_decode :: "(asn1_ctx, byte) act" where
  "asn1_octet_decode = (\<lambda>ctx.
     if ac_pointer ctx \<ge> ac_end ctx then (Inl (Err EINVAL), ctx\<lparr>ac_error := ASN1_ERR_DEC_EMPTY\<rparr>)
     else (Inr (ac_buf ctx ! ac_pointer ctx), ctx\<lparr>ac_pointer := ac_pointer ctx + 1\<rparr>))"

text \<open>The loop of \<open>asn1_tag_decode\<close> and of \<open>asn1_subid_decode\<close>, which differ in the width of the result.\<close>

function asn1_base128 :: "'w::len word \<Rightarrow> (asn1_ctx, 'w word) act" where
  "asn1_base128 v ctx =
    (case asn1_octet_decode ctx of
       (Inl e, ctx) \<Rightarrow> (Inl e, ctx)
     | (Inr ch, ctx') \<Rightarrow>
        let v = push_bit 7 v OR ucast (ch AND 0x7F) in
        if ch AND 0x80 = 0x80 then asn1_base128 v ctx' else (Inr v, ctx'))"
  by pat_completeness auto

termination
  by (relation "measure (\<lambda>(v, ctx). ac_end ctx - ac_pointer ctx)") (auto simp: asn1_octet_decode_def split: if_splits)

declare asn1_base128.simps [simp del]

definition asn1_tag_decode :: "(asn1_ctx, u32) act" where
  "asn1_tag_decode = asn1_base128 0"

definition asn1_id_decode :: "(asn1_ctx, u32 \<times> u32 \<times> u32) act" where
  "asn1_id_decode =
     bnd asn1_octet_decode (\<lambda>ch.
     let cls = drop_bit 6 (ucast (ch AND 0xC0)); con = drop_bit 5 (ucast (ch AND 0x20)); tag = ucast (ch AND 0x1F) in
     if tag = 0x1F then bnd asn1_tag_decode (\<lambda>tag. ret (cls, con, tag)) else ret (cls, con, tag))"

fun asn1_length_octets :: "nat \<Rightarrow> u32 \<Rightarrow> (asn1_ctx, u32) act" where
  "asn1_length_octets 0 len = ret len"
| "asn1_length_octets (Suc cnt) len =
     bnd asn1_octet_decode (\<lambda>ch. asn1_length_octets cnt (push_bit 8 len OR ucast ch))"

text \<open>The length, or \<open>None\<close> for the indefinite form; \<open>len\<close> starts at 0 in the only caller.\<close>

definition asn1_length_decode :: "(asn1_ctx, u32 option) act" where
  "asn1_length_decode =
     bnd asn1_octet_decode (\<lambda>ch.
     bnd (if ch = 0x80 then ret (None, 0)
          else if ch < 0x80 then ret (Some (ucast ch), ucast ch)
          else bnd (asn1_length_octets (unat (ch AND 0x7F)) 0) (\<lambda>len. ret (Some len, len))) (\<lambda>(r, len).
     bnd (reads (\<lambda>ctx. ac_end ctx - ac_pointer ctx)) (\<lambda>left.
     if unat len > left then fail (Err EINVAL) else ret r)))"

text \<open>The end of the contents, if definite, and class, method and tag.\<close>

definition asn1_header_decode :: "(asn1_ctx, nat option \<times> u32 \<times> u32 \<times> u32) act" where
  "asn1_header_decode =
     bnd asn1_id_decode (\<lambda>(cls, con, tag).
     bnd asn1_length_decode (\<lambda>len.
     if con = ASN1_PRI \<and> len = None then fail (Err EINVAL)
     else bnd (reads ac_pointer) (\<lambda>p. ret (map_option (\<lambda>l. p + unat l) len, cls, con, tag))))"

text \<open>The octets up to \<open>eoc\<close>.  \<open>g_try_malloc\<close> gives no memory for a size of 0, nor for the huge
  size that a difference below 0 becomes; both count as errors, here and in \<open>asn1_read\<close>.\<close>

fun asn1_octets_loop :: "nat \<Rightarrow> (asn1_ctx, byte list) act" where
  "asn1_octets_loop 0 = ret []"
| "asn1_octets_loop (Suc n) = bnd asn1_octet_decode (\<lambda>ch. bnd (asn1_octets_loop n) (\<lambda>r. ret (ch # r)))"

definition asn1_octets_decode :: "nat \<Rightarrow> (asn1_ctx, byte list) act" where
  "asn1_octets_decode eoc =
     bnd (reads ac_pointer) (\<lambda>p. if eoc \<le> p then fail (Err EINVAL) else asn1_octets_loop (eoc - p))"

definition asn1_read :: "nat \<Rightarrow> (asn1_ctx, byte list) act" where
  "asn1_read len = (\<lambda>ctx.
     if ac_end ctx - ac_pointer ctx < len then (Inl (Err EINVAL), ctx\<lparr>ac_error := ASN1_ERR_DEC_EMPTY\<rparr>)
     else if len = 0 then (Inl (Err EINVAL), ctx)
     else (Inr (slice (ac_pointer ctx) len (ac_buf ctx)), ctx\<lparr>ac_pointer := ac_pointer ctx + len\<rparr>))"

definition asn1_subid_decode :: "(asn1_ctx, u64) act" where
  "asn1_subid_decode = asn1_base128 0"

definition asn1_first_subids :: "u64 \<Rightarrow> u64 list" where
  "asn1_first_subids subid = (if subid < 40 then [0, subid] else if subid < 80 then [1, subid - 40] else [2, subid - 80])"

text \<open>The loop of \<open>asn1_oid_decode\<close>: \<open>room\<close> is what \<open>size\<close> leaves of the array.\<close>

fun asn1_oid_loop :: "nat \<Rightarrow> nat \<Rightarrow> (asn1_ctx, u64 list) act" where
  "asn1_oid_loop room eoc = (\<lambda>ctx.
     if ac_pointer ctx < eoc then
       (case room of
          0 \<Rightarrow> (Inl (Err EINVAL), ctx\<lparr>ac_error := ASN1_ERR_DEC_BADVALUE\<rparr>)
        | Suc room \<Rightarrow> bnd asn1_subid_decode (\<lambda>subid. bnd (asn1_oid_loop room eoc) (\<lambda>r. ret (subid # r))) ctx)
     else (Inr [], ctx))"

declare asn1_oid_loop.simps [simp del]

definition asn1_oid_size :: "nat \<Rightarrow> asn1_ctx \<Rightarrow> u32" where
  "asn1_oid_size eoc ctx = word_of_int (int eoc - int (ac_pointer ctx) + 1)"

definition asn1_oid_size_ok :: "u32 \<Rightarrow> bool" where
  "asn1_oid_size_ok sz \<longleftrightarrow> \<not> (sz < 2 \<or> unat sz > (2 ^ 32 - 1) div 8)"

definition asn1_oid_decode :: "nat \<Rightarrow> (asn1_ctx, u64 list) act" where
  "asn1_oid_decode eoc =
     bnd (reads (asn1_oid_size eoc)) (\<lambda>size.
     if \<not> asn1_oid_size_ok size then fail (Err EINVAL)
     else bnd asn1_subid_decode (\<lambda>subid.
     bnd (asn1_oid_loop (unat size - 2) eoc) (\<lambda>r. ret (asn1_first_subids subid @ r))))"

section \<open>Encoding\<close>

definition asn1_header_overhead :: "u32 \<Rightarrow> u32" where
  "asn1_header_overhead len =
    (if len \<ge> 0x1000000 then 5 else if len \<ge> 0x10000 then 4 else if len \<ge> 0x100 then 3 else if len \<ge> 0x80 then 2 else 1) + 1"

fun asn1_header_len :: "u32 \<Rightarrow> nat \<Rightarrow> u32" where
  "asn1_header_len len 0 = len"
| "asn1_header_len len (Suc depth) = asn1_header_len (len + asn1_header_overhead len) depth"

definition asn1_id_octet :: "u32 \<Rightarrow> u32 \<Rightarrow> u32 \<Rightarrow> byte" where
  "asn1_id_octet cls con tag = ucast (push_bit 6 (cls AND 0x3) OR push_bit 5 (con AND 0x1) OR (tag AND 0x1F))"

text \<open>What is written at \<open>*buf\<close> and the length that is left for the contents.\<close>

definition asn1_header_encode :: "u32 \<Rightarrow> u32 \<Rightarrow> u32 \<Rightarrow> u32 \<Rightarrow> errno + (byte list \<times> u32)" where
  "asn1_header_encode cls con tag len =
    (if len < 2 then Inl EINVAL
     else let id_octet = asn1_id_octet cls con tag; r_len = len - 1 in
       Inr (if r_len - 1 < 0x80 then let r = r_len - 1 in ([id_octet, ucast (r AND 0x7F)], r)
        else if r_len - 2 < 0x100 then let r = r_len - 2 in ([id_octet, 0x81, ucast r], r)
        else if r_len - 3 < 0x10000 then let r = r_len - 3 in ([id_octet, 0x82, ucast (drop_bit 8 r), ucast r], r)
        else if r_len - 4 < 0x1000000 then
          let r = r_len - 4 in ([id_octet, 0x83, ucast (drop_bit 16 r), ucast (drop_bit 8 r), ucast r], r)
        else let r = r_len - 5 in
          ([id_octet, 0x84, ucast (drop_bit 24 r), ucast (drop_bit 16 r), ucast (drop_bit 8 r), ucast r], r)))"

definition asn1_subid_encode :: "u64 \<Rightarrow> byte list" where
  "asn1_subid_encode i =
     (if i \<ge> 2 ^ 28 then [0x80 OR ucast (drop_bit 28 i AND 0x7F)] else [])
     @ (if i \<ge> 2 ^ 21 then [0x80 OR ucast (drop_bit 21 i AND 0x7F)] else [])
     @ (if i \<ge> 2 ^ 14 then [0x80 OR ucast (drop_bit 14 i AND 0x7F)] else [])
     @ (if i \<ge> 2 ^ 7 then [0x80 OR ucast (drop_bit 7 i AND 0x7F)] else [])
     @ [ucast (i AND 0x7F)]"

definition asn1_oid_encode :: "u64 list \<Rightarrow> cerr + byte list" where
  "asn1_oid_encode in_oid =
    (if in_oid = [] then Inl (Err ENOMEM)
     else if length in_oid < 2 then Inl Fault
     else Inr (ucast (40 * in_oid ! 0 + in_oid ! 1) # concat (map asn1_subid_encode (drop 2 in_oid))))"

definition SPNEGO_OID :: "u64 list" where "SPNEGO_OID = [1, 3, 6, 1, 5, 5, 2]"
definition NTLMSSP_OID :: "u64 list" where "NTLMSSP_OID = [1, 3, 6, 1, 4, 1, 311, 2, 2, 10]"
definition KRB5_OID :: "u64 list" where "KRB5_OID = [1, 2, 840, 113554, 1, 2, 2]"
definition KRB5U2U_OID :: "u64 list" where "KRB5U2U_OID = [1, 2, 840, 113554, 1, 2, 2, 3]"
definition MSKRB5_OID :: "u64 list" where "MSKRB5_OID = [1, 2, 840, 48018, 1, 2, 2]"


section \<open>Reading what follows\<close>

text \<open>A context that has read \<open>pre\<close> and has \<open>suf\<close> before it.\<close>

definition asn1_at :: "byte list \<Rightarrow> byte list \<Rightarrow> int \<Rightarrow> asn1_ctx" where
  "asn1_at pre suf e = \<lparr>ac_buf = pre @ suf, ac_pointer = length pre, ac_error = e\<rparr>"

lemma asn1_open_at: "asn1_open buf = asn1_at [] buf ASN1_ERR_NOERROR"
  by (simp add: asn1_open_def asn1_at_def)

lemma asn1_at_sel [simp]:
  "ac_buf (asn1_at pre suf e) = pre @ suf" "ac_pointer (asn1_at pre suf e) = length pre"
  by (simp_all add: asn1_at_def)

lemma octet_at [simp]: "asn1_octet_decode (asn1_at pre (b # suf) e) = (Inr b, asn1_at (pre @ [b]) suf e)"
  by (simp add: asn1_octet_decode_def asn1_at_def)

lemma reads_apply [simp]: "reads f s = (Inr (f s), s)"
  by (simp add: reads_def)

lemma ret_apply [simp]: "ret x s = (Inr x, s)"
  by (simp add: ret_def)

lemma bnd_apply: "bnd m f s = (case m s of (Inl e, t) \<Rightarrow> (Inl e, t) | (Inr x, t) \<Rightarrow> f x t)"
  by (simp add: bnd_def)

lemma bnd_apply_Inr: "m s = (Inr x, t) \<Longrightarrow> bnd m f s = f x t"
  by (simp add: bnd_apply)

lemma base128_more: "b AND 0x80 = 0x80 \<Longrightarrow>
    asn1_base128 v (asn1_at pre (b # suf) e) = asn1_base128 (push_bit 7 v OR ucast (b AND 0x7F)) (asn1_at (pre @ [b]) suf e)"
  by (subst asn1_base128.simps) (simp add: Let_def)

lemma base128_last: "b AND 0x80 \<noteq> 0x80 \<Longrightarrow>
    asn1_base128 v (asn1_at pre (b # suf) e) = (Inr (push_bit 7 v OR ucast (b AND 0x7F)), asn1_at (pre @ [b]) suf e)"
  by (subst asn1_base128.simps) (simp add: Let_def)

lemma mask_7: "(0x7F :: 'a::len word) = mask 7"
  by (simp add: mask_eq_exp_minus_1)

lemma bit_80: "bit (0x80 :: int) n \<longleftrightarrow> n = 7"
proof -
  have "(0x80 :: int) = 2 ^ 7" by simp
  then show ?thesis by (simp only: bit_exp_iff) auto
qed

lemma base128_glue: "push_bit 7 (drop_bit 7 i) OR ucast (ucast (i AND 0x7F) :: byte) = (i :: u64)"
  unfolding mask_7
proof (rule bit_word_eqI)
  fix n
  show "n < LENGTH(64) \<Longrightarrow> bit (push_bit 7 (drop_bit 7 i) OR ucast (ucast (i AND mask 7) :: byte)) n = bit i n"
    by (cases "n < 7") (auto simp: bit_simps)
qed

lemma octet_continued [simp]:
  "((0x80 OR ucast ((i :: u64) AND 0x7F)) :: byte) AND 0x80 = 0x80"
  "((0x80 OR ucast ((i :: u64) AND 0x7F)) :: byte) AND 0x7F = ucast (i AND 0x7F)"
  unfolding mask_7 by (rule bit_word_eqI; auto simp: bit_simps bit_80)+

lemma octet_final [simp]:
  "(ucast ((i :: u64) AND 0x7F) :: byte) AND 0x80 \<noteq> 0x80"
  "(ucast ((i :: u64) AND 0x7F) :: byte) AND 0x7F = ucast (i AND 0x7F)"
proof -
  have "\<not> bit ((ucast (i AND 0x7F) :: byte) AND 0x80) 7" and "bit (0x80 :: byte) 7"
    unfolding mask_7 by (simp_all add: bit_simps bit_80)
  then show "(ucast (i AND 0x7F) :: byte) AND 0x80 \<noteq> 0x80" by metis
  show "(ucast (i AND 0x7F) :: byte) AND 0x7F = ucast (i AND 0x7F)"
    unfolding mask_7 by (rule bit_word_eqI) (auto simp: bit_simps)
qed

text \<open>One octet of a sub-identifier, written when the identifier reaches it.\<close>

definition subid_octet :: "nat \<Rightarrow> u64 \<Rightarrow> byte list" where
  "subid_octet k i = (if i \<ge> 2 ^ k then [0x80 OR ucast (drop_bit k i AND 0x7F)] else [])"

lemma asn1_subid_encode_octets:
  "asn1_subid_encode i = subid_octet 28 i @ subid_octet 21 i @ subid_octet 14 i @ subid_octet 7 i @ [ucast (i AND 0x7F)]"
  by (simp add: asn1_subid_encode_def subid_octet_def)

lemma drop_bit_less: "(i :: 'a::len word) < 2 ^ k \<Longrightarrow> drop_bit k i = 0"
  by (simp add: take_bit_eq_mask less_mask_eq flip: take_bit_eq_self_iff_drop_bit_eq_0)

lemma base128_octet:
  "asn1_base128 (drop_bit (7 + k) i) (asn1_at pre (subid_octet k i @ suf) e) =
    asn1_base128 (drop_bit k i :: u64) (asn1_at (pre @ subid_octet k i) suf e)"
proof (cases "i \<ge> 2 ^ k")
  case True
  then show ?thesis
    using base128_glue [of "drop_bit k i"] by (simp add: subid_octet_def base128_more)
next
  case False
  then have "drop_bit k i = 0" by (simp add: drop_bit_less)
  moreover from this have "drop_bit (7 + k) i = 0" by (simp flip: drop_bit_drop_bit)
  ultimately show ?thesis using False by (simp add: subid_octet_def)
qed

lemma subid_at:
  assumes "i < 2 ^ 35"
  shows "asn1_subid_decode (asn1_at pre (asn1_subid_encode i @ suf) e) = (Inr i, asn1_at (pre @ asn1_subid_encode i) suf e)"
proof -
  have "drop_bit 35 i = 0" using assms by (simp add: drop_bit_less)
  then show ?thesis
    using base128_octet [of 28 i] base128_octet [of 21 i] base128_octet [of 14 i] base128_octet [of 7 i]
      base128_glue [of i]
    by (simp add: asn1_subid_decode_def asn1_subid_encode_octets base128_last)
qed

text \<open>The identifiers that survive a round trip: the first two arcs share an octet, the others have at most
  35 bits.\<close>

definition asn1_oid_ok :: "u64 list \<Rightarrow> bool" where
  "asn1_oid_ok oid \<longleftrightarrow> 2 \<le> length oid \<and> length oid < 2 ^ 26
     \<and> (oid ! 0 < 2 \<and> oid ! 1 < 40 \<or> oid ! 0 = 2 \<and> oid ! 1 < 48)
     \<and> (\<forall>i \<in> set (drop 2 oid). i < 2 ^ 35)"

lemma subid_encode_small: "i < 0x80 \<Longrightarrow> asn1_subid_encode i = [ucast i]"
  using less_mask_eq [of i 7] by (simp add: asn1_subid_encode_def mask_7 not_le word_less_nat_alt)

lemma subid_encode_length: "asn1_subid_encode i \<noteq> []" "length (asn1_subid_encode i) \<le> 5"
  by (simp_all add: asn1_subid_encode_def)

lemma subids_length:
  "length ids \<le> length (concat (map asn1_subid_encode ids))"
  "length (concat (map asn1_subid_encode ids)) \<le> 5 * length ids"
proof (induction ids)
  case (Cons i ids)
  case 1 show ?case using Cons.IH(1) subid_encode_length(1) [of i] by (cases "asn1_subid_encode i") auto
  case 2 show ?case using Cons.IH(2) subid_encode_length(2) [of i] by simp
qed simp_all

lemma oid_loop_at:
  assumes "\<forall>i \<in> set ids. i < 2 ^ 35" and "length ids \<le> room"
    and "eoc = length pre + length (concat (map asn1_subid_encode ids))"
  shows "asn1_oid_loop room eoc (asn1_at pre (concat (map asn1_subid_encode ids) @ suf) e) =
    (Inr ids, asn1_at (pre @ concat (map asn1_subid_encode ids)) suf e)"
  using assms
proof (induction ids arbitrary: room pre)
  case Nil
  then show ?case by (simp add: asn1_oid_loop.simps [of room])
next
  case (Cons i ids)
  then obtain room' where room: "room = Suc room'" by (cases room) auto
  have "asn1_oid_loop room' eoc (asn1_at (pre @ asn1_subid_encode i) (concat (map asn1_subid_encode ids) @ suf) e) =
      (Inr ids, asn1_at ((pre @ asn1_subid_encode i) @ concat (map asn1_subid_encode ids)) suf e)"
    using Cons.prems by (intro Cons.IH) (simp_all add: room)
  with Cons.prems show ?case
    unfolding room asn1_oid_loop.simps [of "Suc room'"]
    using subid_encode_length(1) [of i] subid_at [of i pre] by (simp add: bnd_apply)
qed

lemma first_subids:
  assumes "a < 2 \<and> b < 40 \<or> a = 2 \<and> b < 48"
  shows "40 * a + b < 0x80 \<and> asn1_first_subids (40 * a + b) = [a, b]"
proof -
  have "a < 2 \<Longrightarrow> a = 0 \<or> a = 1" by (simp add: word_less_nat_alt word_unat_eq_iff) arith
  with assms consider "a = 0" "b < 40" | "a = 1" "b < 40" | "a = 2" "b < 48" by auto
  then show ?thesis
  proof cases
    case 1 then show ?thesis by (auto simp: asn1_first_subids_def word_less_nat_alt)
  next
    case 2
    then have "unat (40 + b) = 40 + unat b" by (subst unat_add_lem [THEN iffD1]) (auto simp: word_less_nat_alt)
    with 2 show ?thesis by (auto simp: asn1_first_subids_def word_less_nat_alt)
  next
    case 3
    then have "unat (80 + b) = 80 + unat b" by (subst unat_add_lem [THEN iffD1]) (auto simp: word_less_nat_alt)
    with 3 show ?thesis by (auto simp: asn1_first_subids_def word_less_nat_alt)
  qed
qed

lemma oid_encode_ok:
  assumes "asn1_oid_ok oid"
  obtains ids where "asn1_oid_encode oid = Inr (asn1_subid_encode (40 * oid ! 0 + oid ! 1) @ concat (map asn1_subid_encode ids))"
    and "40 * oid ! 0 + oid ! 1 < 0x80" and "oid = asn1_first_subids (40 * oid ! 0 + oid ! 1) @ ids"
    and "\<forall>i \<in> set ids. i < 2 ^ 35" and "length ids < 2 ^ 26"
proof
  from assms have l: "2 \<le> length oid" and a: "oid ! 0 < 2 \<and> oid ! 1 < 40 \<or> oid ! 0 = 2 \<and> oid ! 1 < 48"
    by (simp_all add: asn1_oid_ok_def)
  from first_subids [OF a] show small: "40 * oid ! 0 + oid ! 1 < 0x80" by simp
  with l show "asn1_oid_encode oid = Inr (asn1_subid_encode (40 * oid ! 0 + oid ! 1) @ concat (map asn1_subid_encode (drop 2 oid)))"
    by (auto simp: asn1_oid_encode_def subid_encode_small)
  from l obtain x y ids where "oid = x # y # ids" by (cases oid; cases "tl oid") auto
  with first_subids [OF a] show "oid = asn1_first_subids (40 * oid ! 0 + oid ! 1) @ drop 2 oid" by simp
qed (use assms in \<open>auto simp: asn1_oid_ok_def\<close>)

lemma oid_size_exact:
  assumes "n < 2 ^ 29 - 10"
  shows "asn1_oid_size_ok (asn1_oid_size (ac_pointer ctx + (n + 1)) ctx)"
    and "unat (asn1_oid_size (ac_pointer ctx + (n + 1)) ctx) = n + 2"
proof -
  define size :: u32 where "size = word_of_nat (n + 2)"
  have s: "asn1_oid_size (ac_pointer ctx + (n + 1)) ctx = size"
    by (simp add: asn1_oid_size_def size_def)
  have u: "unat size = n + 2" unfolding size_def using assms by (subst unat_of_nat) simp
  then have "\<not> size < 2" by (simp add: word_less_nat_alt)
  with s u assms show "asn1_oid_size_ok (asn1_oid_size (ac_pointer ctx + (n + 1)) ctx)"
    and "unat (asn1_oid_size (ac_pointer ctx + (n + 1)) ctx) = n + 2"
    by (simp_all add: asn1_oid_size_ok_def)
qed

lemma oid_decode_size:
  assumes "n < 2 ^ 29 - 10" and "asn1_subid_decode ctx = (Inr i, ctx')"
    and "asn1_oid_loop n (ac_pointer ctx + (n + 1)) ctx' = (Inr ids, ctx'')"
  shows "asn1_oid_decode (ac_pointer ctx + (n + 1)) ctx = (Inr (asn1_first_subids i @ ids), ctx'')"
  using assms oid_size_exact [OF assms(1), of ctx] by (simp add: asn1_oid_decode_def bnd_apply)

lemma oid_at:
  assumes "asn1_oid_ok oid" and "asn1_oid_encode oid = Inr bs"
  shows "asn1_oid_decode (length pre + length bs) (asn1_at pre (bs @ suf) e) = (Inr oid, asn1_at (pre @ bs) suf e)"
proof -
  define i where "i = 40 * oid ! 0 + oid ! 1"
  obtain ids where e: "asn1_oid_encode oid = Inr (asn1_subid_encode i @ concat (map asn1_subid_encode ids))"
    and i: "i < 0x80" and oid: "oid = asn1_first_subids i @ ids"
    and ids: "\<forall>i \<in> set ids. i < 2 ^ 35" "length ids < 2 ^ 26"
    using oid_encode_ok [OF assms(1)] unfolding i_def by blast
  from e assms(2) have bs: "bs = asn1_subid_encode i @ concat (map asn1_subid_encode ids)" by simp
  define n where "n = length (concat (map asn1_subid_encode ids))"
  have n: "length ids \<le> n" "n < 2 ^ 29 - 10" using subids_length [of ids] ids(2) by (auto simp: n_def)
  have len: "length bs = n + 1" using i by (simp add: bs n_def subid_encode_small)
  have s: "asn1_subid_decode (asn1_at pre (bs @ suf) e) =
      (Inr i, asn1_at (pre @ asn1_subid_encode i) (concat (map asn1_subid_encode ids) @ suf) e)"
    using subid_at [of i pre] i by (simp add: bs word_less_nat_alt)
  have "asn1_oid_loop n (ac_pointer (asn1_at pre (bs @ suf) e) + (n + 1))
      (asn1_at (pre @ asn1_subid_encode i) (concat (map asn1_subid_encode ids) @ suf) e) =
      (Inr ids, asn1_at ((pre @ asn1_subid_encode i) @ concat (map asn1_subid_encode ids)) suf e)"
    using ids n(1) len by (intro oid_loop_at) (simp_all add: bs)
  from oid_decode_size [OF n(2) s this] show ?thesis
    by (simp only: len asn1_at_sel oid [symmetric]) (simp add: bs)
qed

subsection \<open>Headers\<close>

lemma octet_glue: "push_bit 8 (drop_bit 8 x) OR ucast (ucast x :: byte) = (x :: u32)"
proof (rule bit_word_eqI)
  fix n
  show "n < LENGTH(32) \<Longrightarrow> bit (push_bit 8 (drop_bit 8 x) OR ucast (ucast x :: byte)) n = bit x n"
    by (cases "n < 8") (auto simp: bit_simps)
qed

lemma octet_glue_at:
  "push_bit 8 (drop_bit 16 x) OR ucast (ucast (drop_bit 8 x) :: byte) = drop_bit 8 (x :: u32)"
  "push_bit 8 (drop_bit 24 x) OR ucast (ucast (drop_bit 16 x) :: byte) = drop_bit 16 (x :: u32)"
  "ucast (ucast (drop_bit 24 x) :: byte) = drop_bit 24 (x :: u32)"
  using octet_glue [of "drop_bit 8 x"] octet_glue [of "drop_bit 16 x"]
  by simp_all (rule bit_word_eqI, auto simp: bit_simps dest: bit_imp_possible_bit)

lemma bits_id: "bit (0xC0 :: int) n \<longleftrightarrow> n = 6 \<or> n = 7" "bit (0x20 :: int) n \<longleftrightarrow> n = 5"
  "bit (0x1F :: int) n \<longleftrightarrow> n < 5" "bit (3 :: int) n \<longleftrightarrow> n < 2"
proof -
  have "(0xC0 :: int) = push_bit 6 (mask 2)" "(0x20 :: int) = push_bit 5 (mask 1)" "(0x1F :: int) = mask 5" "(3 :: int) = mask 2"
    by (simp_all add: mask_eq_exp_minus_1)
  then show "bit (0xC0 :: int) n \<longleftrightarrow> n = 6 \<or> n = 7" "bit (0x20 :: int) n \<longleftrightarrow> n = 5"
    "bit (0x1F :: int) n \<longleftrightarrow> n < 5" "bit (3 :: int) n \<longleftrightarrow> n < 2"
    by (simp_all only: bit_push_bit_iff bit_mask_iff) auto
qed

lemma id_octet_fields:
  "drop_bit 6 (ucast (asn1_id_octet cls con tag AND 0xC0)) = (cls AND 3 :: u32)"
  "drop_bit 5 (ucast (asn1_id_octet cls con tag AND 0x20)) = (con AND 1 :: u32)"
  "ucast (asn1_id_octet cls con tag AND 0x1F) = (tag AND 0x1F :: u32)"
  unfolding asn1_id_octet_def
  by (rule bit_word_eqI; auto simp: bit_simps bits_id)+

lemma id_at:
  assumes "cls < 4" and "con < 2" and "tag < 31"
  shows "asn1_id_decode (asn1_at pre (asn1_id_octet cls con tag # suf) e) =
    (Inr (cls, con, tag), asn1_at (pre @ [asn1_id_octet cls con tag]) suf e)"
proof -
  have "cls AND 3 = cls" "con AND 1 = con" "tag AND 0x1F = tag"
    using less_mask_eq [of cls 2] less_mask_eq [of con 1] less_mask_eq [of tag 5] assms
    by (simp_all add: mask_eq_exp_minus_1 word_less_nat_alt)
  with assms(3) show ?thesis
    by (auto simp: asn1_id_decode_def bnd_apply id_octet_fields Let_def)
qed

lemma octet_short:
  assumes "r < 0x80"
  shows "(ucast (r AND 0x7F) :: byte) < 0x80" and "(ucast (ucast (r AND 0x7F) :: byte) :: u32) = r"
proof -
  have r: "r AND 0x7F = r" using less_mask_eq [of r 7] assms by (simp add: mask_eq_exp_minus_1)
  have "r < 2 ^ 8" using assms by (simp add: word_less_nat_alt)
  then have t: "take_bit 8 r = r" by (simp add: take_bit_eq_mask less_mask_eq)
  show "(ucast (r AND 0x7F) :: byte) < 0x80" "(ucast (ucast (r AND 0x7F) :: byte) :: u32) = r"
    using assms by (simp_all add: r t word_less_nat_alt word_unat_eq_iff unsigned_ucast_eq take_bit_nat_eq_self)
qed

lemma length_octets_at:
  "asn1_length_octets (length bs) v (asn1_at pre (bs @ suf) e) =
    (Inr (foldl (\<lambda>v b. push_bit 8 v OR ucast b) v bs), asn1_at (pre @ bs) suf e)"
  by (induction bs arbitrary: v pre) (simp_all add: bnd_apply)

lemma length_at_long:
  assumes "\<not> ch \<le> 0x80" and "unat (ch AND 0x7F) = length bs"
    and "r = foldl (\<lambda>v b. push_bit 8 v OR ucast b) 0 bs" and "unat r \<le> length suf"
  shows "asn1_length_decode (asn1_at pre (ch # bs @ suf) e) = (Inr (Some r), asn1_at (pre @ ch # bs) suf e)"
  using assms length_octets_at [of bs 0 "pre @ [ch]" suf e] by (auto simp: asn1_length_decode_def bnd_apply)

lemma length_at_short:
  assumes "r < 0x80" and "unat r \<le> length suf"
  shows "asn1_length_decode (asn1_at pre (ucast (r AND 0x7F) # suf) e) =
    (Inr (Some r), asn1_at (pre @ [ucast (r AND 0x7F)]) suf e)"
  using octet_short [OF assms(1)] assms(2) by (auto simp: asn1_length_decode_def bnd_apply)


lemma header_encode_octets:
  assumes enc: "asn1_header_encode cls con tag len = Inr (bs, r)" and room: "unat r \<le> length suf"
  shows "\<exists>lb. bs = asn1_id_octet cls con tag # lb \<and>
    (\<forall>pre e. asn1_length_decode (asn1_at pre (lb @ suf) e) = (Inr (Some r), asn1_at (pre @ lb) suf e))"
proof -
  note long = length_at_long [OF _ _ _ room]
  consider (short) "bs = [asn1_id_octet cls con tag, ucast (r AND 0x7F)]" "r < 0x80"
    | (long1) "bs = [asn1_id_octet cls con tag, 0x81, ucast r]" "r < 0x100"
    | (long2) "bs = [asn1_id_octet cls con tag, 0x82, ucast (drop_bit 8 r), ucast r]" "r < 0x10000"
    | (long3) "bs = [asn1_id_octet cls con tag, 0x83, ucast (drop_bit 16 r), ucast (drop_bit 8 r), ucast r]" "r < 0x1000000"
    | (long4) "bs = [asn1_id_octet cls con tag, 0x84, ucast (drop_bit 24 r), ucast (drop_bit 16 r), ucast (drop_bit 8 r), ucast r]"
    using enc by (auto simp: asn1_header_encode_def Let_def split: if_splits)
  then show ?thesis
  proof cases
    case short
    with room show ?thesis by (simp add: length_at_short)
  next
    case long1
    then have "drop_bit 8 r = 0" by (simp add: drop_bit_less)
    then have "r = foldl (\<lambda>v b. push_bit 8 v OR ucast b) 0 [ucast r :: byte]"
      using octet_glue [of r] by simp
    from long [OF _ _ this] long1 show ?thesis by simp
  next
    case long2
    then have "drop_bit 16 r = 0" by (simp add: drop_bit_less)
    then have "r = foldl (\<lambda>v b. push_bit 8 v OR ucast b) 0 [ucast (drop_bit 8 r) :: byte, ucast r]"
      using octet_glue [of r] octet_glue_at [of r] by simp
    from long [OF _ _ this] long2 show ?thesis by simp
  next
    case long3
    then have "drop_bit 24 r = 0" by (simp add: drop_bit_less)
    then have "r = foldl (\<lambda>v b. push_bit 8 v OR ucast b) 0 [ucast (drop_bit 16 r) :: byte, ucast (drop_bit 8 r), ucast r]"
      using octet_glue [of r] octet_glue_at [of r] by simp
    from long [OF _ _ this] long3 show ?thesis by simp
  next
    case long4
    have "r = foldl (\<lambda>v b. push_bit 8 v OR ucast b) 0 [ucast (drop_bit 24 r) :: byte, ucast (drop_bit 16 r), ucast (drop_bit 8 r), ucast r]"
      using octet_glue [of r] octet_glue_at [of r] by simp
    from long [OF _ _ this] long4 show ?thesis by simp
  qed
qed

lemma header_at:
  assumes id: "cls < 4" "con < 2" "tag < 31"
    and enc: "asn1_header_encode cls con tag len = Inr (bs, r)" and room: "unat r \<le> length suf"
  shows "asn1_header_decode (asn1_at pre (bs @ suf) e) =
    (Inr (Some (length pre + length bs + unat r), cls, con, tag), asn1_at (pre @ bs) suf e)"
proof -
  from header_encode_octets [OF enc room] obtain lb where bs: "bs = asn1_id_octet cls con tag # lb"
    and lb: "\<And>pre. asn1_length_decode (asn1_at pre (lb @ suf) e) = (Inr (Some r), asn1_at (pre @ lb) suf e)"
    by blast
  from id_at [OF id, of pre "lb @ suf" e] lb [of "pre @ [asn1_id_octet cls con tag]"] show ?thesis
    by (simp add: bs asn1_header_decode_def bnd_apply)
qed

lemma header_len_Suc: "asn1_header_len len (Suc d) = asn1_header_len len d + asn1_header_overhead (asn1_header_len len d)"
  by (induction d arbitrary: len) simp_all

subsection \<open>The distinguished encoding\<close>

text \<open>What X.690 asks for: the shortest form of the length.\<close>

definition der_length :: "nat \<Rightarrow> byte list" where
  "der_length n = (if n < 0x80 then [word_of_nat n]
     else let k = (if n < 0x100 then 1 else if n < 0x10000 then 2 else if n < 0x1000000 then 3 else 4) in
       word_of_nat (0x80 + k) # be_bytes k n)"

definition der_header :: "u32 \<Rightarrow> u32 \<Rightarrow> u32 \<Rightarrow> nat \<Rightarrow> byte list" where
  "der_header cls con tag n = asn1_id_octet cls con tag # der_length n"

definition der_tlv :: "u32 \<Rightarrow> u32 \<Rightarrow> u32 \<Rightarrow> byte list \<Rightarrow> byte list" where
  "der_tlv cls con tag body = der_header cls con tag (length body) @ body"

lemma unat_u32_of_nat: "n < 2 ^ 32 \<Longrightarrow> unat (word_of_nat n :: u32) = n"
  by (simp add: unat_of_nat)

lemma ucast_octet:
  assumes "n < 2 ^ 32"
  shows "(ucast (drop_bit k (word_of_nat n :: u32)) :: byte) = word_of_nat (n div 2 ^ k)"
proof -
  have "unat (drop_bit k (word_of_nat n :: u32)) = n div 2 ^ k"
    using assms by (simp only: unat_drop_bit_eq unat_u32_of_nat) (simp add: drop_bit_eq_div)
  then show ?thesis by (metis of_nat_unat)
qed

lemma byte_of_nat_mod: "(word_of_nat (n mod 256) :: byte) = word_of_nat n"
  by (simp add: word_unat_eq_iff unat_of_nat)

lemma be_bytes_Suc: "be_bytes (Suc k) n = be_bytes k (n div 0x100) @ [word_of_nat n]"
  by (simp add: be_bytes_def byte_of_nat_mod)

lemma be_bytes_octets:
  "be_bytes (Suc 0) n = [word_of_nat n]"
  "be_bytes 2 n = [word_of_nat (n div 0x100), word_of_nat n]"
  "be_bytes 3 n = [word_of_nat (n div 0x10000), word_of_nat (n div 0x100), word_of_nat n]"
  "be_bytes 4 n = [word_of_nat (n div 0x1000000), word_of_nat (n div 0x10000), word_of_nat (n div 0x100), word_of_nat n]"
proof -
  show 1: "be_bytes (Suc 0) n = [word_of_nat n]" for n
    using be_bytes_Suc [of 0 n] by (simp add: be_bytes_def)
  show 2: "be_bytes 2 n = [word_of_nat (n div 0x100), word_of_nat n]" for n
    using be_bytes_Suc [of 1 n] 1 by (simp add: numeral_2_eq_2)
  show 3: "be_bytes 3 n = [word_of_nat (n div 0x10000), word_of_nat (n div 0x100), word_of_nat n]" for n
    using be_bytes_Suc [of 2 n] 2 by (simp add: div_mult2_eq [symmetric])
  show "be_bytes 4 n = [word_of_nat (n div 0x1000000), word_of_nat (n div 0x10000), word_of_nat (n div 0x100), word_of_nat n]"
    using be_bytes_Suc [of 3 n] 3 by (simp add: div_mult2_eq [symmetric])
qed

lemma header_encode_der:
  assumes "n < 2 ^ 32 - 6"
  shows "asn1_header_encode cls con tag (word_of_nat n + asn1_header_overhead (word_of_nat n)) =
      Inr (der_header cls con tag n, word_of_nat n)"
    and "unat (asn1_header_overhead (word_of_nat n)) = length (der_header cls con tag n)"
proof -
  define l :: u32 where "l = word_of_nat n"
  have l: "unat l = n" using assms by (simp add: l_def unat_u32_of_nat)
  have b: "ucast l = (word_of_nat n :: byte)" "ucast (drop_bit 8 l) = (word_of_nat (n div 0x100) :: byte)"
    "ucast (drop_bit 16 l) = (word_of_nat (n div 0x10000) :: byte)" "ucast (drop_bit 24 l) = (word_of_nat (n div 0x1000000) :: byte)"
    using assms ucast_octet [of n 0] ucast_octet [of n 8] ucast_octet [of n 16] ucast_octet [of n 24] by (simp_all add: l_def)
  have m: "l AND 0x7F = l" if "n < 0x80"
    using that less_mask_eq [of l 7] l by (simp add: mask_eq_exp_minus_1 word_less_nat_alt)
  have u: "unat (1 + l) = 1 + n" "unat (2 + l) = 2 + n" "unat (3 + l) = 3 + n" "unat (4 + l) = 4 + n"
    "unat (l + 2) = n + 2" "unat (l + 3) = n + 3" "unat (l + 4) = n + 4" "unat (l + 5) = n + 5" "unat (l + 6) = n + 6"
    using assms l by (subst unat_add_lem [THEN iffD1]; simp)+
  note defs = asn1_header_overhead_def asn1_header_encode_def der_header_def der_length_def be_bytes_octets
    Let_def word_less_nat_alt word_le_nat_alt u l b
  consider "n < 0x80" | "0x80 \<le> n" "n < 0x100" | "0x100 \<le> n" "n < 0x10000" | "0x10000 \<le> n" "n < 0x1000000" | "0x1000000 \<le> n"
    by linarith
  then have "asn1_header_encode cls con tag (l + asn1_header_overhead l) = Inr (der_header cls con tag n, l)
    \<and> unat (asn1_header_overhead l) = length (der_header cls con tag n)"
  proof cases
    case 1 then show ?thesis by (simp add: defs m)
  qed (simp_all add: defs)
  then show "asn1_header_encode cls con tag (word_of_nat n + asn1_header_overhead (word_of_nat n)) =
      Inr (der_header cls con tag n, word_of_nat n)"
    and "unat (asn1_header_overhead (word_of_nat n)) = length (der_header cls con tag n)"
    by (simp_all only: l_def)
qed
lemma header_len_tlv:
  assumes "length body < 2 ^ 32 - 6"
  shows "word_of_nat (length body) + asn1_header_overhead (word_of_nat (length body)) =
    (word_of_nat (length (der_tlv cls con tag body)) :: u32)"
proof -
  have "asn1_header_overhead (word_of_nat (length body)) = word_of_nat (length (der_header cls con tag (length body)))"
    using arg_cong [OF header_encode_der(2) [OF assms, of cls con tag], of "word_of_nat :: nat \<Rightarrow> u32"]
    by (simp only: of_nat_unat ucast_id)
  then show ?thesis by (simp add: der_tlv_def)
qed

lemma header_encode_tlv:
  assumes "length body < 2 ^ 32 - 6"
  shows "asn1_header_encode cls con tag (word_of_nat (length (der_tlv cls con tag body))) =
    Inr (der_header cls con tag (length body), word_of_nat (length body))"
  using header_encode_der(1) [OF assms] unfolding header_len_tlv [OF assms, of cls con tag] by simp

lemma header_decode_tlv:
  assumes "cls < 4" "con < 2" "tag < 31" and "length body < 2 ^ 32 - 6"
  shows "asn1_header_decode (asn1_at pre (der_tlv cls con tag body @ suf) e) =
    (Inr (Some (length pre + length (der_tlv cls con tag body)), cls, con, tag),
     asn1_at (pre @ der_header cls con tag (length body)) (body @ suf) e)"
  using header_at [OF assms(1-3) header_encode_tlv [OF assms(4)], of "body @ suf" pre e] assms(4)
  by (simp add: der_tlv_def unat_u32_of_nat)

section \<open>Bounds\<close>

definition asn1_in :: "byte list \<Rightarrow> nat \<Rightarrow> asn1_ctx \<Rightarrow> bool" where
  "asn1_in buf p ctx \<longleftrightarrow> ac_buf ctx = buf \<and> p \<le> ac_pointer ctx \<and> ac_pointer ctx \<le> length buf"

lemma asn1_in_mono: "asn1_in buf q ctx \<Longrightarrow> p \<le> q \<Longrightarrow> asn1_in buf p ctx"
  by (simp add: asn1_in_def)

lemma octet_decode_in: "valid (asn1_in buf p) asn1_octet_decode (\<lambda>_. asn1_in buf (Suc p)) (asn1_in buf p)"
  by (rule validI) (auto simp: asn1_octet_decode_def asn1_in_def)

lemma base128_in: "valid (asn1_in buf p) (asn1_base128 v) (\<lambda>_. asn1_in buf (Suc p)) (asn1_in buf p)"
proof (rule validI)
  fix ctx assume "asn1_in buf p ctx"
  then show "case asn1_base128 v ctx of (Inr x, t) \<Rightarrow> asn1_in buf (Suc p) t | (Inl (Err e), t) \<Rightarrow> asn1_in buf p t | (Inl Fault, t) \<Rightarrow> False"
  proof (induction v ctx arbitrary: p rule: asn1_base128.induct)
    case (1 v ctx)
    note o = validD [OF octet_decode_in 1(2)]
    show ?case
    proof (cases "asn1_octet_decode ctx")
      case (Pair r ctx')
      show ?thesis
      proof (cases r)
        case (Inl err)
        with o Pair show ?thesis by (subst asn1_base128.simps) (simp split: cerr.splits)
      next
        case (Inr ch)
        with o Pair have in': "asn1_in buf (Suc p) ctx'" by simp
        show ?thesis
        proof (cases "ch AND 0x80 = 0x80")
          case True
          with 1(1) [OF Pair [symmetric] Inr refl] in'
          have "case asn1_base128 (push_bit 7 v OR ucast (ch AND 0x7F)) ctx' of (Inr x, t) \<Rightarrow> asn1_in buf (Suc (Suc p)) t
            | (Inl (Err e), t) \<Rightarrow> asn1_in buf (Suc p) t | (Inl Fault, t) \<Rightarrow> False" by simp
          with True Pair Inr show ?thesis
            by (subst asn1_base128.simps)
              (auto simp: Let_def split: prod.splits sum.splits cerr.splits intro: asn1_in_mono)
        qed (use Pair Inr in' in \<open>subst asn1_base128.simps, simp add: Let_def\<close>)
      qed
    qed
  qed
qed

lemma valid_prod: "(\<And>x y. r = (x, y) \<Longrightarrow> valid P (f x y) Q E) \<Longrightarrow> valid P (case r of (x, y) \<Rightarrow> f x y) Q E"
  by (cases r) simp

lemma in_weaken: "valid (asn1_in buf q) m Q (asn1_in buf q) \<Longrightarrow> p \<le> q \<Longrightarrow> valid (asn1_in buf q) m Q (asn1_in buf p)"
  by (erule valid_conseq) (auto elim!: asn1_in_mono)

lemma id_decode_in: "valid (asn1_in buf p) asn1_id_decode (\<lambda>_. asn1_in buf (Suc p)) (asn1_in buf p)"
  unfolding asn1_id_decode_def asn1_tag_decode_def Let_def
  by (rule valid_bnd [OF octet_decode_in], rule valid_if, rule valid_bnd, rule in_weaken [OF base128_in])
    (auto intro!: valid_ret elim!: asn1_in_mono)

lemma length_octets_in: "valid (asn1_in buf p) (asn1_length_octets n len) (\<lambda>_. asn1_in buf p) (asn1_in buf p)"
proof (induction n arbitrary: len)
  case (Suc n)
  have "valid (asn1_in buf (Suc p)) (asn1_length_octets n l) (\<lambda>_. asn1_in buf p) (asn1_in buf p)" for l
    by (rule valid_pre [OF Suc]) (auto elim!: asn1_in_mono)
  then show ?case by (simp add: valid_bnd [OF octet_decode_in])
qed (simp add: valid_ret)

lemma length_decode_in:
  "valid (asn1_in buf p) asn1_length_decode
     (\<lambda>len ctx. asn1_in buf (Suc p) ctx \<and> (\<forall>l. len = Some l \<longrightarrow> ac_pointer ctx + unat l \<le> length buf)) (asn1_in buf p)"
proof -
  have l: "valid (asn1_in buf (Suc p)) (if ch = 0x80 then ret (None, 0) else if ch < 0x80 then ret (Some (ucast ch), ucast ch)
      else bnd (asn1_length_octets (unat (ch AND 0x7F)) 0) (\<lambda>len. ret (Some len, len)))
      (\<lambda>(r, len) ctx. asn1_in buf (Suc p) ctx \<and> (\<forall>l. r = Some l \<longrightarrow> l = len)) (asn1_in buf p)" for ch
    by (intro valid_if valid_ret valid_bnd [OF in_weaken [OF length_octets_in]])
      (auto elim!: asn1_in_mono)
  show ?thesis
    unfolding asn1_length_decode_def
    by (rule valid_bnd [OF octet_decode_in], rule valid_bnd [OF l], rule validI)
      (auto simp: bnd_apply fail_def asn1_in_def not_less le_diff_conv2 add.commute split: if_splits)
qed

lemma header_decode_in:
  "valid (asn1_in buf p) asn1_header_decode
     (\<lambda>(eoc, _) ctx. asn1_in buf (p + 2) ctx \<and> (\<forall>q. eoc = Some q \<longrightarrow> ac_pointer ctx \<le> q \<and> q \<le> length buf)) (asn1_in buf p)"
proof -
  have l: "valid (asn1_in buf (Suc p)) asn1_length_decode
     (\<lambda>len ctx. asn1_in buf (p + 2) ctx \<and> (\<forall>l. len = Some l \<longrightarrow> ac_pointer ctx + unat l \<le> length buf)) (asn1_in buf p)"
    by (rule valid_conseq [OF length_decode_in [of buf "Suc p"]]) (auto elim!: asn1_in_mono)
  show ?thesis
    unfolding asn1_header_decode_def
    by (rule valid_bnd [OF id_decode_in], rule valid_prod, rule valid_prod, rule valid_bnd [OF l], rule validI)
      (auto simp: bnd_apply fail_def asn1_in_def not_less le_diff_conv2 add.commute split: if_splits)
qed

lemma octets_loop_in:
  "valid (asn1_in buf p) (asn1_octets_loop n) (\<lambda>bs ctx. asn1_in buf (p + n) ctx \<and> length bs = n) (asn1_in buf p)"
proof (induction n arbitrary: p)
  case (Suc n)
  have "valid (asn1_in buf (Suc p)) (asn1_octets_loop n) (\<lambda>bs ctx. asn1_in buf (p + Suc n) ctx \<and> length bs = n) (asn1_in buf p)"
    by (rule valid_conseq [OF Suc [of "Suc p"]]) (auto elim!: asn1_in_mono)
  then show ?case
    by (auto intro!: valid_bnd [OF octet_decode_in] valid_bnd [where R = "\<lambda>bs ctx. asn1_in buf (p + Suc n) ctx \<and> length bs = n"] valid_ret)
qed (auto intro: valid_ret)

lemma octets_decode_in: "valid (asn1_in buf p) (asn1_octets_decode eoc) (\<lambda>_. asn1_in buf p) (asn1_in buf p)"
  unfolding asn1_octets_decode_def
  by (rule valid_bnd [OF valid_reads], assumption, rule valid_if, rule valid_fail, assumption,
      rule valid_conseq [OF octets_loop_in]) (auto elim!: asn1_in_mono)

lemma read_in: "valid (asn1_in buf p) (asn1_read len) (\<lambda>bs ctx. asn1_in buf (p + len) ctx \<and> length bs = len) (asn1_in buf p)"
  by (rule validI) (auto simp: asn1_read_def asn1_in_def)

lemma subid_decode_in: "valid (asn1_in buf p) asn1_subid_decode (\<lambda>_. asn1_in buf (Suc p)) (asn1_in buf p)"
  unfolding asn1_subid_decode_def by (rule base128_in)

lemma oid_loop_in:
  "valid (asn1_in buf p) (asn1_oid_loop room eoc) (\<lambda>ids ctx. asn1_in buf p ctx \<and> length ids \<le> room) (asn1_in buf p)"
proof (induction room arbitrary: p)
  case 0
  show ?case by (rule validI) (auto simp: asn1_oid_loop.simps asn1_in_def)
next
  case (Suc room)
  have l: "valid (asn1_in buf (Suc p)) (bnd (asn1_oid_loop room eoc) (\<lambda>r. ret (i # r)))
      (\<lambda>ids ctx. asn1_in buf p ctx \<and> length ids \<le> Suc room) (asn1_in buf p)" for i
    by (rule valid_bnd [OF in_weaken [OF Suc]]) (auto intro!: valid_ret elim!: asn1_in_mono)
  have "valid (asn1_in buf p) (bnd asn1_subid_decode (\<lambda>i. bnd (asn1_oid_loop room eoc) (\<lambda>r. ret (i # r))))
      (\<lambda>ids ctx. asn1_in buf p ctx \<and> length ids \<le> Suc room) (asn1_in buf p)"
    by (rule valid_bnd [OF subid_decode_in l])
  note step = validD [OF this]
  show ?case by (rule validI) (auto simp: asn1_oid_loop.simps [of "Suc room"] step)
qed

lemma oid_decode_in:
  "valid (asn1_in buf p) (asn1_oid_decode eoc) (\<lambda>oid ctx. asn1_in buf (Suc p) ctx \<and> 2 \<le> length oid) (asn1_in buf p)"
proof -
  have l: "valid (asn1_in buf (Suc p)) (bnd (asn1_oid_loop n eoc) (\<lambda>r. ret (asn1_first_subids i @ r)))
      (\<lambda>oid ctx. asn1_in buf (Suc p) ctx \<and> 2 \<le> length oid) (asn1_in buf p)" for i n
    by (rule valid_bnd [OF in_weaken [OF oid_loop_in]])
      (auto intro!: valid_ret elim!: asn1_in_mono simp: asn1_first_subids_def)
  show ?thesis
    unfolding asn1_oid_decode_def
    by (rule valid_bnd [OF valid_reads], assumption, rule valid_if, rule valid_fail, assumption,
        rule valid_bnd [OF subid_decode_in l])
qed

section \<open>Properties\<close>

text \<open>C12: a header survives a round trip.  For contents of any length that leaves room for the header in 32
  bits, \<open>asn1_header_len\<close> counts exactly the octets of the distinguished encoding, \<open>asn1_header_encode\<close> writes its
  header and leaves the length of the contents, and \<open>asn1_header_decode\<close>, wherever the encoding stands in the
  buffer, gives back class, method and tag, stops at the contents and says where they end.\<close>

theorem asn1_header_roundtrip:
  assumes "cls < 4" "con < 2" "tag < 31" and "length body < 2 ^ 32 - 6"
  shows "asn1_header_encode cls con tag (asn1_header_len (word_of_nat (length body)) 1) =
      Inr (der_header cls con tag (length body), word_of_nat (length body))
    \<and> asn1_header_decode (asn1_at pre (der_header cls con tag (length body) @ body @ suf) e) =
      (Inr (Some (length pre + length (der_header cls con tag (length body)) + length body), cls, con, tag),
       asn1_at (pre @ der_header cls con tag (length body)) (body @ suf) e)"
  using header_encode_der(1) [OF assms(4)] header_decode_tlv [OF assms, of pre suf e]
  by (simp add: der_tlv_def add.assoc)

theorem asn1_header_roundtrip_witness:
  "asn1_header_encode 1 1 0 (asn1_header_len (word_of_nat (length (replicate 200 7 :: byte list))) 1) =
      Inr (der_header 1 1 0 (length (replicate 200 7 :: byte list)), word_of_nat (length (replicate 200 7 :: byte list)))
    \<and> asn1_header_decode (asn1_at [] (der_header 1 1 0 (length (replicate 200 7 :: byte list)) @ replicate 200 7 @ []) 0) =
      (Inr (Some (length ([] :: byte list) + length (der_header 1 1 0 (length (replicate 200 7 :: byte list))) + length (replicate 200 7 :: byte list)), 1, 1, 0),
       asn1_at ([] @ der_header 1 1 0 (length (replicate 200 7 :: byte list))) (replicate 200 7 @ []) 0)"
  by (rule asn1_header_roundtrip) simp_all

text \<open>C13: an object identifier whose first two arcs fit one octet and whose other arcs have at most 35 bits is
  given back by \<open>asn1_oid_decode\<close> from what \<open>asn1_oid_encode\<close> wrote, wherever it stands, and the decoder stops
  behind it.\<close>

theorem asn1_oid_roundtrip:
  assumes "asn1_oid_ok oid"
  shows "\<exists>bs. asn1_oid_encode oid = Inr bs \<and>
    asn1_oid_decode (length pre + length bs) (asn1_at pre (bs @ suf) e) = (Inr oid, asn1_at (pre @ bs) suf e)"
  using oid_encode_ok [OF assms] oid_at [OF assms] by metis

theorem asn1_oid_roundtrip_witness:
  "asn1_oid_ok KRB5_OID \<and> (\<exists>bs. asn1_oid_encode KRB5_OID = Inr bs \<and>
    asn1_oid_decode (length [6 :: byte, 9] + length bs) (asn1_at [6, 9] (bs @ [1, 0]) 0) = (Inr KRB5_OID, asn1_at ([6, 9] @ bs) [1, 0] 0))"
proof -
  have "asn1_oid_ok KRB5_OID" by (simp add: asn1_oid_ok_def KRB5_OID_def)
  with asn1_oid_roundtrip [OF this] show ?thesis by blast
qed

text \<open>C14: the decoders stay in their buffer.  From any position inside it none of them reads outside or writes
  to it, none moves back, an error included; a header read is at least two octets further on and the end of its
  contents is inside the buffer; \<open>asn1_read\<close> gives what was asked for; and every identifier has its two
  first arcs.  The loops therefore end after at most as many rounds as there are octets left.\<close>

theorem asn1_decoders_in_bounds:
  "valid (asn1_in buf p) asn1_header_decode
     (\<lambda>(eoc, _) ctx. asn1_in buf (p + 2) ctx \<and> pred_option (\<lambda>q. ac_pointer ctx \<le> q \<and> q \<le> length buf) eoc) (asn1_in buf p)
   \<and> valid (asn1_in buf p) (asn1_octets_decode eoc) (\<lambda>_. asn1_in buf p) (asn1_in buf p)
   \<and> valid (asn1_in buf p) (asn1_read len) (\<lambda>bs ctx. asn1_in buf (p + len) ctx \<and> length bs = len) (asn1_in buf p)
   \<and> valid (asn1_in buf p) (asn1_oid_decode eoc) (\<lambda>oid ctx. asn1_in buf (Suc p) ctx \<and> 2 \<le> length oid) (asn1_in buf p)"
  by (intro conjI octets_decode_in read_in oid_decode_in, rule valid_post [OF header_decode_in])
    (simp add: option.pred_set split: prod.splits option.splits)

end
