(* ===== verification/Spnego.thy ===== *)
theory Spnego
  imports Asn1
begin

text \<open>
  \<open>src/tools/management/spnego.c\<close> and \<open>spnego_krb5.c\<close>: the SPNEGO token that carries a Kerberos AP_REQ is
  taken apart, the AP_REQ is given to the Kerberos library, and the AP_REP is wrapped in a negTokenTarg.
  The Kerberos library is a record of parameters.  What it and the allocator hand out is kept in a list,
  so that a leak and a second release are both visible.
\<close>

section \<open>Taking a negTokenInit apart\<close>

datatype spnego_mech = SPNEGO_MECH_MSKRB5 | SPNEGO_MECH_KRB5 | SPNEGO_MAX_MECHS

definition ASN1_UNI :: u32 where "ASN1_UNI = 0"
definition ASN1_APL :: u32 where "ASN1_APL = 1"
definition ASN1_CTX :: u32 where "ASN1_CTX = 2"
definition ASN1_CON :: u32 where "ASN1_CON = 1"
definition ASN1_EOC :: u32 where "ASN1_EOC = 0"
definition ASN1_OTS :: u32 where "ASN1_OTS = 4"
definition ASN1_OJI :: u32 where "ASN1_OJI = 6"
definition ASN1_ENUM :: u32 where "ASN1_ENUM = 10"
definition ASN1_SEQ :: u32 where "ASN1_SEQ = 16"

text \<open>The local variable \<open>oid\<close>: NULL, an array, or an array that \<open>g_free\<close> was given.\<close>

datatype oid_var = Oid_null | Oid_live "u64 list" | Oid_freed

record spnego_parse =
  sp_ctx :: asn1_ctx
  sp_oid :: oid_var

definition on_ctx :: "(asn1_ctx, 'a) act \<Rightarrow> (spnego_parse, 'a) act" where
  "on_ctx m = (\<lambda>s. case m (sp_ctx s) of (r, ctx) \<Rightarrow> (r, s\<lparr>sp_ctx := ctx\<rparr>))"

definition free_oid :: "(spnego_parse, unit) act" where
  "free_oid = (\<lambda>s. case sp_oid s of
       Oid_freed \<Rightarrow> (Inl Fault, s) | Oid_null \<Rightarrow> (Inr (), s) | Oid_live _ \<Rightarrow> (Inr (), s\<lparr>sp_oid := Oid_freed\<rparr>))"

text \<open>\<open>compare_oid\<close> is 0 when the identifiers are equal.\<close>

fun compare_oid :: "u64 list \<Rightarrow> u64 list \<Rightarrow> int" where
  "compare_oid [] [] = 0"
| "compare_oid (x # xs) (y # ys) = (if x \<noteq> y then 1 else compare_oid xs ys)"
| "compare_oid _ _ = 1"

definition is_supported_mech :: "u64 list \<Rightarrow> bool \<times> spnego_mech" where
  "is_supported_mech oid =
    (if compare_oid oid MSKRB5_OID = 0 then (True, SPNEGO_MECH_MSKRB5)
     else if compare_oid oid KRB5_OID = 0 then (True, SPNEGO_MECH_KRB5)
     else (False, SPNEGO_MAX_MECHS))"

definition decode_asn1_header :: "u32 \<Rightarrow> u32 \<Rightarrow> u32 \<Rightarrow> (spnego_parse, nat option) act" where
  "decode_asn1_header cls con tag =
     bnd (on_ctx asn1_header_decode) (\<lambda>(eoc, d_cls, d_con, d_tag).
     if d_cls \<noteq> cls \<or> d_con \<noteq> con \<or> d_tag \<noteq> tag then fail (Err EINVAL) else ret eoc)"

text \<open>\<open>asn1_oid_decode (&ctx, end, &oid, &len)\<close>: \<open>oid\<close> keeps its value when the size is refused, and is NULL
  when decoding fails later.  \<open>end\<close> is NULL for no primitive header.\<close>

definition decode_oid :: "nat option \<Rightarrow> (spnego_parse, u64 list) act" where
  "decode_oid eoc = (\<lambda>s. case eoc of
       None \<Rightarrow> (Inl Fault, s)
     | Some eoc \<Rightarrow>
        if \<not> asn1_oid_size_ok (asn1_oid_size eoc (sp_ctx s)) then (Inl (Err EINVAL), s)
        else case asn1_oid_decode eoc (sp_ctx s) of
          (Inl e, ctx) \<Rightarrow> (Inl e, s\<lparr>sp_ctx := ctx, sp_oid := Oid_null\<rparr>)
        | (Inr oid, ctx) \<Rightarrow> (Inr oid, s\<lparr>sp_ctx := ctx, sp_oid := Oid_live oid\<rparr>))"

text \<open>An identifier that must be \<open>expected\<close>; \<open>oid\<close> is freed whatever comes out.\<close>

definition catch_err :: "('s, 'a) act \<Rightarrow> ('s, unit) act \<Rightarrow> ('s, 'a) act" where
  "catch_err m h = (\<lambda>s. case m s of (Inl (Err e), t) \<Rightarrow> sq h (fail (Err e)) t | r \<Rightarrow> r)"

definition expect_oid :: "nat option \<Rightarrow> u64 list \<Rightarrow> (spnego_parse, unit) act" where
  "expect_oid eoc expected =
     sq (catch_err (bnd (decode_oid eoc) (\<lambda>oid. if compare_oid oid expected \<noteq> 0 then fail (Err EINVAL) else ret ()))
          free_oid) free_oid"

definition decode_mech_oid :: "(spnego_parse, spnego_mech) act" where
  "decode_mech_oid =
     bnd (bnd (decode_asn1_header ASN1_UNI ASN1_PRI ASN1_OJI) decode_oid) (\<lambda>oid.
     case is_supported_mech oid of
       (False, _) \<Rightarrow> sq free_oid (fail (Err EINVAL))
     | (True, mech_type) \<Rightarrow> sq free_oid (ret mech_type))"

text \<open>\<open>ctx.pointer = mech_types_end\<close>; a NULL pointer is below \<open>ctx.end\<close>, so the next octet is read through it.\<close>

definition skip_to :: "nat option \<Rightarrow> (spnego_parse, unit) act" where
  "skip_to p = (case p of
       None \<Rightarrow> fail Fault
     | Some p \<Rightarrow> modify (\<lambda>s. s\<lparr>sp_ctx := (sp_ctx s)\<lparr>ac_pointer := p\<rparr>\<rparr>))"

definition decode_krb5_blob :: "(spnego_parse, byte list) act" where
  "decode_krb5_blob =
     sq (decode_asn1_header ASN1_CTX ASN1_CON 2) (sq (decode_asn1_header ASN1_UNI ASN1_PRI ASN1_OTS)
     (sq (decode_asn1_header ASN1_APL ASN1_CON ASN1_EOC)
     (bnd (decode_asn1_header ASN1_UNI ASN1_PRI ASN1_OJI) (\<lambda>eoc.
     sq (expect_oid eoc KRB5_OID)
     (bnd (on_ctx (asn1_read 2)) (\<lambda>i.
     if i \<noteq> [1, 0] then fail (Err EINVAL)
     else reads (\<lambda>s. drop (ac_pointer (sp_ctx s)) (ac_buf (sp_ctx s)))))))))"

definition decode_mech_token :: "nat option \<Rightarrow> (spnego_parse, spnego_mech \<times> byte list) act" where
  "decode_mech_token mech_types_end =
     bnd decode_mech_oid (\<lambda>mech_type.
     sq (skip_to mech_types_end)
     (bnd decode_krb5_blob (\<lambda>ap_req. ret (mech_type, ap_req))))"

definition expect_spnego_oid :: "(spnego_parse, unit) act" where
  "expect_spnego_oid =
     bnd (catch_err (decode_asn1_header ASN1_UNI ASN1_PRI ASN1_OJI) free_oid) (\<lambda>eoc. expect_oid eoc SPNEGO_OID)"

definition decode_negTokenInit_from :: "(spnego_parse, spnego_mech \<times> byte list) act" where
  "decode_negTokenInit_from =
     sq (decode_asn1_header ASN1_APL ASN1_CON ASN1_EOC)
     (sq expect_spnego_oid
     (sq (decode_asn1_header ASN1_CTX ASN1_CON 0) (sq (decode_asn1_header ASN1_UNI ASN1_CON ASN1_SEQ)
     (sq (decode_asn1_header ASN1_CTX ASN1_CON 0) (bnd (decode_asn1_header ASN1_UNI ASN1_CON ASN1_SEQ) decode_mech_token)))))"

definition decode_negTokenInit :: "byte list \<Rightarrow> cerr + (spnego_mech \<times> byte list)" where
  "decode_negTokenInit negToken = fst (decode_negTokenInit_from \<lparr>sp_ctx = asn1_open negToken, sp_oid = Oid_null\<rparr>)"

section \<open>Building a negTokenTarg\<close>

text \<open>The output block and the cursor \<open>buf\<close>.\<close>

record spnego_out =
  so_blob :: "byte list"
  so_pos :: nat

definition out_write :: "byte list \<Rightarrow> (spnego_out, unit) act" where
  "out_write bs = (\<lambda>s. if so_pos s + length bs > length (so_blob s) then (Inl Fault, s)
     else (Inr (), s\<lparr>so_blob := overwrite (so_pos s) bs (so_blob s)\<rparr>))"

definition out_skip :: "nat \<Rightarrow> (spnego_out, unit) act" where
  "out_skip n = modify (\<lambda>s. s\<lparr>so_pos := so_pos s + n\<rparr>)"

text \<open>\<open>asn1_header_encode (&buf, \<dots>, &len)\<close>, whose result is not looked at.\<close>

definition out_header :: "u32 \<Rightarrow> u32 \<Rightarrow> u32 \<Rightarrow> u32 \<Rightarrow> (spnego_out, u32) act" where
  "out_header cls con tag len = (case asn1_header_encode cls con tag len of
       Inl _ \<Rightarrow> ret len
     | Inr (bs, len) \<Rightarrow> sq (out_write bs) (sq (out_skip (length bs)) (ret len)))"

definition neg_result_len :: u32 where
  "neg_result_len = asn1_header_len 1 2"

definition sup_mech_len :: "byte list \<Rightarrow> u32" where
  "sup_mech_len sup_oid = asn1_header_len (word_of_nat (length sup_oid)) 2"

definition rep_token_len :: "byte list \<Rightarrow> u32 \<Rightarrow> u32" where
  "rep_token_len krb5_oid in_len = asn1_header_len (asn1_header_len (word_of_nat (length krb5_oid)) 1 + (2 + in_len)) 3"

definition negTokenTarg_body :: "byte list \<Rightarrow> byte list \<Rightarrow> byte list \<Rightarrow> u32 \<Rightarrow> (spnego_out, unit) act" where
  "negTokenTarg_body in_blob sup_oid krb5_oid out_len =
     sq (bnd (out_header ASN1_CTX ASN1_CON 1 out_len) (out_header ASN1_UNI ASN1_CON ASN1_SEQ))
     (sq (bnd (out_header ASN1_CTX ASN1_CON 0 neg_result_len) (out_header ASN1_UNI ASN1_PRI ASN1_ENUM))
     (sq (sq (out_write [0]) (out_skip 1))
     (sq (bnd (bnd (out_header ASN1_CTX ASN1_CON 1 (sup_mech_len sup_oid)) (out_header ASN1_UNI ASN1_PRI ASN1_OJI))
            (\<lambda>len. sq (out_write sup_oid) (out_skip (unat len))))
     (sq (bnd (bnd (out_header ASN1_CTX ASN1_CON 2 (rep_token_len krb5_oid (word_of_nat (length in_blob))))
            (out_header ASN1_UNI ASN1_PRI ASN1_OTS)) (out_header ASN1_APL ASN1_CON 0))
     (sq (bnd (out_header ASN1_UNI ASN1_PRI ASN1_OJI (asn1_header_len (word_of_nat (length krb5_oid)) 1))
            (\<lambda>len. sq (out_write krb5_oid) (out_skip (unat len))))
     (sq (sq (out_write [2, 0]) (out_skip 2)) (out_write in_blob)))))))"

definition encode_negTokenTarg :: "byte list \<Rightarrow> u64 list \<Rightarrow> cerr + byte list" where
  "encode_negTokenTarg in_blob oid =
    (case asn1_oid_encode oid of Inl e \<Rightarrow> Inl e | Inr sup_oid \<Rightarrow>
     case asn1_oid_encode KRB5_OID of Inl e \<Rightarrow> Inl e | Inr krb5_oid \<Rightarrow>
     let out_len = asn1_header_len (neg_result_len + sup_mech_len sup_oid
           + rep_token_len krb5_oid (word_of_nat (length in_blob))) 2 in
     (case negTokenTarg_body in_blob sup_oid krb5_oid out_len \<lparr>so_blob = replicate (unat out_len) 0, so_pos = 0\<rparr> of
        (Inl e, _) \<Rightarrow> Inl e | (Inr _, s) \<Rightarrow> Inr (so_blob s)))"

section \<open>Reading a well-formed token\<close>

definition parse_at :: "byte list \<Rightarrow> byte list \<Rightarrow> int \<Rightarrow> oid_var \<Rightarrow> spnego_parse" where
  "parse_at pre suf e oid = \<lparr>sp_ctx = asn1_at pre suf e, sp_oid = oid\<rparr>"

lemma sq_apply: "sq m n s = (case m s of (Inl e, t) \<Rightarrow> (Inl e, t) | (Inr _, t) \<Rightarrow> n t)"
  by (simp add: sq_def bnd_apply)

lemma asn1_consts [simp]: "ASN1_UNI < 4" "ASN1_APL < 4" "ASN1_CTX < 4" "ASN1_CON < 2" "ASN1_PRI < 2"
  "ASN1_EOC < 31" "ASN1_OTS < 31" "ASN1_OJI < 31" "ASN1_ENUM < 31" "ASN1_SEQ < 31"
  by (simp_all add: ASN1_UNI_def ASN1_APL_def ASN1_CTX_def ASN1_CON_def ASN1_PRI_def
      ASN1_EOC_def ASN1_OTS_def ASN1_OJI_def ASN1_ENUM_def ASN1_SEQ_def)

lemma header_parse:
  assumes "cls < 4" "con < 2" "tag < 31" and "length body < 2 ^ 32 - 6"
  shows "decode_asn1_header cls con tag (parse_at pre (der_tlv cls con tag body @ suf) e oid) =
    (Inr (Some (length pre + length (der_tlv cls con tag body))),
     parse_at (pre @ der_header cls con tag (length body)) (body @ suf) e oid)"
  using header_decode_tlv [OF assms, of pre suf e]
  by (simp add: decode_asn1_header_def on_ctx_def parse_at_def bnd_apply)

lemma oid_decode_size_ok: "asn1_oid_decode eoc ctx = (Inr oid, ctx') \<Longrightarrow> asn1_oid_size_ok (asn1_oid_size eoc ctx)"
  by (auto simp: asn1_oid_decode_def bnd_apply fail_def split: if_splits)

lemma decode_oid_parse:
  assumes "asn1_oid_ok oid" and "asn1_oid_encode oid = Inr bs"
  shows "decode_oid (Some (length pre + length bs)) (parse_at pre (bs @ suf) e v) =
    (Inr oid, parse_at (pre @ bs) suf e (Oid_live oid))"
  using oid_at [OF assms, of pre suf e] oid_decode_size_ok [of "length pre + length bs" "asn1_at pre (bs @ suf) e" oid]
  by (simp add: decode_oid_def parse_at_def)

lemma compare_oid_iff: "compare_oid xs ys = 0 \<longleftrightarrow> xs = ys"
  by (induction xs ys rule: compare_oid.induct) auto

lemma expect_oid_parse:
  assumes "asn1_oid_ok oid" and "asn1_oid_encode oid = Inr bs"
  shows "expect_oid (Some (length pre + length bs)) oid (parse_at pre (bs @ suf) e v) = (Inr (), parse_at (pre @ bs) suf e Oid_freed)"
  using decode_oid_parse [OF assms, of pre suf e v]
  by (simp add: expect_oid_def sq_apply catch_err_def bnd_apply compare_oid_iff free_oid_def parse_at_def)

definition oid_octets :: "u64 list \<Rightarrow> byte list" where
  "oid_octets oid = (case asn1_oid_encode oid of Inr bs \<Rightarrow> bs | Inl _ \<Rightarrow> [])"

definition oid_tlv :: "u64 list \<Rightarrow> byte list" where
  "oid_tlv oid = der_tlv ASN1_UNI ASN1_PRI ASN1_OJI (oid_octets oid)"

definition spnego_mech_oid :: "spnego_mech \<Rightarrow> u64 list" where
  "spnego_mech_oid m = (case m of SPNEGO_MECH_MSKRB5 \<Rightarrow> MSKRB5_OID | _ \<Rightarrow> KRB5_OID)"

text \<open>A token as a client builds it: the chosen mechanism first, \<open>others\<close> after it, and the AP_REQ.\<close>

definition krb5_token :: "byte list \<Rightarrow> byte list" where
  "krb5_token ap_req = der_tlv ASN1_CTX ASN1_CON 2 (der_tlv ASN1_UNI ASN1_PRI ASN1_OTS
     (der_tlv ASN1_APL ASN1_CON ASN1_EOC (oid_tlv KRB5_OID @ [1, 0] @ ap_req)))"

definition negTokenInit_with :: "byte list \<Rightarrow> byte list \<Rightarrow> byte list" where
  "negTokenInit_with types blob =
     der_tlv ASN1_APL ASN1_CON ASN1_EOC (oid_tlv SPNEGO_OID @
       der_tlv ASN1_CTX ASN1_CON 0 (der_tlv ASN1_UNI ASN1_CON ASN1_SEQ (der_tlv ASN1_CTX ASN1_CON 0 types @ blob)))"

definition mech_types :: "spnego_mech \<Rightarrow> byte list \<Rightarrow> byte list" where
  "mech_types mech others = der_tlv ASN1_UNI ASN1_CON ASN1_SEQ (oid_tlv (spnego_mech_oid mech) @ others)"

definition negTokenInit_token :: "spnego_mech \<Rightarrow> byte list \<Rightarrow> byte list \<Rightarrow> byte list" where
  "negTokenInit_token mech others ap_req = negTokenInit_with (mech_types mech others) (krb5_token ap_req)"

lemma known_oids:
  "oid \<in> {SPNEGO_OID, KRB5_OID, MSKRB5_OID} \<Longrightarrow> asn1_oid_ok oid \<and> asn1_oid_encode oid = Inr (oid_octets oid) \<and> length (oid_octets oid) \<le> 11"
  by (auto simp: asn1_oid_ok_def oid_octets_def SPNEGO_OID_def KRB5_OID_def MSKRB5_OID_def asn1_oid_encode_def asn1_subid_encode_def word_le_nat_alt)

lemma oid_tlv_parse:
  assumes "oid \<in> {SPNEGO_OID, KRB5_OID, MSKRB5_OID}"
  shows "decode_asn1_header ASN1_UNI ASN1_PRI ASN1_OJI (parse_at pre (oid_tlv oid @ suf) e v) =
      (Inr (Some (length pre + length (oid_tlv oid))),
       parse_at (pre @ der_header ASN1_UNI ASN1_PRI ASN1_OJI (length (oid_octets oid))) (oid_octets oid @ suf) e v)"
    and "expect_oid (Some (length pre + length (oid_tlv oid))) oid
       (parse_at (pre @ der_header ASN1_UNI ASN1_PRI ASN1_OJI (length (oid_octets oid))) (oid_octets oid @ suf) e v) =
      (Inr (), parse_at (pre @ oid_tlv oid) suf e Oid_freed)"
    and "decode_oid (Some (length pre + length (oid_tlv oid)))
       (parse_at (pre @ der_header ASN1_UNI ASN1_PRI ASN1_OJI (length (oid_octets oid))) (oid_octets oid @ suf) e v) =
      (Inr oid, parse_at (pre @ oid_tlv oid) suf e (Oid_live oid))"
proof -
  note k = known_oids [OF assms]
  let ?h = "der_header ASN1_UNI ASN1_PRI ASN1_OJI (length (oid_octets oid))"
  show "decode_asn1_header ASN1_UNI ASN1_PRI ASN1_OJI (parse_at pre (oid_tlv oid @ suf) e v) =
      (Inr (Some (length pre + length (oid_tlv oid))), parse_at (pre @ ?h) (oid_octets oid @ suf) e v)"
    using k unfolding oid_tlv_def by (intro header_parse) simp_all
  have l: "length pre + length (oid_tlv oid) = length (pre @ ?h) + length (oid_octets oid)"
    and t: "pre @ oid_tlv oid = (pre @ ?h) @ oid_octets oid" by (simp_all add: oid_tlv_def der_tlv_def)
  show "expect_oid (Some (length pre + length (oid_tlv oid))) oid (parse_at (pre @ ?h) (oid_octets oid @ suf) e v) =
      (Inr (), parse_at (pre @ oid_tlv oid) suf e Oid_freed)"
    unfolding l t using k by (intro expect_oid_parse) simp_all
  show "decode_oid (Some (length pre + length (oid_tlv oid))) (parse_at (pre @ ?h) (oid_octets oid @ suf) e v) =
      (Inr oid, parse_at (pre @ oid_tlv oid) suf e (Oid_live oid))"
    unfolding l t using k by (intro decode_oid_parse) simp_all
qed

lemma mech_oid_parse:
  assumes "mech \<noteq> SPNEGO_MAX_MECHS"
  shows "decode_mech_oid (parse_at pre (oid_tlv (spnego_mech_oid mech) @ suf) e v) =
    (Inr mech, parse_at (pre @ oid_tlv (spnego_mech_oid mech)) suf e Oid_freed)"
proof -
  have m: "spnego_mech_oid mech \<in> {SPNEGO_OID, KRB5_OID, MSKRB5_OID}" by (auto simp: spnego_mech_oid_def split: spnego_mech.splits)
  have "is_supported_mech (spnego_mech_oid mech) = (True, mech)"
    using assms by (cases mech) (simp_all add: is_supported_mech_def spnego_mech_oid_def compare_oid_iff MSKRB5_OID_def KRB5_OID_def)
  then show ?thesis
    by (simp add: decode_mech_oid_def bnd_apply oid_tlv_parse [OF m] sq_apply free_oid_def) (simp add: parse_at_def)
qed

lemma skip_parse: "p = length (pre @ xs) \<Longrightarrow> skip_to (Some p) (parse_at pre (xs @ suf) e v) = (Inr (), parse_at (pre @ xs) suf e v)"
  by (simp add: skip_to_def modify_def parse_at_def asn1_at_def)


lemma der_tlv_length: "length body < length (der_tlv cls con tag body)" "length (der_tlv cls con tag body) \<le> length body + 6"
  by (auto simp: der_tlv_def der_header_def der_length_def Let_def)

lemmas header_parse_last = header_parse [where suf = "[]", unfolded append_Nil2]

lemma oid_tlv_length: "oid \<in> {SPNEGO_OID, KRB5_OID, MSKRB5_OID} \<Longrightarrow> length (oid_tlv oid) \<le> 17"
  using known_oids [of oid] der_tlv_length(2) [of ASN1_UNI ASN1_PRI ASN1_OJI "oid_octets oid"] by (simp add: oid_tlv_def)

lemma spnego_oid_parse: "expect_spnego_oid (parse_at q (oid_tlv SPNEGO_OID @ suf) e v) = (Inr (), parse_at (q @ oid_tlv SPNEGO_OID) suf e Oid_freed)"
  by (simp add: expect_spnego_oid_def bnd_apply catch_err_def oid_tlv_parse)

lemma negTokenInit_outer:
  assumes "length types + length blob < 2 ^ 32 - 60"
  obtains pre where "decode_negTokenInit (negTokenInit_with types blob) =
    fst (bnd (decode_asn1_header ASN1_UNI ASN1_CON ASN1_SEQ) decode_mech_token (parse_at pre (types @ blob) ASN1_ERR_NOERROR Oid_freed))"
proof
  define ctx0 where "ctx0 = der_tlv ASN1_CTX ASN1_CON 0 types"
  define seqs where "seqs = der_tlv ASN1_UNI ASN1_CON ASN1_SEQ (ctx0 @ blob)"
  define init where "init = der_tlv ASN1_CTX ASN1_CON 0 seqs"
  have tok: "negTokenInit_with types blob = der_tlv ASN1_APL ASN1_CON ASN1_EOC (oid_tlv SPNEGO_OID @ init)"
    by (simp add: negTokenInit_with_def init_def seqs_def ctx0_def)
  have l: "length types < 2 ^ 32 - 6" "length (ctx0 @ blob) < 2 ^ 32 - 6"
    "length seqs < 2 ^ 32 - 6" "length (oid_tlv SPNEGO_OID @ init) < 2 ^ 32 - 6"
    using assms oid_tlv_length [of SPNEGO_OID]
      der_tlv_length(2) [of ASN1_CTX ASN1_CON 0 types, folded ctx0_def]
      der_tlv_length(2) [of ASN1_UNI ASN1_CON ASN1_SEQ "ctx0 @ blob", folded seqs_def]
      der_tlv_length(2) [of ASN1_CTX ASN1_CON 0 seqs, folded init_def]
    by simp_all
  note p = header_parse_last [of ASN1_APL ASN1_CON ASN1_EOC "oid_tlv SPNEGO_OID @ init"]
    header_parse_last [of ASN1_CTX ASN1_CON 0 seqs, folded init_def]
    header_parse_last [of ASN1_UNI ASN1_CON ASN1_SEQ "ctx0 @ blob", folded seqs_def]
    header_parse [of ASN1_CTX ASN1_CON 0 types, folded ctx0_def]
  have open': "\<lparr>sp_ctx = asn1_open b, sp_oid = Oid_null\<rparr> = parse_at [] b ASN1_ERR_NOERROR Oid_null" for b
    by (simp add: asn1_open_at parse_at_def)
  show "decode_negTokenInit (negTokenInit_with types blob) =
    fst (bnd (decode_asn1_header ASN1_UNI ASN1_CON ASN1_SEQ) decode_mech_token
      (parse_at ((((([] @ der_header ASN1_APL ASN1_CON ASN1_EOC (length (oid_tlv SPNEGO_OID @ init))) @ oid_tlv SPNEGO_OID)
        @ der_header ASN1_CTX ASN1_CON 0 (length seqs)) @ der_header ASN1_UNI ASN1_CON ASN1_SEQ (length (ctx0 @ blob)))
        @ der_header ASN1_CTX ASN1_CON 0 (length types)) (types @ blob) ASN1_ERR_NOERROR Oid_freed))"
    unfolding decode_negTokenInit_def decode_negTokenInit_from_def tok open' using l
    by (simp add: sq_apply p spnego_oid_parse del: length_append append_assoc append_Nil)
qed

text \<open>With definite mechTypes the parser goes on behind them, whatever they list after the first, with the array
  of the chosen identifier freed.\<close>

lemma negTokenInit_blob:
  assumes "mech \<noteq> SPNEGO_MAX_MECHS" and "length others + length blob < 2 ^ 32 - 100"
  obtains pre where "decode_negTokenInit (negTokenInit_with (mech_types mech others) blob) =
    (case fst (decode_krb5_blob (parse_at pre blob ASN1_ERR_NOERROR Oid_freed)) of Inl e \<Rightarrow> Inl e | Inr ap_req \<Rightarrow> Inr (mech, ap_req))"
proof -
  define moid where "moid = spnego_mech_oid mech"
  have moid: "moid \<in> {SPNEGO_OID, KRB5_OID, MSKRB5_OID}" by (auto simp: moid_def spnego_mech_oid_def split: spnego_mech.splits)
  have types: "mech_types mech others = der_tlv ASN1_UNI ASN1_CON ASN1_SEQ (oid_tlv moid @ others)"
    by (simp add: mech_types_def moid_def)
  have l: "length (oid_tlv moid @ others) < 2 ^ 32 - 6" "length (mech_types mech others) + length blob < 2 ^ 32 - 60"
    using assms(2) oid_tlv_length [OF moid] der_tlv_length(2) [of ASN1_UNI ASN1_CON ASN1_SEQ "oid_tlv moid @ others"]
    by (simp_all add: types)
  obtain q where outer: "decode_negTokenInit (negTokenInit_with (mech_types mech others) blob) =
      fst (bnd (decode_asn1_header ASN1_UNI ASN1_CON ASN1_SEQ) decode_mech_token (parse_at q (mech_types mech others @ blob) ASN1_ERR_NOERROR Oid_freed))"
    using negTokenInit_outer [OF l(2)] by blast
  define q' where "q' = q @ der_header ASN1_UNI ASN1_CON ASN1_SEQ (length (oid_tlv moid @ others)) @ oid_tlv moid"
  have h: "decode_asn1_header ASN1_UNI ASN1_CON ASN1_SEQ (parse_at q (mech_types mech others @ blob) ASN1_ERR_NOERROR Oid_freed) =
      (Inr (Some (length q + length (mech_types mech others))),
       parse_at (q @ der_header ASN1_UNI ASN1_CON ASN1_SEQ (length (oid_tlv moid @ others))) (oid_tlv moid @ others @ blob) ASN1_ERR_NOERROR Oid_freed)"
    using header_parse [OF _ _ _ l(1), of ASN1_UNI ASN1_CON ASN1_SEQ q blob] by (simp add: types)
  have m: "decode_mech_oid (parse_at (q @ der_header ASN1_UNI ASN1_CON ASN1_SEQ (length (oid_tlv moid @ others)))
      (oid_tlv moid @ others @ blob) ASN1_ERR_NOERROR Oid_freed) = (Inr mech, parse_at q' (others @ blob) ASN1_ERR_NOERROR Oid_freed)"
    using mech_oid_parse [OF assms(1)] by (simp add: moid_def q'_def)
  have s: "skip_to (Some (length q + length (mech_types mech others))) (parse_at q' (others @ blob) ASN1_ERR_NOERROR Oid_freed) =
      (Inr (), parse_at (q' @ others) blob ASN1_ERR_NOERROR Oid_freed)"
    by (rule skip_parse) (simp add: q'_def types der_tlv_def)
  show thesis
    by (rule that [of "q' @ others"])
      (simp add: outer h m s decode_mech_token_def bnd_apply sq_apply del: length_append, simp split: prod.splits sum.splits)
qed

lemma krb5_blob_parse:
  assumes "length ap_req < 2 ^ 31"
  shows "fst (decode_krb5_blob (parse_at pre (krb5_token ap_req) e v)) = Inr ap_req"
proof -
  define app where "app = oid_tlv KRB5_OID @ [1, 0] @ ap_req"
  define ots where "ots = der_tlv ASN1_APL ASN1_CON ASN1_EOC app"
  define tok where "tok = der_tlv ASN1_UNI ASN1_PRI ASN1_OTS ots"
  have l: "length app < 2 ^ 32 - 18" "length ots < 2 ^ 32 - 12" "length tok < 2 ^ 32 - 6"
    using assms oid_tlv_length [of KRB5_OID] der_tlv_length(2) [of ASN1_APL ASN1_CON ASN1_EOC app]
      der_tlv_length(2) [of ASN1_UNI ASN1_PRI ASN1_OTS ots] by (simp_all add: app_def ots_def tok_def)
  have t: "krb5_token ap_req = der_tlv ASN1_CTX ASN1_CON 2 tok" by (simp add: krb5_token_def tok_def ots_def app_def)
  have p: "decode_asn1_header ASN1_CTX ASN1_CON 2 (parse_at q (krb5_token ap_req) e v) =
      (Inr (Some (length q + length (krb5_token ap_req))), parse_at (q @ der_header ASN1_CTX ASN1_CON 2 (length tok)) tok e v)"
    "decode_asn1_header ASN1_UNI ASN1_PRI ASN1_OTS (parse_at q tok e v) =
      (Inr (Some (length q + length tok)), parse_at (q @ der_header ASN1_UNI ASN1_PRI ASN1_OTS (length ots)) ots e v)"
    "decode_asn1_header ASN1_APL ASN1_CON ASN1_EOC (parse_at q ots e v) =
      (Inr (Some (length q + length ots)), parse_at (q @ der_header ASN1_APL ASN1_CON ASN1_EOC (length app)) app e v)" for q
    using l header_parse_last [of ASN1_CTX ASN1_CON 2 tok q e v] header_parse_last [of ASN1_UNI ASN1_PRI ASN1_OTS ots q e v]
      header_parse_last [of ASN1_APL ASN1_CON ASN1_EOC app q e v]
    by (simp_all add: t tok_def [symmetric] ots_def [symmetric])
  have r: "on_ctx (asn1_read 2) (parse_at q ([1, 0] @ ap_req) e Oid_freed) = (Inr [1, 0], parse_at (q @ [1, 0]) ap_req e Oid_freed)" for q
    by (simp add: on_ctx_def parse_at_def asn1_read_def asn1_at_def slice_def numeral_2_eq_2)
  have "fst (bnd (decode_asn1_header ASN1_UNI ASN1_PRI ASN1_OJI) (\<lambda>eoc. sq (expect_oid eoc KRB5_OID)
      (bnd (on_ctx (asn1_read 2)) (\<lambda>i. if i \<noteq> [1, 0] then fail (Err EINVAL)
        else reads (\<lambda>s. drop (ac_pointer (sp_ctx s)) (ac_buf (sp_ctx s)))))) (parse_at q app e v)) = Inr ap_req" for q
    by (simp add: app_def bnd_apply sq_apply oid_tlv_parse r [simplified] parse_at_def [of _ ap_req])
  then show ?thesis
    unfolding decode_krb5_blob_def by (simp add: sq_apply p)
qed

lemma negTokenInit_parse:
  assumes "mech \<noteq> SPNEGO_MAX_MECHS" and "length others + length ap_req < 2 ^ 31"
  shows "decode_negTokenInit (negTokenInit_token mech others ap_req) = Inr (mech, ap_req)"
proof -
  have "length (krb5_token ap_req) \<le> length ap_req + 37"
    using oid_tlv_length [of KRB5_OID]
      der_tlv_length(2) [of ASN1_APL ASN1_CON ASN1_EOC "oid_tlv KRB5_OID @ [1, 0] @ ap_req"]
      der_tlv_length(2) [of ASN1_UNI ASN1_PRI ASN1_OTS "der_tlv ASN1_APL ASN1_CON ASN1_EOC (oid_tlv KRB5_OID @ [1, 0] @ ap_req)"]
      der_tlv_length(2) [of ASN1_CTX ASN1_CON 2 "der_tlv ASN1_UNI ASN1_PRI ASN1_OTS (der_tlv ASN1_APL ASN1_CON ASN1_EOC (oid_tlv KRB5_OID @ [1, 0] @ ap_req))"]
    by (simp add: krb5_token_def)
  with assms have l: "length others + length (krb5_token ap_req) < 2 ^ 32 - 100" by simp
  show ?thesis
    using negTokenInit_blob [OF assms(1) l] krb5_blob_parse [of ap_req] assms(2)
    by (metis (no_types, lifting) negTokenInit_token_def sum.case(2) trans_le_add2 add_lessD1 add.commute)
qed

section \<open>Writing a token\<close>

definition out_at :: "byte list \<Rightarrow> nat \<Rightarrow> spnego_out" where
  "out_at pre n = \<lparr>so_blob = pre @ replicate n 0, so_pos = length pre\<rparr>"

text \<open>\<open>m\<close> writes \<open>bs\<close> at the cursor, moves behind it and returns \<open>x\<close>, if there is room.\<close>

definition emits :: "(spnego_out, 'a) act \<Rightarrow> byte list \<Rightarrow> 'a \<Rightarrow> bool" where
  "emits m bs x \<longleftrightarrow> (\<forall>pre n. m (out_at pre (length bs + n)) = (Inr x, out_at (pre @ bs) n))"

lemma emits_bnd: "emits m bs x \<Longrightarrow> emits (f x) cs y \<Longrightarrow> emits (bnd m f) (bs @ cs) y"
  by (simp add: emits_def bnd_apply add.assoc)

lemma emits_sq: "emits m bs x \<Longrightarrow> emits n cs y \<Longrightarrow> emits (sq m n) (bs @ cs) y"
  unfolding sq_def by (rule emits_bnd)

lemma out_write_at: "out_write bs (out_at pre (length bs + n)) = (Inr (), \<lparr>so_blob = pre @ bs @ replicate n 0, so_pos = length pre\<rparr>)"
  by (simp add: out_write_def out_at_def overwrite_def replicate_add)

lemma emits_write: "k = length bs \<Longrightarrow> emits (sq (out_write bs) (out_skip k)) bs ()"
  by (simp add: emits_def sq_apply out_write_at out_skip_def modify_def) (simp add: out_at_def)

lemma emits_header:
  assumes "length body < 2 ^ 32 - 6"
  shows "emits (out_header cls con tag (word_of_nat (length (der_tlv cls con tag body)))) (der_header cls con tag (length body)) (word_of_nat (length body))"
  by (simp add: emits_def out_header_def header_encode_tlv [OF assms] sq_apply out_write_at out_skip_def modify_def) (simp add: out_at_def)

lemma emits_headers:
  assumes "length (der_tlv cls' con' tag' body) < 2 ^ 32 - 6"
  shows "emits (bnd (out_header cls con tag (word_of_nat (length (der_tlv cls con tag (der_tlv cls' con' tag' body))))) (out_header cls' con' tag'))
    (der_header cls con tag (length (der_tlv cls' con' tag' body)) @ der_header cls' con' tag' (length body)) (word_of_nat (length body))"
proof (rule emits_bnd)
  have "length body < 2 ^ 32 - 6" using assms der_tlv_length(1) [of body cls' con' tag'] by simp
  then show "emits (out_header cls' con' tag' (word_of_nat (length (der_tlv cls' con' tag' body)))) (der_header cls' con' tag' (length body)) (word_of_nat (length body))"
    by (rule emits_header)
qed (rule emits_header [OF assms])

lemma header_len_nested:
  assumes "length (der_tlv cls' con' tag' body) < 2 ^ 32 - 6"
  shows "asn1_header_len (word_of_nat (length body)) 2 = word_of_nat (length (der_tlv cls con tag (der_tlv cls' con' tag' body)))"
proof -
  have "length body < 2 ^ 32 - 6" using assms der_tlv_length(1) [of body cls' con' tag'] by simp
  from header_len_tlv [OF this, of cls' con' tag'] header_len_tlv [OF assms, of cls con tag] show ?thesis
    by (simp add: numeral_2_eq_2)
qed

text \<open>The reply as RFC 4178 lays it out.\<close>

definition neg_result :: "byte list" where
  "neg_result = der_tlv ASN1_CTX ASN1_CON 0 (der_tlv ASN1_UNI ASN1_PRI ASN1_ENUM [0])"

definition supported_mech :: "byte list \<Rightarrow> byte list" where
  "supported_mech sup_oid = der_tlv ASN1_CTX ASN1_CON 1 (der_tlv ASN1_UNI ASN1_PRI ASN1_OJI sup_oid)"

definition response_token :: "byte list \<Rightarrow> byte list" where
  "response_token in_blob = der_tlv ASN1_CTX ASN1_CON 2 (der_tlv ASN1_UNI ASN1_PRI ASN1_OTS
     (der_tlv ASN1_APL ASN1_CON 0 (oid_tlv KRB5_OID @ [2, 0] @ in_blob)))"

definition negTokenTarg_token :: "byte list \<Rightarrow> byte list \<Rightarrow> byte list" where
  "negTokenTarg_token sup_oid in_blob =
     der_tlv ASN1_CTX ASN1_CON 1 (der_tlv ASN1_UNI ASN1_CON ASN1_SEQ (neg_result @ supported_mech sup_oid @ response_token in_blob))"

definition emits_last :: "(spnego_out, unit) act \<Rightarrow> byte list \<Rightarrow> bool" where
  "emits_last m bs \<longleftrightarrow> (\<forall>pre. \<exists>s. m (out_at pre (length bs)) = (Inr (), s) \<and> so_blob s = pre @ bs)"

lemma emits_last_sq: "emits m bs x \<Longrightarrow> emits_last k cs \<Longrightarrow> emits_last (sq m k) (bs @ cs)"
  by (fastforce simp: emits_def emits_last_def sq_apply)

lemma emits_last_write: "emits_last (out_write bs) bs"
  using out_write_at [of bs _ 0] by (simp add: emits_last_def)

lemma emits_oid: "emits m bs (word_of_nat (length oid)) \<Longrightarrow> length oid < 2 ^ 32 \<Longrightarrow>
    emits (bnd m (\<lambda>len :: u32. sq (out_write oid) (out_skip (unat len)))) (bs @ oid) ()"
  by (erule emits_bnd) (simp add: emits_write unat_u32_of_nat)

lemma rep_token_len_eq:
  assumes "length in_blob < 2 ^ 31"
  shows "rep_token_len (oid_octets KRB5_OID) (word_of_nat (length in_blob)) = word_of_nat (length (response_token in_blob))"
    and "length (response_token in_blob) \<le> length in_blob + 37"
proof -
  define app where "app = oid_tlv KRB5_OID @ [2, 0] @ in_blob"
  have k: "length (oid_octets KRB5_OID) < 2 ^ 32 - 6" using known_oids [of KRB5_OID] by simp
  have l: "length app \<le> length in_blob + 19" using oid_tlv_length [of KRB5_OID] by (simp add: app_def)
  have a: "asn1_header_len (word_of_nat (length (oid_octets KRB5_OID))) 1 + (2 + word_of_nat (length in_blob)) = (word_of_nat (length app) :: u32)"
    using header_len_tlv [OF k, of ASN1_UNI ASN1_PRI ASN1_OJI] by (simp add: app_def oid_tlv_def)
  define ots where "ots = der_tlv ASN1_UNI ASN1_PRI ASN1_OTS (der_tlv ASN1_APL ASN1_CON 0 app)"
  have r: "response_token in_blob = der_tlv ASN1_CTX ASN1_CON 2 ots" by (simp add: response_token_def ots_def app_def)
  have m: "length (der_tlv ASN1_APL ASN1_CON 0 app) \<le> length app + 6" "length ots \<le> length app + 12"
    using der_tlv_length(2) [of ASN1_APL ASN1_CON 0 app] der_tlv_length(2) [of ASN1_UNI ASN1_PRI ASN1_OTS "der_tlv ASN1_APL ASN1_CON 0 app"]
    by (simp_all add: ots_def)
  show "length (response_token in_blob) \<le> length in_blob + 37"
    using m l der_tlv_length(2) [of ASN1_CTX ASN1_CON 2 ots] by (simp add: r)
  have "asn1_header_len (word_of_nat (length app)) 2 = word_of_nat (length ots)"
    unfolding ots_def using m(1) l assms by (intro header_len_nested) simp
  moreover have "word_of_nat (length ots) + asn1_header_overhead (word_of_nat (length ots)) = (word_of_nat (length (response_token in_blob)) :: u32)"
    unfolding r using m l assms by (intro header_len_tlv) simp
  ultimately have "asn1_header_len (word_of_nat (length app)) 3 = word_of_nat (length (response_token in_blob))"
    using header_len_Suc [of "word_of_nat (length app)" 2] by simp
  then show "rep_token_len (oid_octets KRB5_OID) (word_of_nat (length in_blob)) = word_of_nat (length (response_token in_blob))"
    by (simp only: rep_token_len_def a)
qed

lemma negTokenTarg_lengths:
  assumes "length sup_oid < 2 ^ 20"
  shows "sup_mech_len sup_oid = word_of_nat (length (supported_mech sup_oid))" and "length (supported_mech sup_oid) \<le> length sup_oid + 12"
    and "neg_result_len = word_of_nat (length neg_result)" and "length neg_result \<le> 13"
proof -
  show "length (supported_mech sup_oid) \<le> length sup_oid + 12" "length neg_result \<le> 13"
    using der_tlv_length(2) [of ASN1_UNI ASN1_PRI ASN1_OJI sup_oid] der_tlv_length(2) [of ASN1_CTX ASN1_CON 1 "der_tlv ASN1_UNI ASN1_PRI ASN1_OJI sup_oid"]
      der_tlv_length(2) [of ASN1_UNI ASN1_PRI ASN1_ENUM "[0]"] der_tlv_length(2) [of ASN1_CTX ASN1_CON 0 "der_tlv ASN1_UNI ASN1_PRI ASN1_ENUM [0]"]
    by (simp_all add: supported_mech_def neg_result_def)
  show "sup_mech_len sup_oid = word_of_nat (length (supported_mech sup_oid))"
    unfolding sup_mech_len_def supported_mech_def
    using assms der_tlv_length(2) [of ASN1_UNI ASN1_PRI ASN1_OJI sup_oid] by (intro header_len_nested) simp
  have "asn1_header_len (word_of_nat (length [0 :: byte])) 2 = word_of_nat (length neg_result)"
    unfolding neg_result_def using der_tlv_length(2) [of ASN1_UNI ASN1_PRI ASN1_ENUM "[0]"] by (intro header_len_nested) simp
  then show "neg_result_len = word_of_nat (length neg_result)" by (simp add: neg_result_len_def)
qed

lemma emits_response_headers:
  assumes "length in_blob < 2 ^ 31"
  defines "app \<equiv> der_tlv ASN1_APL ASN1_CON 0 (oid_tlv KRB5_OID @ [2, 0] @ in_blob)"
  shows "emits (bnd (bnd (out_header ASN1_CTX ASN1_CON 2 (rep_token_len (oid_octets KRB5_OID) (word_of_nat (length in_blob))))
      (out_header ASN1_UNI ASN1_PRI ASN1_OTS)) (out_header ASN1_APL ASN1_CON 0))
    ((der_header ASN1_CTX ASN1_CON 2 (length (der_tlv ASN1_UNI ASN1_PRI ASN1_OTS app)) @ der_header ASN1_UNI ASN1_PRI ASN1_OTS (length app))
      @ der_header ASN1_APL ASN1_CON 0 (length (oid_tlv KRB5_OID @ [2, 0] @ in_blob)))
    (word_of_nat (length (oid_tlv KRB5_OID @ [2, 0] @ in_blob)))"
proof -
  have r: "response_token in_blob = der_tlv ASN1_CTX ASN1_CON 2 (der_tlv ASN1_UNI ASN1_PRI ASN1_OTS app)"
    by (simp add: response_token_def app_def)
  have l: "length (der_tlv ASN1_UNI ASN1_PRI ASN1_OTS app) < 2 ^ 32 - 6" "length (oid_tlv KRB5_OID @ [2, 0] @ in_blob) < 2 ^ 32 - 6"
    using rep_token_len_eq(2) [OF assms(1)] assms(1) oid_tlv_length [of KRB5_OID]
      der_tlv_length(1) [of "der_tlv ASN1_UNI ASN1_PRI ASN1_OTS app" ASN1_CTX ASN1_CON 2] by (simp_all add: r)
  show ?thesis
    unfolding rep_token_len_eq(1) [OF assms(1)] r
    by (rule emits_bnd [OF emits_headers [OF l(1)]], unfold app_def, rule emits_header [OF l(2)])
qed

lemma negTokenTarg_body_emits:
  assumes "length in_blob < 2 ^ 31" and "length sup_oid < 2 ^ 20"
  shows "emits_last (negTokenTarg_body in_blob sup_oid (oid_octets KRB5_OID) (word_of_nat (length (negTokenTarg_token sup_oid in_blob))))
    (negTokenTarg_token sup_oid in_blob)"
proof -
  define body where "body = neg_result @ supported_mech sup_oid @ response_token in_blob"
  have t: "negTokenTarg_token sup_oid in_blob = der_tlv ASN1_CTX ASN1_CON 1 (der_tlv ASN1_UNI ASN1_CON ASN1_SEQ body)"
    by (simp add: negTokenTarg_token_def body_def)
  have l: "length (der_tlv ASN1_UNI ASN1_CON ASN1_SEQ body) < 2 ^ 32 - 6" "length (der_tlv ASN1_UNI ASN1_PRI ASN1_OJI sup_oid) < 2 ^ 32 - 6"
    "length (der_tlv ASN1_UNI ASN1_PRI ASN1_ENUM [0]) < 2 ^ 32 - 6" "length (oid_octets KRB5_OID) < 2 ^ 32 - 6"
    using assms negTokenTarg_lengths(2) [OF assms(2)] negTokenTarg_lengths(4) [of "[]"] rep_token_len_eq(2) [OF assms(1)] known_oids [of KRB5_OID]
      der_tlv_length(2) [of ASN1_UNI ASN1_CON ASN1_SEQ body] der_tlv_length(2) [of ASN1_UNI ASN1_PRI ASN1_OJI sup_oid]
      der_tlv_length(2) [of ASN1_UNI ASN1_PRI ASN1_ENUM "[0]"] by (simp_all add: body_def)
  have k: "asn1_header_len (word_of_nat (length (oid_octets KRB5_OID))) 1 = word_of_nat (length (oid_tlv KRB5_OID))"
    using header_len_tlv [OF l(4), of ASN1_UNI ASN1_PRI ASN1_OJI] by (simp add: oid_tlv_def)
  note e1 = emits_headers [OF l(1), of ASN1_CTX ASN1_CON 1, folded t]
    and e2 = emits_headers [OF l(3), of ASN1_CTX ASN1_CON 0, folded neg_result_def, folded negTokenTarg_lengths(3) [OF assms(2)]]
    and e3 = emits_write [of 1 "[0]"]
    and e4 = emits_oid [OF emits_headers [OF l(2), of ASN1_CTX ASN1_CON 1, folded supported_mech_def, folded negTokenTarg_lengths(1) [OF assms(2)]]]
    and e5 = emits_response_headers [OF assms(1)]
    and e6 = emits_oid [OF emits_header [OF l(4), of ASN1_UNI ASN1_PRI ASN1_OJI, folded oid_tlv_def, folded k]]
    and e7 = emits_write [of 2 "[2, 0]"]
  have s: "length sup_oid < 2 ^ 32" and o: "length (oid_octets KRB5_OID) < 2 ^ 32" using assms(2) l(4) by simp_all
  note all = emits_last_sq [OF e1 emits_last_sq [OF e2 emits_last_sq [OF e3 emits_last_sq [OF e4 [OF s]
    emits_last_sq [OF e5 emits_last_sq [OF e6 [OF o] emits_last_sq [OF e7 emits_last_write [of in_blob]]]]]]]]
  from all [folded negTokenTarg_body_def] show ?thesis
    by (simp add: t body_def neg_result_def supported_mech_def response_token_def oid_tlv_def der_tlv_def)
qed

lemma spnego_mech_oid_octets: "asn1_oid_encode (spnego_mech_oid mech) = Inr (oid_octets (spnego_mech_oid mech))"
  "length (oid_octets (spnego_mech_oid mech)) < 2 ^ 20"
  using known_oids [of "spnego_mech_oid mech"] by (auto simp: spnego_mech_oid_def split: spnego_mech.splits)

lemma encode_negTokenTarg_eq:
  assumes "length in_blob < 2 ^ 31"
  shows "encode_negTokenTarg in_blob (spnego_mech_oid mech) =
    Inr (negTokenTarg_token (oid_octets (spnego_mech_oid mech)) in_blob)"
proof -
  define sup where "sup = oid_octets (spnego_mech_oid mech)"
  define body where "body = neg_result @ supported_mech sup @ response_token in_blob"
  define tok where "tok = negTokenTarg_token sup in_blob"
  have t: "tok = der_tlv ASN1_CTX ASN1_CON 1 (der_tlv ASN1_UNI ASN1_CON ASN1_SEQ body)"
    by (simp add: tok_def negTokenTarg_token_def body_def)
  have s: "length sup < 2 ^ 20" by (simp add: sup_def spnego_mech_oid_octets(2) [simplified])
  have l: "length (der_tlv ASN1_UNI ASN1_CON ASN1_SEQ body) < 2 ^ 32 - 6" "length tok < 2 ^ 32"
    using assms s negTokenTarg_lengths(2,4) [OF s] rep_token_len_eq(2) [OF assms]
      der_tlv_length(2) [of ASN1_UNI ASN1_CON ASN1_SEQ body] der_tlv_length(2) [of ASN1_CTX ASN1_CON 1 "der_tlv ASN1_UNI ASN1_CON ASN1_SEQ body"]
    by (simp_all add: t) (simp_all add: body_def)
  have "neg_result_len + sup_mech_len sup + rep_token_len (oid_octets KRB5_OID) (word_of_nat (length in_blob)) = (word_of_nat (length body) :: u32)"
    by (simp add: negTokenTarg_lengths [OF s] rep_token_len_eq [OF assms] body_def)
  then have len: "asn1_header_len (neg_result_len + sup_mech_len sup + rep_token_len (oid_octets KRB5_OID) (word_of_nat (length in_blob))) 2 =
      word_of_nat (length tok)"
    using header_len_nested [OF l(1), of ASN1_CTX ASN1_CON 1] by (simp add: t)
  from negTokenTarg_body_emits [OF assms s] obtain st where
    "negTokenTarg_body in_blob sup (oid_octets KRB5_OID) (word_of_nat (length tok)) (out_at [] (length tok)) = (Inr (), st)" "so_blob st = tok"
    unfolding emits_last_def tok_def by fastforce
  then show ?thesis
    using known_oids [of KRB5_OID] l(2)
    by (simp add: encode_negTokenTarg_def spnego_mech_oid_octets(1) sup_def [symmetric] Let_def len unat_u32_of_nat out_at_def tok_def [symmetric])
qed

section \<open>Malformed tokens\<close>

lemma header_parse_indefinite:
  assumes "cls < 4" "tag < 31"
  shows "decode_asn1_header cls ASN1_CON tag (parse_at pre (asn1_id_octet cls ASN1_CON tag # 0x80 # suf) e v) =
    (Inr None, parse_at (pre @ [asn1_id_octet cls ASN1_CON tag, 0x80]) suf e v)"
  using id_at [of cls ASN1_CON tag pre "0x80 # suf" e] assms
  by (simp add: decode_asn1_header_def on_ctx_def parse_at_def bnd_apply asn1_header_decode_def asn1_length_decode_def
      ASN1_PRI_def ASN1_CON_def)

lemma indefinite_mech_types:
  assumes "mech \<noteq> SPNEGO_MAX_MECHS" and "length suf + length blob < 2 ^ 31"
  shows "decode_negTokenInit (negTokenInit_with
    (asn1_id_octet ASN1_UNI ASN1_CON ASN1_SEQ # 0x80 # oid_tlv (spnego_mech_oid mech) @ suf) blob) = Inl Fault"
proof -
  have m: "spnego_mech_oid mech \<in> {SPNEGO_OID, KRB5_OID, MSKRB5_OID}" by (auto simp: spnego_mech_oid_def split: spnego_mech.splits)
  have l: "length (asn1_id_octet ASN1_UNI ASN1_CON ASN1_SEQ # 0x80 # oid_tlv (spnego_mech_oid mech) @ suf) + length blob < 2 ^ 32 - 60"
    using assms(2) oid_tlv_length [OF m] by simp
  obtain pre where "decode_negTokenInit (negTokenInit_with
      (asn1_id_octet ASN1_UNI ASN1_CON ASN1_SEQ # 0x80 # oid_tlv (spnego_mech_oid mech) @ suf) blob) =
    fst (bnd (decode_asn1_header ASN1_UNI ASN1_CON ASN1_SEQ) decode_mech_token (parse_at pre
      ((asn1_id_octet ASN1_UNI ASN1_CON ASN1_SEQ # 0x80 # oid_tlv (spnego_mech_oid mech) @ suf) @ blob) ASN1_ERR_NOERROR Oid_freed))"
    by (rule negTokenInit_outer [OF l])
  then show ?thesis
    by (simp add: bnd_apply header_parse_indefinite decode_mech_token_def mech_oid_parse [OF assms(1)] sq_apply skip_to_def fail_def)
qed

lemma empty_krb5_oid:
  assumes "mech \<noteq> SPNEGO_MAX_MECHS" and "length others + length suf < 2 ^ 31"
  shows "decode_negTokenInit (negTokenInit_with (mech_types mech others)
    (der_tlv ASN1_CTX ASN1_CON 2 (der_tlv ASN1_UNI ASN1_PRI ASN1_OTS (der_tlv ASN1_APL ASN1_CON ASN1_EOC
      (der_tlv ASN1_UNI ASN1_PRI ASN1_OJI [] @ suf))))) = Inl Fault"
proof -
  define app where "app = der_tlv ASN1_UNI ASN1_PRI ASN1_OJI [] @ suf"
  define ots where "ots = der_tlv ASN1_APL ASN1_CON ASN1_EOC app"
  define tok where "tok = der_tlv ASN1_UNI ASN1_PRI ASN1_OTS ots"
  define blob where "blob = der_tlv ASN1_CTX ASN1_CON 2 tok"
  have l: "length app \<le> length suf + 6" "length ots \<le> length suf + 12" "length tok \<le> length suf + 18" "length blob \<le> length suf + 24"
    using der_tlv_length(2) [of ASN1_UNI ASN1_PRI ASN1_OJI "[]"] der_tlv_length(2) [of ASN1_APL ASN1_CON ASN1_EOC app]
      der_tlv_length(2) [of ASN1_UNI ASN1_PRI ASN1_OTS ots] der_tlv_length(2) [of ASN1_CTX ASN1_CON 2 tok]
    by (simp_all add: app_def ots_def tok_def blob_def)
  have p: "decode_asn1_header ASN1_CTX ASN1_CON 2 (parse_at q blob e v) =
      (Inr (Some (length q + length blob)), parse_at (q @ der_header ASN1_CTX ASN1_CON 2 (length tok)) tok e v)"
    "decode_asn1_header ASN1_UNI ASN1_PRI ASN1_OTS (parse_at q tok e v) =
      (Inr (Some (length q + length tok)), parse_at (q @ der_header ASN1_UNI ASN1_PRI ASN1_OTS (length ots)) ots e v)"
    "decode_asn1_header ASN1_APL ASN1_CON ASN1_EOC (parse_at q ots e v) =
      (Inr (Some (length q + length ots)), parse_at (q @ der_header ASN1_APL ASN1_CON ASN1_EOC (length app)) app e v)" for q e v
    using l assms(2) header_parse_last [of ASN1_CTX ASN1_CON 2 tok q e v] header_parse_last [of ASN1_UNI ASN1_PRI ASN1_OTS ots q e v]
      header_parse_last [of ASN1_APL ASN1_CON ASN1_EOC app q e v]
    by (simp_all add: blob_def tok_def [symmetric] ots_def [symmetric])
  have o: "decode_asn1_header ASN1_UNI ASN1_PRI ASN1_OJI (parse_at q app e v) =
      (Inr (Some (length (q @ der_header ASN1_UNI ASN1_PRI ASN1_OJI 0))), parse_at (q @ der_header ASN1_UNI ASN1_PRI ASN1_OJI 0) suf e v)" for q e v
    using header_parse [of ASN1_UNI ASN1_PRI ASN1_OJI "[]" q suf e v] by (simp add: app_def der_tlv_def)
  have "expect_oid (Some (length q)) KRB5_OID (parse_at q suf e Oid_freed) = (Inl Fault, parse_at q suf e Oid_freed)" for q e
    by (simp add: expect_oid_def sq_apply catch_err_def bnd_apply decode_oid_def asn1_oid_size_ok_def asn1_oid_size_def free_oid_def parse_at_def)
  then have "fst (decode_krb5_blob (parse_at q blob e Oid_freed)) = Inl Fault" for q e
    by (simp add: decode_krb5_blob_def sq_apply p bnd_apply o del: length_append)
  moreover have "length others + length blob < 2 ^ 32 - 100" using l(4) assms(2) by simp
  note negTokenInit_blob [OF assms(1) this]
  ultimately show ?thesis by (metis blob_def tok_def ots_def app_def sum.case(1))
qed

section \<open>Properties\<close>

text \<open>C16: the negTokenTarg that carries an AP_REP is, octet for octet, the nested distinguished encoding of
  RFC 4178: accept-completed, the chosen mechanism and a GSS token of the Kerberos OID, the id of an AP_REP and
  the AP_REP.  The block that was allocated from the counted lengths is filled exactly.\<close>

theorem negTokenTarg_encoding:
  assumes "length in_blob < 2 ^ 31"
  shows "encode_negTokenTarg in_blob (spnego_mech_oid mech) = Inr
    (der_tlv ASN1_CTX ASN1_CON 1 (der_tlv ASN1_UNI ASN1_CON ASN1_SEQ
      (der_tlv ASN1_CTX ASN1_CON 0 (der_tlv ASN1_UNI ASN1_PRI ASN1_ENUM [0])
       @ der_tlv ASN1_CTX ASN1_CON 1 (oid_tlv (spnego_mech_oid mech))
       @ der_tlv ASN1_CTX ASN1_CON 2 (der_tlv ASN1_UNI ASN1_PRI ASN1_OTS
           (der_tlv ASN1_APL ASN1_CON 0 (oid_tlv KRB5_OID @ [2, 0] @ in_blob))))))"
  using encode_negTokenTarg_eq [OF assms, of mech]
  by (simp add: negTokenTarg_token_def neg_result_def supported_mech_def response_token_def oid_tlv_def)

theorem negTokenTarg_encoding_witness:
  "length [7 :: byte] < 2 ^ 31 \<and> encode_negTokenTarg [7] (spnego_mech_oid SPNEGO_MECH_KRB5) = Inr
    (der_tlv ASN1_CTX ASN1_CON 1 (der_tlv ASN1_UNI ASN1_CON ASN1_SEQ
      (der_tlv ASN1_CTX ASN1_CON 0 (der_tlv ASN1_UNI ASN1_PRI ASN1_ENUM [0])
       @ der_tlv ASN1_CTX ASN1_CON 1 (oid_tlv (spnego_mech_oid SPNEGO_MECH_KRB5))
       @ der_tlv ASN1_CTX ASN1_CON 2 (der_tlv ASN1_UNI ASN1_PRI ASN1_OTS
           (der_tlv ASN1_APL ASN1_CON 0 (oid_tlv KRB5_OID @ [2, 0] @ [7]))))))"
  using negTokenTarg_encoding [of "[7]" SPNEGO_MECH_KRB5] by simp

text \<open>C20: a negTokenInit whose GSS token has an empty mechanism OID makes the parser free the array of the
  chosen mechanism's OID a second time: \<open>asn1_oid_decode\<close> refuses the size before it sets \<open>oid\<close>, and the
  error path frees what \<open>oid\<close> still points to.  Any client can send such a token.\<close>

theorem spnego_double_free:
  assumes "mech \<noteq> SPNEGO_MAX_MECHS" and "length others + length suf < 2 ^ 31"
  shows "decode_negTokenInit (negTokenInit_with (mech_types mech others)
    (der_tlv ASN1_CTX ASN1_CON 2 (der_tlv ASN1_UNI ASN1_PRI ASN1_OTS (der_tlv ASN1_APL ASN1_CON ASN1_EOC
      (der_tlv ASN1_UNI ASN1_PRI ASN1_OJI [] @ suf))))) = Inl Fault"
  using assms by (rule empty_krb5_oid)

theorem spnego_double_free_witness:
  "decode_negTokenInit (negTokenInit_with (mech_types SPNEGO_MECH_KRB5 [])
    (der_tlv ASN1_CTX ASN1_CON 2 (der_tlv ASN1_UNI ASN1_PRI ASN1_OTS (der_tlv ASN1_APL ASN1_CON ASN1_EOC
      (der_tlv ASN1_UNI ASN1_PRI ASN1_OJI [] @ []))))) = Inl Fault"
  by (rule spnego_double_free) simp_all

text \<open>C21: a negTokenInit whose mechTypes have the indefinite length makes the parser read through a NULL
  pointer: the end of indefinite contents is NULL, and the parser goes on there.\<close>

theorem spnego_null_dereference:
  assumes "mech \<noteq> SPNEGO_MAX_MECHS" and "length suf + length blob < 2 ^ 31"
  shows "decode_negTokenInit (negTokenInit_with
    (asn1_id_octet ASN1_UNI ASN1_CON ASN1_SEQ # 0x80 # oid_tlv (spnego_mech_oid mech) @ suf) blob) = Inl Fault"
  using assms by (rule indefinite_mech_types)

theorem spnego_null_dereference_witness:
  "decode_negTokenInit (negTokenInit_with
    (asn1_id_octet ASN1_UNI ASN1_CON ASN1_SEQ # 0x80 # oid_tlv (spnego_mech_oid SPNEGO_MECH_KRB5) @ [0, 0]) []) = Inl Fault"
  by (rule spnego_null_dereference) simp_all

end
