(* ===== verification/Spnego_Krb5.thy ===== *)
theory Spnego_Krb5
  imports Spnego Config_Text "HOL-Library.Multiset"
begin

text \<open>
  \<open>src/tools/management/spnego_krb5.c\<close> and the mechanism table of \<open>spnego.c\<close>.  The Kerberos library is the
  record \<open>krb5_lib\<close> of what its calls return, \<open>None\<close> where they fail, built as for MIT Kerberos
  (\<open>HAVE_KRB5_AUTHENTICATOR_CLIENT\<close>).  \<open>sn_live\<close> lists the objects that the library or the allocator has
  handed out and that were not given back.
\<close>

section \<open>State\<close>

datatype krb5_res = Krb5_context | Keytab | Creds | Principal | Service_name | Host_name
  | Auth_context | Ticket | Session_key | Ap_rep | Authenticator | Client_name | User_name | Sess_key | Reply_blob

record krb5_lib =
  kl_host_name :: "byte list option"
  kl_init_context :: bool
  kl_kt_open :: "byte list option \<Rightarrow> nat option"
  kl_sname_to_principal :: "byte list \<Rightarrow> byte list \<Rightarrow> nat option"
  kl_get_init_creds_keytab :: "nat \<Rightarrow> nat \<Rightarrow> nat option"
  kl_auth_con_init :: bool
  kl_rd_req :: "nat \<Rightarrow> nat \<Rightarrow> byte list \<Rightarrow> nat option"
  kl_auth_con_getrecvsubkey :: "nat \<Rightarrow> byte list option"
  kl_mk_rep :: "nat \<Rightarrow> byte list option"
  kl_auth_con_getauthenticator :: "nat \<Rightarrow> nat option"
  kl_unparse_client :: "nat \<Rightarrow> byte list option"

record krb5_conf =
  kc_krb5_support :: bool
  kc_krb5_service_name :: "byte list option"
  kc_krb5_keytab_file :: "byte list option"

text \<open>\<open>mc_ops\<close> is NULL until \<open>spnego_init\<close>; \<open>mc_private\<close> holds the keytab and the credentials.\<close>

record spnego_mech_ctx =
  mc_oid :: "u64 list"
  mc_private :: "(nat \<times> nat) option"
  mc_keytab_name :: "byte list option"
  mc_service_name :: "byte list option"
  mc_ops :: bool

record spnego_state =
  sn_mskrb5 :: spnego_mech_ctx
  sn_krb5 :: spnego_mech_ctx
  sn_live :: "krb5_res list"

record ksmbd_spnego_auth_out =
  ao_spnego_blob :: "byte list"
  ao_sess_key :: "byte list"
  ao_user_name :: "byte list"

definition acquire :: "krb5_res \<Rightarrow> (spnego_state, unit) act" where
  "acquire r = modify (\<lambda>s. s\<lparr>sn_live := r # sn_live s\<rparr>)"

definition release :: "krb5_res \<Rightarrow> (spnego_state, unit) act" where
  "release r = (\<lambda>s. if r \<in> set (sn_live s) then (Inr (), s\<lparr>sn_live := remove1 r (sn_live s)\<rparr>) else (Inl Fault, s))"

text \<open>The labels at the end of a function: \<open>r\<close> is given back whether \<open>m\<close> failed or not.\<close>

definition finally_release :: "krb5_res list \<Rightarrow> (spnego_state, 'a) act \<Rightarrow> (spnego_state, 'a) act" where
  "finally_release rs m = (\<lambda>s. case m s of
       (Inl Fault, t) \<Rightarrow> (Inl Fault, t)
     | (r, t) \<Rightarrow> (case each release rs t of (Inl e, u) \<Rightarrow> (Inl e, u) | (Inr _, u) \<Rightarrow> (r, u)))"

fun get_mech :: "spnego_mech \<Rightarrow> spnego_state \<Rightarrow> spnego_mech_ctx option" where
  "get_mech SPNEGO_MECH_MSKRB5 s = Some (sn_mskrb5 s)"
| "get_mech SPNEGO_MECH_KRB5 s = Some (sn_krb5 s)"
| "get_mech SPNEGO_MAX_MECHS s = None"

fun set_mech :: "spnego_mech \<Rightarrow> (spnego_mech_ctx \<Rightarrow> spnego_mech_ctx) \<Rightarrow> spnego_state \<Rightarrow> spnego_state" where
  "set_mech SPNEGO_MECH_MSKRB5 f s = s\<lparr>sn_mskrb5 := f (sn_mskrb5 s)\<rparr>"
| "set_mech SPNEGO_MECH_KRB5 f s = s\<lparr>sn_krb5 := f (sn_krb5 s)\<rparr>"
| "set_mech SPNEGO_MAX_MECHS f s = s"

section \<open>Credentials\<close>

definition get_service_name :: "byte list" where
  "get_service_name = [0x63, 0x69, 0x66, 0x73]"

text \<open>Service name and host name of \<open>service[/host[@REALM]]\<close>, as long as the host name is qualified.\<close>

definition parse_service_full_name :: "krb5_lib \<Rightarrow> byte list option \<Rightarrow> errno + (byte list \<times> byte list)" where
  "parse_service_full_name lib full =
    (let (service, host) = (case full of
         None \<Rightarrow> (get_service_name, kl_host_name lib)
       | Some name \<Rightarrow> (case split_at 0x2F name of
           None \<Rightarrow> (name, kl_host_name lib)
         | Some (service, rest) \<Rightarrow> (case split_at 0x40 rest of
             None \<Rightarrow> (service, Some rest) | Some (host, _) \<Rightarrow> (service, Some host))))
     in case host of None \<Rightarrow> Inl EINVAL
        | Some host \<Rightarrow> if 0x2E \<in> set host then Inr (service, host) else Inl EINVAL)"

definition acquire_creds_from_keytab ::
    "krb5_lib \<Rightarrow> byte list option \<Rightarrow> byte list option \<Rightarrow> (spnego_state, nat \<times> nat) act" where
  "acquire_creds_from_keytab lib service_full_name keytab_name =
    (case kl_kt_open lib keytab_name of None \<Rightarrow> fail (Err EINVAL)
     | Some keytab \<Rightarrow> sq (acquire Keytab)
        (case parse_service_full_name lib service_full_name of
           Inl e \<Rightarrow> sq (release Keytab) (fail (Err EINVAL))
         | Inr (service, host) \<Rightarrow> sq (acquire Service_name) (sq (acquire Host_name)
            (case kl_sname_to_principal lib host service of
               None \<Rightarrow> sq (each release [Service_name, Host_name, Keytab]) (fail (Err EINVAL))
             | Some sprinc \<Rightarrow> sq (acquire Principal)
                (case kl_get_init_creds_keytab lib sprinc keytab of
                   None \<Rightarrow> sq (each release [Principal, Service_name, Host_name, Keytab]) (fail (Err EINVAL))
                 | Some creds \<Rightarrow> sq (acquire Creds) (sq (each release [Principal, Host_name, Service_name]) (ret (keytab, creds))))))))"

definition setup_krb5_ctx :: "krb5_conf \<Rightarrow> krb5_lib \<Rightarrow> spnego_mech \<Rightarrow> (spnego_state, unit) act" where
  "setup_krb5_ctx conf lib mech =
     bnd (reads (get_mech mech)) (\<lambda>r. case r of None \<Rightarrow> fail Fault
     | Some mc \<Rightarrow>
        if \<not> kc_krb5_support conf \<or> mc_private mc \<noteq> None then ret ()
        else if \<not> kl_init_context lib then fail (Err EINVAL)
        else sq (acquire Krb5_context)
          (bnd (catch_err (acquire_creds_from_keytab lib (mc_service_name mc) (mc_keytab_name mc)) (release Krb5_context)) (\<lambda>p.
           modify (set_mech mech (\<lambda>mc. mc\<lparr>mc_private := Some p\<rparr>)))))"

text \<open>\<open>setup_krb5\<close> and \<open>setup_mskrb5\<close>.\<close>

definition setup_mech :: "krb5_conf \<Rightarrow> krb5_lib \<Rightarrow> spnego_mech \<Rightarrow> (spnego_state, unit) act" where
  "setup_mech conf lib mech =
     sq (modify (set_mech mech (\<lambda>mc. mc\<lparr>mc_oid := spnego_mech_oid mech\<rparr>))) (setup_krb5_ctx conf lib mech)"

definition init_mech :: "krb5_conf \<Rightarrow> spnego_mech_ctx \<Rightarrow> spnego_mech_ctx" where
  "init_mech conf mc = mc\<lparr>mc_ops := True,
     mc_service_name := (if mc_service_name mc = None then kc_krb5_service_name conf else mc_service_name mc),
     mc_keytab_name := (if mc_keytab_name mc = None then kc_krb5_keytab_file conf else mc_keytab_name mc)\<rparr>"

text \<open>\<open>spnego_init\<close>; an error of a set-up aborts the process.\<close>

definition spnego_init :: "krb5_conf \<Rightarrow> krb5_lib \<Rightarrow> (spnego_state, unit) act" where
  "spnego_init conf lib =
     sq (modify (set_mech SPNEGO_MECH_MSKRB5 (init_mech conf)))
    (sq (modify (set_mech SPNEGO_MECH_KRB5 (init_mech conf)))
    (sq (setup_mech conf lib SPNEGO_MECH_MSKRB5) (setup_mech conf lib SPNEGO_MECH_KRB5)))"

definition cleanup_krb5 :: "spnego_mech \<Rightarrow> (spnego_state, unit) act" where
  "cleanup_krb5 mech =
     bnd (reads (get_mech mech)) (\<lambda>r. case r of None \<Rightarrow> fail Fault
     | Some mc \<Rightarrow>
        sq (if mc_private mc \<noteq> None then each release [Creds, Keytab, Krb5_context] else ret ())
           (modify (set_mech mech (\<lambda>mc. mc\<lparr>mc_private := None, mc_service_name := None, mc_keytab_name := None\<rparr>))))"

definition spnego_destroy :: "(spnego_state, unit) act" where
  "spnego_destroy =
     sq (bnd (reads (\<lambda>s. mc_ops (sn_mskrb5 s))) (\<lambda>ops. if ops then cleanup_krb5 SPNEGO_MECH_MSKRB5 else ret ()))
        (bnd (reads (\<lambda>s. mc_ops (sn_krb5 s))) (\<lambda>ops. if ops then cleanup_krb5 SPNEGO_MECH_KRB5 else ret ()))"

section \<open>Authentication\<close>

text \<open>From the client's name on: the output is built; an empty key cannot be allocated.\<close>

definition krb5_auth_out :: "u64 list \<Rightarrow> byte list \<Rightarrow> byte list \<Rightarrow> byte list \<Rightarrow> (spnego_state, ksmbd_spnego_auth_out) act" where
  "krb5_auth_out oid session_key ap_rep client_name =
     sq (acquire User_name) (sq (release Client_name)
     (if session_key = [] then sq (release User_name) (fail (Err ENOMEM))
      else sq (acquire Sess_key)
        (case encode_negTokenTarg ap_rep oid of
           Inl Fault \<Rightarrow> fail Fault
         | Inl (Err _) \<Rightarrow> sq (each release [User_name, Sess_key]) (fail (Err EINVAL))
         | Inr blob \<Rightarrow> sq (acquire Reply_blob)
             (ret \<lparr>ao_spnego_blob = blob, ao_sess_key = session_key, ao_user_name = client_name\<rparr>))))"

definition handle_krb5_authen :: "krb5_lib \<Rightarrow> spnego_mech_ctx \<Rightarrow> byte list \<Rightarrow> (spnego_state, ksmbd_spnego_auth_out) act" where
  "handle_krb5_authen lib mc in_blob =
    (case mc_private mc of None \<Rightarrow> fail (Err EINVAL)
     | Some (keytab, creds) \<Rightarrow>
        if \<not> kl_auth_con_init lib then fail (Err EINVAL)
        else sq (acquire Auth_context)
          (case kl_rd_req lib creds keytab in_blob of
             None \<Rightarrow> sq (release Auth_context) (fail (Err EINVAL))
           | Some auth \<Rightarrow> sq (acquire Ticket) (finally_release [Ticket, Auth_context]
          (case kl_auth_con_getrecvsubkey lib auth of None \<Rightarrow> fail (Err EINVAL)
           | Some session_key \<Rightarrow> sq (acquire Session_key) (finally_release [Session_key]
          (case kl_mk_rep lib auth of None \<Rightarrow> fail (Err EINVAL)
           | Some ap_rep \<Rightarrow> sq (acquire Ap_rep) (finally_release [Ap_rep]
          (case kl_auth_con_getauthenticator lib auth of None \<Rightarrow> fail (Err EINVAL)
           | Some authenti \<Rightarrow> sq (acquire Authenticator) (finally_release [Authenticator]
          (case kl_unparse_client lib authenti of None \<Rightarrow> fail (Err EINVAL)
           | Some client_name \<Rightarrow> sq (acquire Client_name)
               (krb5_auth_out (mc_oid mc) session_key ap_rep client_name)))))))))))"

definition spnego_handle_authen_request :: "krb5_lib \<Rightarrow> byte list \<Rightarrow> (spnego_state, ksmbd_spnego_auth_out) act" where
  "spnego_handle_authen_request lib spnego_blob =
    (case decode_negTokenInit spnego_blob of
       Inl Fault \<Rightarrow> fail Fault
     | Inl (Err _) \<Rightarrow> fail (Err EINVAL)
     | Inr (mech_type, mech_token) \<Rightarrow>
        bnd (reads (get_mech mech_type)) (\<lambda>r. case r of
          None \<Rightarrow> fail (Err ENOTSUP)
        | Some mc \<Rightarrow> or_else EPERM (handle_krb5_authen lib mc mech_token)))"

section \<open>What is handed out is given back\<close>

definition lib_ok :: "krb5_lib \<Rightarrow> bool" where
  "lib_ok lib \<longleftrightarrow> (\<forall>a r. kl_mk_rep lib a = Some r \<longrightarrow> length r < 2 ^ 31)"

definition mech_ok :: "spnego_mech \<Rightarrow> spnego_mech_ctx \<Rightarrow> bool" where
  "mech_ok mech mc \<longleftrightarrow> (mc_private mc \<noteq> None \<longrightarrow> mc_ops mc \<and> mc_oid mc = spnego_mech_oid mech)"

lemma release_apply: "release r s = (if r \<in> set (sn_live s) then (Inr (), s\<lparr>sn_live := remove1 r (sn_live s)\<rparr>) else (Inl Fault, s))"
  by (simp add: release_def)

lemma acquire_apply: "acquire r s = (Inr (), s\<lparr>sn_live := r # sn_live s\<rparr>)"
  by (simp add: acquire_def modify_def)

lemmas res_eval = release_apply acquire_apply sq_apply bnd_apply fail_def finally_release_def

lemma live_back [simp]: "s\<lparr>sn_live := sn_live s\<rparr> = s"
  by simp

lemma krb5_auth_out_eval:
  assumes "length ap_rep < 2 ^ 31"
  shows "krb5_auth_out (spnego_mech_oid mech) session_key ap_rep client_name (s\<lparr>sn_live := Client_name # L\<rparr>) =
    (if session_key = [] then (Inl (Err ENOMEM), s\<lparr>sn_live := L\<rparr>)
     else (Inr \<lparr>ao_spnego_blob = negTokenTarg_token (oid_octets (spnego_mech_oid mech)) ap_rep,
         ao_sess_key = session_key, ao_user_name = client_name\<rparr>, s\<lparr>sn_live := [Reply_blob, Sess_key, User_name] @ L\<rparr>))"
  by (simp add: krb5_auth_out_def encode_negTokenTarg_eq [OF assms] res_eval)

lemma handle_krb5_authen_live:
  assumes "mech_ok mech mc" and "lib_ok lib"
  shows "case handle_krb5_authen lib mc in_blob s of
     (Inr out, t) \<Rightarrow> t = s\<lparr>sn_live := [Reply_blob, Sess_key, User_name] @ sn_live s\<rparr>
   | (Inl (Err e), t) \<Rightarrow> t = s
   | (Inl Fault, t) \<Rightarrow> False"
  unfolding handle_krb5_authen_def using assms
  by (auto simp: res_eval krb5_auth_out_eval lib_ok_def mech_ok_def split: option.split)

text \<open>The mechanisms own a context, a keytab and credentials once they are set up; \<open>X\<close> is what callers hold.\<close>

definition mech_live :: "spnego_mech_ctx \<Rightarrow> krb5_res list" where
  "mech_live mc = (case mc_private mc of None \<Rightarrow> [] | Some _ \<Rightarrow> [Creds, Keytab, Krb5_context])"

definition spnego_inv :: "krb5_res multiset \<Rightarrow> spnego_state \<Rightarrow> bool" where
  "spnego_inv X s \<longleftrightarrow> mset (sn_live s) = X + mset (mech_live (sn_mskrb5 s)) + mset (mech_live (sn_krb5 s))
     \<and> mech_ok SPNEGO_MECH_MSKRB5 (sn_mskrb5 s) \<and> mech_ok SPNEGO_MECH_KRB5 (sn_krb5 s)"

lemma acquire_creds_live:
  "case acquire_creds_from_keytab lib sn kn s of
     (Inr p, t) \<Rightarrow> t = s\<lparr>sn_live := [Creds, Keytab] @ sn_live s\<rparr>
   | (Inl (Err e), t) \<Rightarrow> t = s
   | (Inl Fault, t) \<Rightarrow> False"
  unfolding acquire_creds_from_keytab_def
  by (auto simp: res_eval split: option.split sum.split)

lemma setup_krb5_ctx_live:
  assumes "get_mech mech s = Some mc"
  shows "case setup_krb5_ctx conf lib mech s of
     (Inr _, t) \<Rightarrow> t = s \<or> mc_private mc = None \<and> (\<exists>p. t = set_mech mech (\<lambda>mc. mc\<lparr>mc_private := Some p\<rparr>) (s\<lparr>sn_live := [Creds, Keytab, Krb5_context] @ sn_live s\<rparr>))
   | (Inl (Err e), t) \<Rightarrow> t = s
   | (Inl Fault, t) \<Rightarrow> False"
  using assms acquire_creds_live [where lib = lib and sn = "mc_service_name mc" and kn = "mc_keytab_name mc" and s = "s\<lparr>sn_live := Krb5_context # sn_live s\<rparr>"]
  unfolding setup_krb5_ctx_def
  by (cases "mc_private mc") (auto simp: res_eval catch_err_def modify_def split: option.split sum.splits prod.splits cerr.splits)

definition spnego_ready :: "krb5_res multiset \<Rightarrow> spnego_state \<Rightarrow> bool" where
  "spnego_ready X s \<longleftrightarrow> spnego_inv X s \<and> mc_ops (sn_mskrb5 s) \<and> mc_ops (sn_krb5 s)"

lemma setup_mech_inv:
  assumes "mech \<noteq> SPNEGO_MAX_MECHS"
  shows "valid (spnego_ready X) (setup_mech conf lib mech) (\<lambda>_ s. spnego_ready X s \<and> mc_oid (the (get_mech mech s)) = spnego_mech_oid mech) (spnego_ready X)"
proof (rule validI)
  fix s assume s: "spnego_ready X s"
  define t where "t = set_mech mech (\<lambda>mc. mc\<lparr>mc_oid := spnego_mech_oid mech\<rparr>) s"
  from assms obtain mc where mc: "get_mech mech t = Some mc" by (cases mech) auto
  have t: "spnego_ready X t \<and> mc_oid mc = spnego_mech_oid mech"
    using s assms mc by (cases mech) (auto simp: t_def spnego_ready_def spnego_inv_def mech_ok_def mech_live_def)
  have e: "setup_mech conf lib mech s = setup_krb5_ctx conf lib mech t"
    by (simp add: setup_mech_def sq_apply modify_def t_def)
  have g: "spnego_ready X (set_mech mech (\<lambda>mc. mc\<lparr>mc_private := Some p\<rparr>) (t\<lparr>sn_live := [Creds, Keytab, Krb5_context] @ sn_live t\<rparr>))
      \<and> mc_oid (the (get_mech mech (set_mech mech (\<lambda>mc. mc\<lparr>mc_private := Some p\<rparr>) (t\<lparr>sn_live := [Creds, Keytab, Krb5_context] @ sn_live t\<rparr>)))) = spnego_mech_oid mech"
    if "mc_private mc = None" for p
    using that t mc assms by (cases mech) (auto simp: spnego_ready_def spnego_inv_def mech_ok_def mech_live_def)
  show "case setup_mech conf lib mech s of
      (Inr x, t) \<Rightarrow> spnego_ready X t \<and> mc_oid (the (get_mech mech t)) = spnego_mech_oid mech | (Inl (Err e), t) \<Rightarrow> spnego_ready X t | (Inl Fault, t) \<Rightarrow> False"
  proof (cases "setup_krb5_ctx conf lib mech t")
    case (Pair r u)
    with setup_krb5_ctx_live [OF mc, where conf = conf and lib = lib] t mc g show ?thesis
      by (cases r) (auto simp: e split: cerr.splits)
  qed
qed

lemma each_release:
  "mset rs \<subseteq># mset (sn_live s) \<Longrightarrow> each release rs s = (Inr (), s\<lparr>sn_live := fold remove1 rs (sn_live s)\<rparr>)"
proof (induction rs arbitrary: s)
  case (Cons x rs)
  then have "x \<in> set (sn_live s)" by (metis insert_subset_eq_iff mset.simps(2) set_mset_mset)
  moreover from Cons.prems have "mset rs \<subseteq># mset (sn_live (s\<lparr>sn_live := remove1 x (sn_live s)\<rparr>))"
    by (simp add: insert_subset_eq_iff)
  ultimately show ?case using Cons.IH [of "s\<lparr>sn_live := remove1 x (sn_live s)\<rparr>"] by (simp add: res_eval)
qed simp

lemma mset_fold_remove1: "mset (fold remove1 rs xs) = mset xs - mset rs"
  by (induction rs arbitrary: xs) simp_all

lemma cleanup_krb5_inv:
  assumes "mech \<noteq> SPNEGO_MAX_MECHS" and s: "spnego_inv X s"
  shows "\<exists>t. cleanup_krb5 mech s = (Inr (), t) \<and> spnego_inv X t \<and> mech_live (the (get_mech mech t)) = []
    \<and> (\<forall>m. m \<noteq> mech \<longrightarrow> get_mech m t = get_mech m s)"
proof -
  define clear :: "spnego_mech_ctx \<Rightarrow> spnego_mech_ctx" where "clear = (\<lambda>mc. mc\<lparr>mc_private := None, mc_service_name := None, mc_keytab_name := None\<rparr>)"
  from assms obtain mc where mc: "get_mech mech s = Some mc" by (cases mech) auto
  have sub: "mset (mech_live mc) \<subseteq># mset (sn_live s)"
    using s mc assms(1) by (cases mech) (auto simp: spnego_inv_def)
  define t where "t = s\<lparr>sn_live := fold remove1 (mech_live mc) (sn_live s)\<rparr>"
  have "cleanup_krb5 mech s = (Inr (), set_mech mech clear t)"
    using mc each_release [OF sub] unfolding cleanup_krb5_def clear_def [symmetric]
    by (cases "mc_private mc") (simp_all add: bnd_apply sq_apply modify_def t_def mech_live_def)
  moreover have c: "mech_live (clear mc) = []" "mech_ok m (clear mc)" for m mc by (simp_all add: clear_def mech_live_def mech_ok_def)
  have "spnego_inv X (set_mech mech clear t) \<and> mech_live (the (get_mech mech (set_mech mech clear t))) = []"
    using s mc assms(1) by (cases mech) (auto simp: t_def spnego_inv_def mset_fold_remove1 c)
  moreover have "get_mech m (set_mech mech clear t) = get_mech m s" if "m \<noteq> mech" for m
    using that by (cases m; cases mech) (simp_all add: t_def)
  ultimately show ?thesis by blast
qed

lemma init_inv: "spnego_inv X s \<Longrightarrow> spnego_ready X (set_mech SPNEGO_MECH_KRB5 (init_mech conf) (set_mech SPNEGO_MECH_MSKRB5 (init_mech conf) s))"
  by (auto simp: spnego_ready_def spnego_inv_def init_mech_def mech_ok_def mech_live_def)

lemma spnego_init_inv: "valid (spnego_inv X) (spnego_init conf lib) (\<lambda>_. spnego_ready X) (spnego_ready X)"
proof -
  have m: "valid (spnego_inv X) (modify (\<lambda>s. set_mech SPNEGO_MECH_KRB5 (init_mech conf) (set_mech SPNEGO_MECH_MSKRB5 (init_mech conf) s)))
      (\<lambda>_. spnego_ready X) (spnego_ready X)" by (rule valid_modify) (rule init_inv)
  have s: "valid (spnego_ready X) (setup_mech conf lib mech) (\<lambda>_. spnego_ready X) (spnego_ready X)" if "mech \<noteq> SPNEGO_MAX_MECHS" for mech
    by (rule valid_post [OF setup_mech_inv [OF that]]) simp
  have "spnego_init conf lib = sq (modify (\<lambda>s. set_mech SPNEGO_MECH_KRB5 (init_mech conf) (set_mech SPNEGO_MECH_MSKRB5 (init_mech conf) s)))
      (sq (setup_mech conf lib SPNEGO_MECH_MSKRB5) (setup_mech conf lib SPNEGO_MECH_KRB5))"
    by (simp add: spnego_init_def sq_apply modify_def fun_eq_iff)
  then show ?thesis by (simp only:) (rule valid_sq [OF m valid_sq [OF s s]]; simp)
qed

lemma spnego_handle_inv:
  assumes "lib_ok lib" and "decode_negTokenInit blob \<noteq> Inl Fault"
  shows "valid (spnego_ready X) (spnego_handle_authen_request lib blob)
    (\<lambda>_. spnego_ready (X + {#Reply_blob, Sess_key, User_name#})) (spnego_ready X)"
proof (rule validI)
  fix s assume s: "spnego_ready X s"
  have l: "spnego_ready (X + {#Reply_blob, Sess_key, User_name#}) (s\<lparr>sn_live := [Reply_blob, Sess_key, User_name] @ sn_live s\<rparr>)"
    using s by (simp add: spnego_ready_def spnego_inv_def)
  have h: "case handle_krb5_authen lib mc tok s of (Inr out, t) \<Rightarrow> spnego_ready (X + {#Reply_blob, Sess_key, User_name#}) t
      | (Inl (Err e), t) \<Rightarrow> spnego_ready X t | (Inl Fault, t) \<Rightarrow> False" if "get_mech mech s = Some mc" for mech mc tok
  proof -
    have "mech_ok mech mc" using that s by (cases mech) (auto simp: spnego_ready_def spnego_inv_def)
    from handle_krb5_authen_live [OF this assms(1), where in_blob = tok and s = s] l s show ?thesis
      by (auto split: prod.splits sum.splits cerr.splits)
  qed
  show "case spnego_handle_authen_request lib blob s of (Inr out, t) \<Rightarrow> spnego_ready (X + {#Reply_blob, Sess_key, User_name#}) t
      | (Inl (Err e), t) \<Rightarrow> spnego_ready X t | (Inl Fault, t) \<Rightarrow> False"
  proof (cases "decode_negTokenInit blob")
    case (Inl e)
    with assms(2) s show ?thesis by (cases e) (simp_all add: spnego_handle_authen_request_def fail_def)
  next
    case (Inr p)
    then show ?thesis
      using s h [of "fst p" _ "snd p"]
      by (cases p; cases "get_mech (fst p) s")
        (auto simp: spnego_handle_authen_request_def bnd_apply fail_def or_else_def split: prod.splits sum.splits cerr.splits)
  qed
qed

lemma spnego_destroy_inv: "valid (spnego_ready X) spnego_destroy (\<lambda>_ s. mset (sn_live s) = X) (\<lambda>_. False)"
proof (rule validI)
  fix s assume s: "spnego_ready X s"
  obtain t where t: "cleanup_krb5 SPNEGO_MECH_MSKRB5 s = (Inr (), t)" "spnego_inv X t" "mech_live (sn_mskrb5 t) = []" "sn_krb5 t = sn_krb5 s"
    using cleanup_krb5_inv [of SPNEGO_MECH_MSKRB5 X s] s by (force simp: spnego_ready_def)
  obtain u where u: "cleanup_krb5 SPNEGO_MECH_KRB5 t = (Inr (), u)" "spnego_inv X u" "mech_live (sn_krb5 u) = []" "sn_mskrb5 u = sn_mskrb5 t"
    using cleanup_krb5_inv [of SPNEGO_MECH_KRB5 X t] t(2) by force
  show "case spnego_destroy s of (Inr x, t) \<Rightarrow> mset (sn_live t) = X | (Inl (Err e), t) \<Rightarrow> False | (Inl Fault, t) \<Rightarrow> False"
    using s t u by (simp add: spnego_destroy_def sq_apply bnd_apply spnego_ready_def spnego_inv_def)
qed

section \<open>Properties\<close>

text \<open>C15: a client that offers a Kerberos mechanism first is authenticated end to end.  The AP_REQ of the
  client's token, and nothing else of it, reaches the Kerberos library with the keytab and the credentials of the
  chosen mechanism; when the library accepts it, the result is the client's name without its realm, the sub-session
  key, and the AP_REP in a negTokenTarg for that mechanism; all other objects of the exchange are given back.\<close>

theorem spnego_authenticates:
  assumes "mech \<noteq> SPNEGO_MAX_MECHS" and "length others + length ap_req < 2 ^ 31"
    and "get_mech mech s = Some mc" and "mc_private mc = Some (keytab, creds)" and "mc_oid mc = spnego_mech_oid mech"
    and "kl_auth_con_init lib" and "kl_rd_req lib creds keytab ap_req = Some auth"
    and "kl_auth_con_getrecvsubkey lib auth = Some key" and "key \<noteq> []"
    and "kl_mk_rep lib auth = Some ap_rep" and "length ap_rep < 2 ^ 31"
    and "kl_auth_con_getauthenticator lib auth = Some authenti" and "kl_unparse_client lib authenti = Some name"
  shows "spnego_handle_authen_request lib (negTokenInit_token mech others ap_req) s =
    (Inr \<lparr>ao_spnego_blob = negTokenTarg_token (oid_octets (spnego_mech_oid mech)) ap_rep, ao_sess_key = key, ao_user_name = name\<rparr>,
     s\<lparr>sn_live := [Reply_blob, Sess_key, User_name] @ sn_live s\<rparr>)"
  using assms
  by (simp add: spnego_handle_authen_request_def negTokenInit_parse or_else_def handle_krb5_authen_def res_eval krb5_auth_out_eval)

definition krb5_sample :: krb5_lib where
  "krb5_sample = \<lparr>kl_host_name = Some [0x61, 0x2E, 0x62], kl_init_context = True, kl_kt_open = \<lambda>_. Some 1,
     kl_sname_to_principal = \<lambda>_ _. Some 2, kl_get_init_creds_keytab = \<lambda>_ _. Some 3, kl_auth_con_init = True,
     kl_rd_req = \<lambda>_ _ p. if p = [7] then Some 4 else None, kl_auth_con_getrecvsubkey = \<lambda>_. Some [9], kl_mk_rep = \<lambda>_. Some [8],
     kl_auth_con_getauthenticator = \<lambda>_. Some 5, kl_unparse_client = \<lambda>_. Some [0x61]\<rparr>"

definition spnego_sample :: spnego_state where
  "spnego_sample =
    (let mc = (\<lambda>m. \<lparr>mc_oid = spnego_mech_oid m, mc_private = Some (1, 3), mc_keytab_name = None, mc_service_name = None, mc_ops = True\<rparr>)
     in \<lparr>sn_mskrb5 = mc SPNEGO_MECH_MSKRB5, sn_krb5 = mc SPNEGO_MECH_KRB5, sn_live = mech_live (mc SPNEGO_MECH_MSKRB5) @ mech_live (mc SPNEGO_MECH_KRB5)\<rparr>)"

theorem spnego_authenticates_witness:
  "spnego_handle_authen_request krb5_sample (negTokenInit_token SPNEGO_MECH_KRB5 [] [7]) spnego_sample =
    (Inr \<lparr>ao_spnego_blob = negTokenTarg_token (oid_octets (spnego_mech_oid SPNEGO_MECH_KRB5)) [8], ao_sess_key = [9], ao_user_name = [0x61]\<rparr>,
     spnego_sample\<lparr>sn_live := [Reply_blob, Sess_key, User_name] @ sn_live spnego_sample\<rparr>)"
  by (rule spnego_authenticates [where auth = 4 and authenti = 5 and keytab = 1 and creds = 3 and mc = "sn_krb5 spnego_sample"])
    (simp_all add: krb5_sample_def spnego_sample_def)



end
