(* ===== verification/Ndr_Emit.thy ===== *)
theory Ndr_Emit
  imports Ndr
begin

text \<open>
  The exact output of a writer.  \<open>ndr_emits k x m bs\<close> says what \<open>m\<close> does at an offset that is
  \<open>k\<close> modulo four: when the bytes \<open>bs\<close> fit behind the cursor it puts them there, moves behind
  them and returns \<open>x\<close>; otherwise it returns \<open>ENOMEM\<close> and keeps the invariant.  The bytes may
  depend on the byte order.
\<close>

definition ndr_emits :: "nat \<Rightarrow> 'v \<Rightarrow> ('x ksmbd_dcerpc_scheme, 'v) act \<Rightarrow> (bool \<Rightarrow> byte list) \<Rightarrow> bool" where
  "ndr_emits k x m bs \<longleftrightarrow> (\<forall>d. ndr_inv d \<longrightarrow> off d \<le> psz d \<longrightarrow> off d mod 4 = k mod 4 \<longrightarrow>
     (let b = bs (le_mode d) in
      if off d + length b \<le> psz d then m d = (Inr x, seek (off d + length b) (patch (off d) b d))
      else \<exists>t. m d = (Inl (Err ENOMEM), t) \<and> ndr_inv t))"

lemma ndr_emits_fit:
  assumes "ndr_emits k x m bs" and "ndr_inv d" and "off d mod 4 = k mod 4"
    and "off d + length (bs (le_mode d)) \<le> psz d"
  shows "m d = (Inr x, seek (off d + length (bs (le_mode d))) (patch (off d) (bs (le_mode d)) d))"
  using assms(2-) spec [OF assms(1) [unfolded ndr_emits_def], of d] by (simp add: Let_def)

lemma ndr_emits_full:
  assumes "ndr_emits k x m bs" and "ndr_inv d" and "off d mod 4 = k mod 4" and "off d \<le> psz d"
    and "\<not> off d + length (bs (le_mode d)) \<le> psz d"
  obtains t where "m d = (Inl (Err ENOMEM), t)" and "ndr_inv t"
  using assms(2-) spec [OF assms(1) [unfolded ndr_emits_def], of d] that by (auto simp: Let_def)

lemma overwrite_append:
  "i \<le> length xs \<Longrightarrow> j = i + length a \<Longrightarrow> overwrite j b (overwrite i a xs) = overwrite i (a @ b) xs"
  by (simp add: overwrite_def ac_simps)

lemma overwrite_prepend:
  "i \<le> length xs \<Longrightarrow> j = i + length s \<Longrightarrow> j \<le> length xs \<Longrightarrow>
   overwrite i s (overwrite j b xs) = overwrite i (s @ b) xs"
  by (simp add: overwrite_def add.assoc min_def)

lemma patch_append:
  "i \<le> length (dce_payload d) \<Longrightarrow> j = i + length a \<Longrightarrow> patch j b (patch i a d) = patch i (a @ b) d"
  by (simp add: patch_def overwrite_append)

lemma patch_seek: "patch i a (seek k d) = seek k (patch i a d)"
  by (simp add: patch_def seek_def)

lemma ndr_emits_ret: "ndr_emits k x (ret x) (\<lambda>_. [])"
  by (simp add: ndr_emits_def ret_def seek_def patch_def overwrite_def)

lemma ndr_emits_int:
  assumes n: "n = 1 \<or> n = 2 \<or> n = 4" and k: "n dvd k"
  shows "ndr_emits k () (or_else ENOMEM (ndr_write_int n v)) (\<lambda>le. enc_int le n v)"
  unfolding ndr_emits_def
proof (intro allI impI)
  fix d :: "'a ksmbd_dcerpc_scheme"
  assume d: "ndr_inv d" and o: "off d \<le> psz d" "off d mod 4 = k mod 4"
  have w: "ndr_width n" and "n dvd 4"
    using n by auto
  then have "n dvd off d"
    using k o(2) by (metis dvd_mod_iff)
  then have "up n (off d) = off d"
    using w by (simp add: up_dvd)
  then show "let b = enc_int (le_mode d) n v in
     if off d + length b \<le> psz d then or_else ENOMEM (ndr_write_int n v) d = (Inr (), seek (off d + length b) (patch (off d) b d))
     else \<exists>t. or_else ENOMEM (ndr_write_int n v) d = (Inl (Err ENOMEM), t) \<and> ndr_inv t"
    using ndr_inv_moved(1) [OF d w] by (simp add: Let_def or_else_def ndr_write_int_eq [OF d w])
qed

lemma ndr_emits_bnd:
  assumes m: "ndr_emits k x m a" and l: "\<And>le. length (a le) = l" and f: "ndr_emits (k + l) y (f x) b"
  shows "ndr_emits k y (bnd m f) (\<lambda>le. a le @ b le)"
  unfolding ndr_emits_def
proof (intro allI impI)
  fix d :: "'b ksmbd_dcerpc_scheme"
  assume d: "ndr_inv d" and o: "off d \<le> psz d" "off d mod 4 = k mod 4"
  let ?a = "a (le_mode d)" and ?b = "b (le_mode d)"
  show "let b = ?a @ ?b in
     if off d + length b \<le> psz d then bnd m f d = (Inr y, seek (off d + length b) (patch (off d) b d))
     else \<exists>t. bnd m f d = (Inl (Err ENOMEM), t) \<and> ndr_inv t"
  proof (cases "off d + l \<le> psz d")
    case True
    let ?d = "seek (off d + l) (patch (off d) ?a d)"
    have e: "m d = (Inr x, ?d)"
      using ndr_emits_fit [OF m d o(2)] True l by simp
    have d': "ndr_inv ?d"
      using ndr_inv_moved(3) [OF d _ True, of _ ?a] l by simp
    have "psz d < 2 ^ 64"
      using d by (simp add: ndr_inv_def)
    then have o': "off ?d = off d + l"
      using True by simp
    have k': "(off d + l) mod 4 = (k + l) mod 4"
      using o(2) by (metis mod_add_left_eq)
    have len: "off d \<le> length (dce_payload d)"
      using o d by (simp add: ndr_inv_def)
    show ?thesis
    proof (cases "off d + l + length ?b \<le> psz d")
      case True
      have p: "patch (off d + l) ?b (patch (off d) ?a d) = patch (off d) (?a @ ?b) d"
        using len l by (intro patch_append) auto
      have "f x ?d = (Inr y, seek (off d + l + length ?b) (patch (off d) (?a @ ?b) d))"
        using ndr_emits_fit [OF f d'] o' k' True by (simp add: patch_seek p)
      then show ?thesis
        using e True l by (simp add: Let_def add.assoc)
    next
      case False
      then obtain t where "f x ?d = (Inl (Err ENOMEM), t)" and "ndr_inv t"
        using ndr_emits_full [OF f d'] o' k' \<open>off d + l \<le> psz d\<close> by auto
      then show ?thesis
        using e False l by (simp add: Let_def add.assoc)
    qed
  next
    case False
    then obtain t where "m d = (Inl (Err ENOMEM), t)" and "ndr_inv t"
      using ndr_emits_full [OF m d o(2,1)] l by auto
    then show ?thesis
      using False l by (simp add: Let_def)
  qed
qed

lemma ndr_emits_sq:
  "ndr_emits k x m a \<Longrightarrow> (\<And>le. length (a le) = l) \<Longrightarrow> ndr_emits (k + l) y n b \<Longrightarrow>
   ndr_emits k y (sq m n) (\<lambda>le. a le @ b le)"
  unfolding sq_def by (rule ndr_emits_bnd)

lemma ndr_emits_mod: "ndr_emits k x m bs \<Longrightarrow> k mod 4 = j mod 4 \<Longrightarrow> ndr_emits j x m bs"
  by (simp add: ndr_emits_def)

lemma ndr_emits_or_else: "ndr_emits k x m bs \<Longrightarrow> ndr_emits k x (or_else ENOMEM m) bs"
  unfolding ndr_emits_def Let_def by (simp add: or_else_def split: if_splits) force

lemma ndr_emits_each:
  assumes "\<And>x j. w dvd j \<Longrightarrow> ndr_emits j () (f x) (b x)" and "\<And>x le. length (b x le) = w" and "w dvd k"
  shows "ndr_emits k () (each f xs) (\<lambda>le. concat (map (\<lambda>x. b x le) xs))"
  using assms(3)
proof (induction xs arbitrary: k)
  case Nil
  show ?case by (simp add: ndr_emits_ret)
next
  case (Cons x xs)
  then show ?case
    by (simp add: ndr_emits_sq [OF assms(1) assms(2)])
qed

text \<open>The byte images of the integers a writer puts.\<close>

definition e8 :: "u8 \<Rightarrow> bool \<Rightarrow> byte list" where "e8 v = (\<lambda>le. [v])"
definition e16 :: "u16 \<Rightarrow> bool \<Rightarrow> byte list" where "e16 v = (\<lambda>le. enc_int le 2 (unat v))"
definition e32 :: "u32 \<Rightarrow> bool \<Rightarrow> byte list" where "e32 v = (\<lambda>le. enc_int le 4 (unat v))"

lemma e_length [simp]: "length (e8 a le) = 1" "length (e16 b le) = 2" "length (e32 c le) = 4"
  by (simp_all add: e8_def e16_def e32_def)

lemma enc_int_1: "enc_int le 1 (unat (v :: u8)) = [v]"
  using unsigned_less [of v, where ?'a = nat] by (simp add: enc_int_def be_bytes_def)

lemma ndr_emits_ints:
  "ndr_emits k () (or_else ENOMEM (ndr_write_int8 a)) (e8 a)"
  "2 dvd k \<Longrightarrow> ndr_emits k () (or_else ENOMEM (ndr_write_int16 b)) (e16 b)"
  "4 dvd k \<Longrightarrow> ndr_emits k () (or_else ENOMEM (ndr_write_int32 c)) (e32 c)"
  using ndr_emits_int [of 1 k "unat a"] ndr_emits_int [of 2 k "unat b"] ndr_emits_int [of 4 k "unat c"]
  by (simp_all add: ndr_write_int8_def ndr_write_int16_def ndr_write_int32_def e8_def e16_def e32_def
      enc_int_1 [unfolded One_nat_def] cong: if_cong)

end
