(* ===== verification/Smbacl.thy ===== *)
theory Smbacl
  imports Ndr_Emit Config_Text
begin

text \<open>
  Security identifiers and descriptors, \<open>src/mountd/smbacl.c\<close>: reading, writing, copying and
  comparing a SID, its text, the domain name it belongs to, and the security descriptor with four
  access control entries that the SAMR service returns.  \<open>global_conf.gen_subauth\<close> is an
  argument; \<open>gethostname\<close> is a parameter, \<open>None\<close> when it fails; \<open>snprintf\<close> and
  \<open>g_ascii_strup\<close> are written out.
\<close>

section \<open>Security identifiers\<close>

definition NUM_AUTHS :: nat where "NUM_AUTHS = 6"
definition SID_MAX_SUB_AUTHORITIES :: nat where "SID_MAX_SUB_AUTHORITIES = 15"
definition SMB_ACCESS_ALLOWED :: u8 where "SMB_ACCESS_ALLOWED = 0"
definition SMB_DACL_PRESENT :: u16 where "SMB_DACL_PRESENT = 0x0004"
definition SMB_SELF_RELATIVE :: u16 where "SMB_SELF_RELATIVE = 0x8000"
definition SMB_SID_TYPE_USER :: int where "SMB_SID_TYPE_USER = 1"
definition SMB_SID_TYPE_GROUP :: int where "SMB_SID_TYPE_GROUP = 2"
definition SMB_SID_TYPE_UNKNOWN :: int where "SMB_SID_TYPE_UNKNOWN = 8"
definition DOMAIN_STR_SIZE :: nat where "DOMAIN_STR_SIZE = 257"

lemmas sid_consts = NUM_AUTHS_def SID_MAX_SUB_AUTHORITIES_def

record smb_sid =
  sid_revision :: u8
  sid_num_subauth :: u8
  sid_authority :: "u8 list"
  sid_sub_auth :: "u32 list"

definition sid_const :: "u8 \<Rightarrow> u32 \<Rightarrow> smb_sid" where
  "sid_const auth5 sub0 = \<lparr>sid_revision = 1, sid_num_subauth = 1,
     sid_authority = [0, 0, 0, 0, 0, auth5], sid_sub_auth = sub0 # replicate 14 0\<rparr>"

definition sid_domain :: smb_sid where "sid_domain = sid_const 5 21"
definition sid_everyone :: smb_sid where "sid_everyone = sid_const 1 0"
definition sid_unix_users :: smb_sid where "sid_unix_users = sid_const 22 1"
definition sid_unix_groups :: smb_sid where "sid_unix_groups = sid_const 22 2"
definition sid_local_group :: smb_sid where "sid_local_group = sid_const 5 32"

lemmas sid_const_defs = sid_const_def sid_domain_def sid_everyone_def sid_unix_users_def
  sid_unix_groups_def sid_local_group_def

text \<open>The reader fills the memory of the caller; the sub-authorities behind the last one read keep
  what the memory held.\<close>

definition smb_read_sid :: "smb_sid \<Rightarrow> ('x ksmbd_dcerpc_scheme, smb_sid) act" where
  "smb_read_sid sid =
     bnd (or_else EINVAL ndr_read_int8) (\<lambda>revision.
     bnd (or_else EINVAL ndr_read_int8) (\<lambda>num_subauth.
     if num_subauth = 0 \<or> unat num_subauth > SID_MAX_SUB_AUTHORITIES then fail (Err EINVAL)
     else
     bnd (times NUM_AUTHS (or_else EINVAL ndr_read_int8)) (\<lambda>authority.
     bnd (times (unat num_subauth) (or_else EINVAL ndr_read_int32)) (\<lambda>sub_auth.
     ret \<lparr>sid_revision = revision, sid_num_subauth = num_subauth, sid_authority = authority,
          sid_sub_auth = overwrite 0 sub_auth (sid_sub_auth sid)\<rparr>))))"

definition smb_write_sid :: "smb_sid \<Rightarrow> ('x ksmbd_dcerpc_scheme, unit) act" where
  "smb_write_sid src =
    (if unat (sid_num_subauth src) > SID_MAX_SUB_AUTHORITIES then fail (Err EINVAL)
     else
     sq (or_else ENOMEM (ndr_write_int8 (sid_revision src)))
    (sq (or_else ENOMEM (ndr_write_int8 (sid_num_subauth src)))
    (sq (each (\<lambda>a. or_else ENOMEM (ndr_write_int8 a)) (take NUM_AUTHS (sid_authority src)))
        (each (\<lambda>a. or_else ENOMEM (ndr_write_int32 a))
           (take (unat (sid_num_subauth src)) (sid_sub_auth src))))))"

definition smb_copy_sid :: "smb_sid \<Rightarrow> smb_sid \<Rightarrow> smb_sid" where
  "smb_copy_sid dst src =
    (if unat (sid_num_subauth src) > SID_MAX_SUB_AUTHORITIES then dst
     else \<lparr>sid_revision = sid_revision src, sid_num_subauth = sid_num_subauth src,
       sid_authority = overwrite 0 (take NUM_AUTHS (sid_authority src)) (sid_authority dst),
       sid_sub_auth = overwrite 0 (take (unat (sid_num_subauth src)) (sid_sub_auth src)) (sid_sub_auth dst)\<rparr>)"

definition smb_init_domain_sid :: "u32 list \<Rightarrow> smb_sid" where
  "smb_init_domain_sid subauth = \<lparr>sid_revision = 1, sid_num_subauth = 4,
     sid_authority = [0, 0, 0, 0, 0, 5],
     sid_sub_auth = 21 # map (\<lambda>i. subauth ! i) [0..<3] @ replicate 11 0\<rparr>"

text \<open>\<open>first_diff\<close> is the loop that returns at the first position where two arrays differ.\<close>

fun first_diff :: "('a::linorder) list \<Rightarrow> 'a list \<Rightarrow> int" where
  "first_diff (a # as) (b # bs) = (if a \<noteq> b then (if a > b then 1 else - 1) else first_diff as bs)"
| "first_diff _ _ = 0"

definition smb_compare_sids :: "smb_sid option \<Rightarrow> smb_sid option \<Rightarrow> int" where
  "smb_compare_sids ct cw = (case (ct, cw) of
      (Some ctsid, Some cwsid) \<Rightarrow>
        if sid_revision ctsid \<noteq> sid_revision cwsid
        then (if sid_revision ctsid > sid_revision cwsid then 1 else - 1)
        else let d = first_diff (take NUM_AUTHS (sid_authority ctsid)) (take NUM_AUTHS (sid_authority cwsid))
        in if d \<noteq> 0 then d
        else let num_subauth = min (unat (sid_num_subauth ctsid)) (unat (sid_num_subauth cwsid))
        in first_diff (take num_subauth (sid_sub_auth ctsid)) (take num_subauth (sid_sub_auth cwsid))
    | _ \<Rightarrow> 1)"

section \<open>Names\<close>

text \<open>\<open>snprintf\<close> into a buffer of \<open>n\<close> bytes: what the buffer then holds as a string, and the
  length of the whole text, which is what it returns.\<close>

definition snprintf :: "nat \<Rightarrow> bytes \<Rightarrow> bytes \<times> nat" where
  "snprintf n text = (take (n - 1) text, length text)"

fun sid_string_from :: "nat \<Rightarrow> bytes \<Rightarrow> u32 list \<Rightarrow> cerr + bytes" where
  "sid_string_from domain_len domain [] = Inr domain"
| "sid_string_from domain_len domain (s # ss) =
    (let piece = 0x2D # decimal (unat s) in
     if length domain + length piece \<ge> domain_len then Inl (Err ENOMEM)
     else sid_string_from domain_len (domain @ piece) ss)"

definition smb_sid_to_string :: "nat \<Rightarrow> smb_sid \<Rightarrow> cerr + bytes" where
  "smb_sid_to_string domain_len sid =
    (let head = [0x53, 0x2D] @ decimal (unat (sid_revision sid)) @ [0x2D] @ decimal (unat (sid_authority sid ! 5)) in
     if length head \<ge> domain_len then Inl (Err ENOMEM)
     else sid_string_from domain_len head (take (unat (sid_num_subauth sid)) (sid_sub_auth sid)))"

definition ascii_upper :: "byte \<Rightarrow> byte" where
  "ascii_upper b = (if 0x61 \<le> b \<and> b \<le> 0x7A then b - 0x20 else b)"

definition Unix_User :: bytes where "Unix_User = [0x55, 0x6E, 0x69, 0x78, 0x20, 0x55, 0x73, 0x65, 0x72]"
definition Unix_Group :: bytes where "Unix_Group = [0x55, 0x6E, 0x69, 0x78, 0x20, 0x47, 0x72, 0x6F, 0x75, 0x70]"

text \<open>
  The state is what the caller passes by reference: the domain buffer of \<open>domain_len\<close> bytes and
  the type.  \<open>put_domain\<close> is \<open>snprintf\<close> with its check and the assignment of the type.
\<close>

definition put_domain :: "nat \<Rightarrow> bytes \<Rightarrow> int \<Rightarrow> (bytes \<times> int, nat) act" where
  "put_domain domain_len text type =
     sq (modify (\<lambda>(_, t). (fst (snprintf domain_len text), t)))
    (if snd (snprintf domain_len text) \<ge> domain_len then fail (Err ENOMEM)
     else sq (modify (\<lambda>(d, _). (d, type))) (ret (snd (snprintf domain_len text))))"

definition set_domain_name :: "u32 list \<Rightarrow> bytes option \<Rightarrow> smb_sid \<Rightarrow> nat \<Rightarrow> (bytes \<times> int, nat) act" where
  "set_domain_name subauth gethostname sid domain_len =
    (if smb_compare_sids (Some sid) (Some sid_domain) = 0 \<and> slice 1 3 (sid_sub_auth sid) = subauth then
       (case gethostname of None \<Rightarrow> fail (Err ENOMEM)
        | Some domain_string \<Rightarrow> put_domain domain_len (map ascii_upper domain_string) SMB_SID_TYPE_USER)
     else if smb_compare_sids (Some sid) (Some sid_unix_users) = 0 then
       put_domain domain_len Unix_User SMB_SID_TYPE_USER
     else if smb_compare_sids (Some sid) (Some sid_unix_groups) = 0 then
       put_domain domain_len Unix_Group SMB_SID_TYPE_GROUP
     else case smb_sid_to_string DOMAIN_STR_SIZE sid of
         Inl e \<Rightarrow> fail e
       | Inr domain_string \<Rightarrow>
           if length domain_string > domain_len then fail (Err ENOMEM)
           else sq (put_domain domain_len (map ascii_upper domain_string) SMB_SID_TYPE_UNKNOWN)
                   (fail (Err ENOENT)))"

section \<open>Security descriptors\<close>

text \<open>\<open>sizeof(struct smb_ntsd)\<close> and \<open>sizeof(struct smb_acl)\<close>.\<close>

definition sizeof_ntsd :: nat where "sizeof_ntsd = 20"
definition sizeof_acl :: nat where "sizeof_acl = 8"
definition KSMBD_NUM_DEFAULT_ACES :: u32 where "KSMBD_NUM_DEFAULT_ACES = 4"

definition sid_push :: "u32 \<Rightarrow> smb_sid \<Rightarrow> smb_sid" where
  "sid_push rid sid = sid\<lparr>sid_sub_auth := (sid_sub_auth sid)[unat (sid_num_subauth sid) := rid],
     sid_num_subauth := sid_num_subauth sid + 1\<rparr>"

definition smb_set_ace :: "u32 \<Rightarrow> u32 \<Rightarrow> smb_sid \<Rightarrow> ('x ksmbd_dcerpc_scheme, nat) act" where
  "smb_set_ace access_req rid rsid =
    (let n = 1 + 1 + 2 + 4 + 1 + 1 + 6 + unat (sid_num_subauth rsid) * 4 + (if rid \<noteq> 0 then 4 else 0) in
     sq (or_else ENOMEM (ndr_write_int8 SMB_ACCESS_ALLOWED))
    (sq (or_else ENOMEM (ndr_write_int8 0))
    (sq (or_else ENOMEM (ndr_write_int16 (word_of_nat n)))
    (sq (or_else ENOMEM (ndr_write_int32 access_req))
    (if rid \<noteq> 0 \<and> unat (sid_num_subauth rsid) \<ge> SID_MAX_SUB_AUTHORITIES then fail (Err EINVAL)
     else sq (or_else ENOMEM (smb_write_sid (if rid \<noteq> 0 then sid_push rid rsid else rsid)))
             (ret n))))))"

definition owner_domain :: "u32 list \<Rightarrow> smb_sid" where
  "owner_domain subauth = foldl (\<lambda>sid i. sid\<lparr>sid_sub_auth := (sid_sub_auth sid)[i + 1 := subauth ! i],
     sid_num_subauth := sid_num_subauth sid + 1\<rparr>) sid_domain [0..<3]"

definition set_dacl :: "u32 list \<Rightarrow> u32 \<Rightarrow> ('x ksmbd_dcerpc_scheme, nat) act" where
  "set_dacl subauth rid =
     bnd (smb_set_ace 0x0002035b 0 sid_everyone) (\<lambda>a.
     bnd (smb_set_ace 0x000f07ff 544 sid_local_group) (\<lambda>b.
     bnd (smb_set_ace 0x000f07ff 548 sid_local_group) (\<lambda>c.
     if unat (sid_num_subauth sid_domain) + 3 > SID_MAX_SUB_AUTHORITIES then fail (Err EINVAL)
     else bnd (smb_set_ace 0x00020044 rid (owner_domain subauth)) (\<lambda>d. ret (a + b + c + d)))))"

text \<open>An \<open>int\<close> that holds the offset, and its conversion back.\<close>

definition int_offset :: "u64 \<Rightarrow> u32" where "int_offset o64 = ucast o64"

definition set_offset :: "u32 \<Rightarrow> ('x ksmbd_dcerpc_scheme, unit) act" where
  "set_offset l = modify (\<lambda>d. d\<lparr>dce_offset := scast l\<rparr>)"

definition build_sec_desc :: "u32 list \<Rightarrow> u32 \<Rightarrow> ('x ksmbd_dcerpc_scheme, u32) act" where
  "build_sec_desc subauth rid =
     sq (or_else ENOMEM (ndr_write_int16 1))
    (sq (or_else ENOMEM (ndr_write_int16 (SMB_SELF_RELATIVE OR SMB_DACL_PRESENT)))
    (sq (or_else ENOMEM (ndr_write_int32 0))
    (sq (or_else ENOMEM (ndr_write_int32 0))
    (sq (or_else ENOMEM (ndr_write_int32 0))
    (sq (or_else ENOMEM (ndr_write_int32 (word_of_nat sizeof_ntsd)))
    (sq (or_else ENOMEM (ndr_write_int16 2))
    (bnd (reads (\<lambda>d. int_offset (dce_offset d))) (\<lambda>acl_size_offset.
     sq (dce_advance 2)
    (sq (or_else ENOMEM (ndr_write_int32 KSMBD_NUM_DEFAULT_ACES))
    (bnd (or_else ENOMEM (set_dacl subauth rid)) (\<lambda>dacl.
     let acl_size = dacl + sizeof_acl in
     bnd (reads (\<lambda>d. int_offset (dce_offset d))) (\<lambda>l_offset.
     sq (set_offset acl_size_offset)
    (sq (or_else ENOMEM (ndr_write_int16 (word_of_nat acl_size)))
    (sq (set_offset l_offset)
        (ret (word_of_nat (sizeof_ntsd + acl_size)))))))))))))))))"

section \<open>Reading back, comparing and printing a SID\<close>

definition sid_ok :: "smb_sid \<Rightarrow> bool" where
  "sid_ok sid \<longleftrightarrow> length (sid_authority sid) = NUM_AUTHS \<and> length (sid_sub_auth sid) = SID_MAX_SUB_AUTHORITIES
     \<and> 0 < unat (sid_num_subauth sid) \<and> unat (sid_num_subauth sid) \<le> SID_MAX_SUB_AUTHORITIES"

text \<open>Two SIDs that agree behind their last sub-authority.\<close>

definition sid_same_tail :: "smb_sid \<Rightarrow> smb_sid \<Rightarrow> bool" where
  "sid_same_tail sid0 sid \<longleftrightarrow> drop (unat (sid_num_subauth sid)) (sid_sub_auth sid) =
     drop (unat (sid_num_subauth sid)) (sid_sub_auth sid0)"

lemma codec_sid_body:
  "ndr_codec (\<lambda>(au, su). sq (each (\<lambda>a. or_else ENOMEM (ndr_write_int8 a)) au)
       (each (\<lambda>a. or_else ENOMEM (ndr_write_int32 a)) su))
     (bnd (times NUM_AUTHS (or_else EINVAL ndr_read_int8)) (\<lambda>au.
        bnd (times n (or_else EINVAL ndr_read_int32)) (\<lambda>su. ret (au, su))))
     (\<lambda>(au, su). (length au = NUM_AUTHS \<and> list_all (\<lambda>_. True) au) \<and> length su = n \<and> list_all (\<lambda>_. True) su)"
  by (intro codec_dep codec_times codec_or_put codec_or_get i8.ndr_codec_axioms i32.ndr_codec_axioms ndr_safe)

lemma codec_sid:
  assumes s0: "length (sid_sub_auth sid0) = SID_MAX_SUB_AUTHORITIES"
  shows "ndr_codec smb_write_sid (smb_read_sid sid0) (\<lambda>sid. sid_ok sid \<and> sid_same_tail sid0 sid)"
proof -
  let ?bad = "\<lambda>n :: u8. n = 0 \<or> unat n > SID_MAX_SUB_AUTHORITIES"
  let ?r8 = "or_else EINVAL ndr_read_int8" and ?w8 = "\<lambda>a. or_else ENOMEM (ndr_write_int8 a)"
  let ?w32 = "\<lambda>a. or_else ENOMEM (ndr_write_int32 a)" and ?r32 = "or_else EINVAL ndr_read_int32"
  let ?body = "\<lambda>n :: u8. bnd (times NUM_AUTHS ?r8) (\<lambda>au. bnd (times (unat n) ?r32) (\<lambda>su. ret (au, su)))"
  have c8: "ndr_codec ?w8 ?r8 (\<lambda>_. True)"
    by (intro codec_or_put codec_or_get i8.ndr_codec_axioms)
  then have cn: "ndr_codec ?w8 (bnd ?r8 (\<lambda>n. if ?bad n then fail (Err EINVAL) else ret n)) (\<lambda>n. \<not> ?bad n)"
    by (rule codec_check) simp
  have "ndr_codec (\<lambda>(n, au, su). sq (?w8 n) (sq (each ?w8 au) (each ?w32 su)))
     (bnd (bnd ?r8 (\<lambda>n. if ?bad n then fail (Err EINVAL) else ret n)) (\<lambda>n. bnd (?body n) (\<lambda>b. ret (n, b))))
     (\<lambda>(n, au, su). \<not> ?bad n \<and> length au = NUM_AUTHS \<and> length su = unat n)"
    by (rule codec_cong [OF codec_dep [OF cn codec_sid_body]])
       (auto simp: list_all_iff intro!: ndr_safe)
  from codec_dep [OF c8 this]
  have "ndr_codec (\<lambda>(r, n, au, su). sq (?w8 r) (sq (?w8 n) (sq (each ?w8 au) (each ?w32 su))))
     (bnd ?r8 (\<lambda>r. bnd (bnd (bnd ?r8 (\<lambda>n. if ?bad n then fail (Err EINVAL) else ret n)) (\<lambda>n. bnd (?body n) (\<lambda>b. ret (n, b))))
       (\<lambda>b. ret (r, b))))
     (\<lambda>(r, n, au, su). \<not> ?bad n \<and> length au = NUM_AUTHS \<and> length su = unat n)"
    by (rule codec_cong) (auto intro!: ndr_safe)
  from codec_map [OF this, of "\<lambda>sid. sid_ok sid \<and> sid_same_tail sid0 sid"
    "\<lambda>sid. (sid_revision sid, sid_num_subauth sid, sid_authority sid, take (unat (sid_num_subauth sid)) (sid_sub_auth sid))"
    "\<lambda>(r, n, au, su). \<lparr>sid_revision = r, sid_num_subauth = n, sid_authority = au, sid_sub_auth = overwrite 0 su (sid_sub_auth sid0)\<rparr>"]
  show ?thesis
  proof (rule codec_cong, goal_cases)
    case (1 v)
    then have "take (unat (sid_num_subauth v)) (sid_sub_auth v) @ drop (unat (sid_num_subauth v)) (sid_sub_auth sid0) = sid_sub_auth v"
      by (metis append_take_drop_id sid_same_tail_def)
    with 1 show ?case
      by (auto simp: sid_ok_def overwrite_def unat_eq_zero min_def)
  next
    case (2 v)
    then show ?case
      by (auto simp: sid_ok_def smb_write_sid_def)
  next
    case 3
    show ?case
      by (simp add: smb_read_sid_def bnd_assoc bnd_if cong: if_cong)
  qed
qed

lemma first_diff_zero: "length as = length bs \<Longrightarrow> first_diff as bs = 0 \<longleftrightarrow> as = bs"
  by (induction as bs rule: first_diff.induct) auto

lemma first_diff_sym: "first_diff as bs = - first_diff bs as"
  by (induction as bs rule: first_diff.induct) auto

lemma decimal_length: "n < 10 ^ k \<Longrightarrow> 0 < k \<Longrightarrow> length (decimal n) \<le> k"
proof (induction k arbitrary: n)
  case 0
  then show ?case by simp
next
  case (Suc k)
  show ?case
  proof (cases "n < 10")
    case True
    then show ?thesis by (simp add: decimal.simps [of n])
  next
    case False
    with Suc have "k \<noteq> 0" and "n div 10 < 10 ^ k"
      by (auto intro: ccontr simp: less_mult_imp_div_less)
    with Suc.IH [of "n div 10"] False show ?thesis by (simp add: decimal.simps [of n])
  qed
qed

lemma sid_string_from_eq:
  assumes "length domain + 11 * length ss < n"
  shows "sid_string_from n domain ss = Inr (domain @ concat (map (\<lambda>s. 0x2D # decimal (unat s)) ss))"
  using assms
proof (induction ss arbitrary: domain)
  case Nil
  then show ?case by simp
next
  case (Cons s ss)
  have "unat s < 10 ^ 10"
    using unsigned_less [of s, where ?'a = nat] by simp
  then have "length (decimal (unat s)) \<le> 10"
    by (rule decimal_length) simp
  with Cons show ?case by (simp add: Let_def)
qed

text \<open>The text of a SID.\<close>

definition sid_text :: "smb_sid \<Rightarrow> bytes" where
  "sid_text sid = [0x53, 0x2D] @ decimal (unat (sid_revision sid)) @ [0x2D] @ decimal (unat (sid_authority sid ! 5)) @
     concat (map (\<lambda>s. 0x2D # decimal (unat s)) (take (unat (sid_num_subauth sid)) (sid_sub_auth sid)))"

lemma decimal_byte: "length (decimal (unat (b :: byte))) \<le> 3"
  using unsigned_less [of b, where ?'a = nat] by (intro decimal_length) simp_all

section \<open>The exact bytes of a security descriptor\<close>

text \<open>Reference encodings: a SID, an access control entry with an optional relative id, the four
  entries, and the self-relative descriptor around them.\<close>

definition sid_bytes :: "smb_sid \<Rightarrow> bool \<Rightarrow> byte list" where
  "sid_bytes sid = (\<lambda>le. [sid_revision sid, sid_num_subauth sid] @ sid_authority sid @
     concat (map (\<lambda>s. e32 s le) (take (unat (sid_num_subauth sid)) (sid_sub_auth sid))))"

definition ace_sid :: "u32 \<Rightarrow> smb_sid \<Rightarrow> smb_sid" where
  "ace_sid rid sid = (if rid \<noteq> 0 then sid_push rid sid else sid)"

definition ace_bytes :: "u32 \<Rightarrow> u32 \<Rightarrow> smb_sid \<Rightarrow> bool \<Rightarrow> byte list" where
  "ace_bytes access_req rid sid = (\<lambda>le. [0, 0] @ e16 (word_of_nat (8 + length (sid_bytes (ace_sid rid sid) le))) le @
     e32 access_req le @ sid_bytes (ace_sid rid sid) le)"

definition dacl_bytes :: "u32 list \<Rightarrow> u32 \<Rightarrow> bool \<Rightarrow> byte list" where
  "dacl_bytes subauth rid = (\<lambda>le. ace_bytes 0x0002035b 0 sid_everyone le @
     ace_bytes 0x000f07ff 544 sid_local_group le @ ace_bytes 0x000f07ff 548 sid_local_group le @
     ace_bytes 0x00020044 rid (smb_init_domain_sid subauth) le)"

definition sec_desc_bytes :: "u32 list \<Rightarrow> u32 \<Rightarrow> bool \<Rightarrow> byte list" where
  "sec_desc_bytes subauth rid = (\<lambda>le. e16 1 le @ e16 0x8004 le @ e32 0 le @ e32 0 le @ e32 0 le @ e32 20 le @
     e16 2 le @ e16 (word_of_nat (8 + length (dacl_bytes subauth rid le))) le @ e32 4 le @ dacl_bytes subauth rid le)"

lemma sid_bytes_length:
  "sid_ok sid \<Longrightarrow> length (sid_bytes sid le) = 8 + 4 * unat (sid_num_subauth sid)"
  by (simp add: sid_bytes_def sid_ok_def sid_consts length_concat comp_def sum_list_triv)

lemma smb_write_sid_emits:
  assumes "sid_ok sid" and "4 dvd k"
  shows "ndr_emits k () (smb_write_sid sid) (sid_bytes sid)"
proof -
  let ?w8 = "\<lambda>a. or_else ENOMEM (ndr_write_int8 a)" and ?w32 = "\<lambda>a. or_else ENOMEM (ndr_write_int32 a)"
  have a: "length (sid_authority sid) = 6"
    using assms by (simp add: sid_ok_def sid_consts)
  have "ndr_emits (k + 1 + 1) () (each ?w8 (sid_authority sid)) (\<lambda>le. concat (map (\<lambda>a. e8 a le) (sid_authority sid)))"
    by (rule ndr_emits_each [where w = 1]) (simp_all add: ndr_emits_ints)
  then have au: "ndr_emits (k + 1 + 1) () (each ?w8 (sid_authority sid)) (\<lambda>le. sid_authority sid)"
    by (simp add: e8_def)
  have su: "ndr_emits (k + 1 + 1 + 6) () (each ?w32 (take (unat (sid_num_subauth sid)) (sid_sub_auth sid)))
     (\<lambda>le. concat (map (\<lambda>s. e32 s le) (take (unat (sid_num_subauth sid)) (sid_sub_auth sid))))"
    using assms(2) by (intro ndr_emits_each [where w = 4]) (simp_all add: ndr_emits_ints)
  have "ndr_emits k () (sq (?w8 (sid_revision sid)) (sq (?w8 (sid_num_subauth sid)) (sq (each ?w8 (sid_authority sid))
       (each ?w32 (take (unat (sid_num_subauth sid)) (sid_sub_auth sid))))))
     (\<lambda>le. e8 (sid_revision sid) le @ e8 (sid_num_subauth sid) le @ sid_authority sid @
       concat (map (\<lambda>s. e32 s le) (take (unat (sid_num_subauth sid)) (sid_sub_auth sid))))"
    by (rule ndr_emits_sq [OF ndr_emits_ints(1) _ ndr_emits_sq [OF ndr_emits_ints(1) _ ndr_emits_sq [OF au _ su]]])
       (simp_all add: a)
  then show ?thesis
    using assms(1) a by (simp add: smb_write_sid_def sid_ok_def sid_bytes_def e8_def sid_consts)
qed

lemma smb_set_ace_emits:
  assumes s: "sid_ok sid" and r: "rid \<noteq> 0 \<Longrightarrow> unat (sid_num_subauth sid) < SID_MAX_SUB_AUTHORITIES"
  shows "ndr_emits 0 (length (ace_bytes acc rid sid True)) (smb_set_ace acc rid sid) (ace_bytes acc rid sid)"
proof -
  let ?s = "ace_sid rid sid"
  have n: "unat (sid_num_subauth sid + 1) = unat (sid_num_subauth sid) + 1" if "rid \<noteq> 0"
    using r [OF that] by (simp add: unat_word_ariths sid_consts)
  have ok: "sid_ok ?s"
    using s r n by (auto simp: sid_ok_def ace_sid_def sid_push_def)
  define m where "m = 1 + 1 + 2 + 4 + 1 + 1 + 6 + unat (sid_num_subauth sid) * 4 + (if rid \<noteq> 0 then 4 else 0)"
  have len: "8 + length (sid_bytes ?s le) = m" for le
    using n by (simp add: sid_bytes_length [OF ok] m_def) (simp add: ace_sid_def sid_push_def)
  have w: "ndr_emits (0 + 1 + 1 + 2 + 4) () (or_else ENOMEM (smb_write_sid ?s)) (sid_bytes ?s)"
    by (intro ndr_emits_or_else smb_write_sid_emits [OF ok]) simp
  have "ndr_emits (0 + 1 + 1 + 2 + 4) m (sq (or_else ENOMEM (smb_write_sid ?s)) (ret m)) (\<lambda>le. sid_bytes ?s le @ [])"
    by (rule ndr_emits_sq [OF w _ ndr_emits_ret]) (rule sid_bytes_length [OF ok])
  then have b: "ndr_emits (0 + 1 + 1 + 2 + 4) m (sq (or_else ENOMEM (smb_write_sid ?s)) (ret m)) (sid_bytes ?s)"
    by simp
  have "ndr_emits 0 m (sq (or_else ENOMEM (ndr_write_int8 SMB_ACCESS_ALLOWED)) (sq (or_else ENOMEM (ndr_write_int8 0))
    (sq (or_else ENOMEM (ndr_write_int16 (word_of_nat m))) (sq (or_else ENOMEM (ndr_write_int32 acc))
    (sq (or_else ENOMEM (smb_write_sid ?s)) (ret m))))))
    (\<lambda>le. e8 SMB_ACCESS_ALLOWED le @ e8 0 le @ e16 (word_of_nat m) le @ e32 acc le @ sid_bytes ?s le)"
    by (rule ndr_emits_sq [OF ndr_emits_ints(1) _ ndr_emits_sq [OF ndr_emits_ints(1) _
          ndr_emits_sq [OF ndr_emits_ints(2) _ ndr_emits_sq [OF ndr_emits_ints(3) _ b]]]]) (simp_all del: One_nat_def)
  moreover have "length (ace_bytes acc rid sid True) = m"
    using len [of True] by (simp add: ace_bytes_def)
  moreover have "smb_set_ace acc rid sid = sq (or_else ENOMEM (ndr_write_int8 SMB_ACCESS_ALLOWED)) (sq (or_else ENOMEM (ndr_write_int8 0))
    (sq (or_else ENOMEM (ndr_write_int16 (word_of_nat m))) (sq (or_else ENOMEM (ndr_write_int32 acc))
    (sq (or_else ENOMEM (smb_write_sid ?s)) (ret m)))))"
    using r unfolding smb_set_ace_def Let_def m_def [symmetric] by (auto simp: ace_sid_def)
  moreover have "ace_bytes acc rid sid = (\<lambda>le. e8 SMB_ACCESS_ALLOWED le @ e8 0 le @ e16 (word_of_nat m) le @ e32 acc le @ sid_bytes ?s le)"
    unfolding ace_bytes_def len by (simp add: e8_def SMB_ACCESS_ALLOWED_def)
  ultimately show ?thesis by metis
qed

lemma ace_bytes_length:
  assumes "sid_ok (ace_sid rid sid)"
  shows "length (ace_bytes acc rid sid le) = 16 + 4 * unat (sid_num_subauth (ace_sid rid sid))"
  by (simp add: ace_bytes_def sid_bytes_length [OF assms])

lemma sid_const_ok: "sid_ok (sid_const a b)" "sid_num_subauth (sid_const a b) = 1"
  by (simp_all add: sid_ok_def sid_const_def sid_consts)

lemma init_domain_ok: "sid_ok (smb_init_domain_sid subauth)" "sid_num_subauth (smb_init_domain_sid subauth) = 4"
  by (simp_all add: sid_ok_def smb_init_domain_sid_def sid_consts)

lemma owner_domain_eq: "owner_domain subauth = smb_init_domain_sid subauth"
  by (simp add: owner_domain_def smb_init_domain_sid_def sid_domain_def sid_const_def upt_rec numeral_eq_Suc)

lemma ace_sid_ok:
  assumes "sid_ok sid" and "unat (sid_num_subauth sid) < SID_MAX_SUB_AUTHORITIES"
  shows "sid_ok (ace_sid rid sid)"
proof -
  have "unat (sid_num_subauth sid + 1) = unat (sid_num_subauth sid) + 1"
    using assms by (simp add: unat_word_ariths sid_consts)
  with assms show ?thesis by (auto simp: sid_ok_def ace_sid_def sid_push_def)
qed

text \<open>The four entries of the descriptor, at an aligned offset and with a length that keeps it so.\<close>

lemma default_ace:
  assumes "sid_ok sid" and "unat (sid_num_subauth sid) < SID_MAX_SUB_AUTHORITIES"
  shows "ndr_emits 0 (length (ace_bytes acc rid sid True)) (smb_set_ace acc rid sid) (ace_bytes acc rid sid)"
    and "length (ace_bytes acc rid sid le) = length (ace_bytes acc rid sid True)"
    and "4 dvd length (ace_bytes acc rid sid le)"
proof -
  show "ndr_emits 0 (length (ace_bytes acc rid sid True)) (smb_set_ace acc rid sid) (ace_bytes acc rid sid)"
    by (rule smb_set_ace_emits [OF assms])
qed (use assms in \<open>simp_all add: ace_bytes_length ace_sid_ok\<close>)

lemma default_sids:
  "sid_ok sid_everyone" "unat (sid_num_subauth sid_everyone) < SID_MAX_SUB_AUTHORITIES"
  "sid_ok sid_local_group" "unat (sid_num_subauth sid_local_group) < SID_MAX_SUB_AUTHORITIES"
  "sid_ok (smb_init_domain_sid subauth)" "unat (sid_num_subauth (smb_init_domain_sid subauth)) < SID_MAX_SUB_AUTHORITIES"
  by (simp_all add: sid_everyone_def sid_local_group_def sid_const_ok init_domain_ok sid_consts)

lemma ndr_emits_bnd4:
  assumes "ndr_emits 0 x m a" and "\<And>le. length (a le) = l" and "4 dvd l" and "ndr_emits 0 y (f x) b"
  shows "ndr_emits 0 y (bnd m f) (\<lambda>le. a le @ b le)"
  using assms by (intro ndr_emits_bnd [of 0 x m a l y f b] ndr_emits_mod [of 0 y "f x" b "0 + l"]) auto

lemma set_dacl_emits:
  "ndr_emits 0 (length (dacl_bytes subauth rid True)) (set_dacl subauth rid) (dacl_bytes subauth rid)"
proof -
  note ev = default_ace [OF default_sids(1,2)] and lg = default_ace [OF default_sids(3,4)]
    and ow = default_ace [OF default_sids(5) [of subauth] default_sids(6)]
  let ?n = "length (dacl_bytes subauth rid True)"
  have "ndr_emits 0 ?n (set_dacl subauth rid) (\<lambda>le. ace_bytes 0x0002035b 0 sid_everyone le @
     ace_bytes 0x000f07ff 544 sid_local_group le @ ace_bytes 0x000f07ff 548 sid_local_group le @
     ace_bytes 0x00020044 rid (smb_init_domain_sid subauth) le @ [])"
    unfolding set_dacl_def owner_domain_eq
    apply (rule ndr_emits_bnd4 [OF ev(1,2,3)])
    apply (rule ndr_emits_bnd4 [OF lg(1,2,3)])
    apply (rule ndr_emits_bnd4 [OF lg(1,2,3)])
    apply (simp add: sid_domain_def sid_const_ok sid_consts del: append_Nil2)
    apply (rule ndr_emits_bnd4 [OF ow(1,2,3)])
    apply (simp add: dacl_bytes_def ndr_emits_ret add.assoc)
    done
  then show ?thesis by (simp add: dacl_bytes_def)
qed

lemma dacl_bytes_length: "length (dacl_bytes subauth rid le) = length (dacl_bytes subauth rid True)"
  using default_ace(2) [OF default_sids(1,2), where le = le] default_ace(2) [OF default_sids(3,4), where le = le]
    default_ace(2) [OF default_sids(5,6), where le = le]
  by (simp add: dacl_bytes_def)

definition sec_desc_head :: "('x ksmbd_dcerpc_scheme, unit) act" where
  "sec_desc_head = sq (or_else ENOMEM (ndr_write_int16 1))
    (sq (or_else ENOMEM (ndr_write_int16 (SMB_SELF_RELATIVE OR SMB_DACL_PRESENT)))
    (sq (or_else ENOMEM (ndr_write_int32 0)) (sq (or_else ENOMEM (ndr_write_int32 0))
    (sq (or_else ENOMEM (ndr_write_int32 0)) (sq (or_else ENOMEM (ndr_write_int32 (word_of_nat sizeof_ntsd)))
        (or_else ENOMEM (ndr_write_int16 2)))))))"

definition sec_desc_head_bytes :: "bool \<Rightarrow> byte list" where
  "sec_desc_head_bytes = (\<lambda>le. e16 1 le @ e16 0x8004 le @ e32 0 le @ e32 0 le @ e32 0 le @ e32 20 le @ e16 2 le)"

lemma sec_desc_head_emits: "ndr_emits 0 () sec_desc_head sec_desc_head_bytes"
proof -
  have "ndr_emits 0 () sec_desc_head (\<lambda>le. e16 1 le @ e16 (SMB_SELF_RELATIVE OR SMB_DACL_PRESENT) le @
     e32 0 le @ e32 0 le @ e32 0 le @ e32 (word_of_nat sizeof_ntsd) le @ e16 2 le)"
    unfolding sec_desc_head_def
    by (rule ndr_emits_sq [OF ndr_emits_ints(2) _ ndr_emits_sq [OF ndr_emits_ints(2) _ ndr_emits_sq [OF ndr_emits_ints(3) _
      ndr_emits_sq [OF ndr_emits_ints(3) _ ndr_emits_sq [OF ndr_emits_ints(3) _ ndr_emits_sq [OF ndr_emits_ints(3) _
      ndr_emits_ints(2)]]]]]]) ((simp_all del: One_nat_def)+)
  then show ?thesis
    by (simp add: sec_desc_head_bytes_def SMB_SELF_RELATIVE_def SMB_DACL_PRESENT_def sizeof_ntsd_def)
qed

lemma sq_assoc: "sq (sq a b) c = sq a (sq b c)"
  by (simp add: sq_def bnd_assoc)

lemma build_sec_desc_split:
  "build_sec_desc subauth rid = sq sec_desc_head
    (bnd (reads (\<lambda>d. int_offset (dce_offset d))) (\<lambda>acl_size_offset.
     sq (dce_advance 2) (sq (or_else ENOMEM (ndr_write_int32 KSMBD_NUM_DEFAULT_ACES))
    (bnd (or_else ENOMEM (set_dacl subauth rid)) (\<lambda>dacl.
     bnd (reads (\<lambda>d. int_offset (dce_offset d))) (\<lambda>l_offset.
     sq (set_offset acl_size_offset)
    (sq (or_else ENOMEM (ndr_write_int16 (word_of_nat (dacl + sizeof_acl))))
    (sq (set_offset l_offset) (ret (word_of_nat (sizeof_ntsd + (dacl + sizeof_acl))))))))))))"
  by (simp only: build_sec_desc_def sec_desc_head_def sq_assoc Let_def)

text \<open>An aligned write at an offset two bytes further on is the same write.\<close>

lemma ndr_write_skipped:
  assumes d: "ndr_inv d" and o: "off d mod 4 = 2"
  shows "or_else ENOMEM (ndr_write_int32 v) (seek (off d + 2) d) =
    (if off d + 6 \<le> psz d then (Inr (), seek (off d + 6) (patch (off d + 2) (e32 v (le_mode d)) d))
     else (Inl (Err ENOMEM), seek (off d + 2) d))"
proof -
  define k where "k = off d + 2"
  have b: "k + 8 < 2 ^ 64"
    using ndr_inv_offset [OF d] by (simp add: k_def)
  have u: "up 4 (off d) = k" and u': "up 4 k = k"
    using o by (simp_all add: up_def k_def) presburger+
  have ku: "unat (word_of_nat k :: u64) = k"
    using b by (simp add: unat_of_nat)
  then have "unat (ALIGN (word_of_nat k) (word_of_nat 4)) = k"
    using b u' by (subst unat_ALIGN_width) simp_all
  then have a: "ALIGN (word_of_nat k) (word_of_nat 4) = (word_of_nat k :: u64)"
    using ku by (simp only: word_unat_eq_iff)
  have "align_offset (word_of_nat 4) (seek k d) = align_offset (word_of_nat 4) d"
    using align_offset_eq [OF d, of 4] u a by (simp add: align_offset_def modify_def seek_def)
  then have "ndr_write_int 4 (unat v) (seek k d) = ndr_write_int 4 (unat v) d"
    by (simp add: ndr_write_int_def sq_def bnd_def)
  moreover have k4: "off d + 6 = k + 4" by (simp add: k_def)
  ultimately show ?thesis
    unfolding k_def [symmetric] k4 using u by (simp add: or_else_def ndr_write_int32_def ndr_write_int_eq [OF d] Let_def e32_def)
qed

lemma int_offset_back:
  assumes "unat x < 2 ^ 31"
  shows "scast (int_offset x) = x"
proof -
  have "unat (take_bit 31 x) = unat x"
    using assms by (simp only: unsigned_take_bit_eq take_bit_nat_eq_self_iff)
  then have x: "take_bit 31 x = x"
    by (simp only: word_unat_eq_iff)
  have "scast (ucast (take_bit 31 x) :: u32) = take_bit 31 x"
    by (rule bit_word_eqI) (auto simp: bit_simps)
  then show ?thesis
    by (simp only: x int_offset_def)
qed

text \<open>The entries behind the gap of two bytes left for the size of the list.\<close>

definition sec_desc_acl :: "u32 list \<Rightarrow> u32 \<Rightarrow> ('x ksmbd_dcerpc_scheme, nat) act" where
  "sec_desc_acl subauth rid = sq (dce_advance 2) (sq (or_else ENOMEM (ndr_write_int32 KSMBD_NUM_DEFAULT_ACES))
     (or_else ENOMEM (set_dacl subauth rid)))"

definition acl_bytes :: "u32 list \<Rightarrow> u32 \<Rightarrow> bool \<Rightarrow> byte list" where
  "acl_bytes subauth rid = (\<lambda>le. e32 KSMBD_NUM_DEFAULT_ACES le @ dacl_bytes subauth rid le)"

lemma sec_desc_acl_eq:
  assumes d: "ndr_inv d" and o: "off d mod 4 = 2" "off d \<le> psz d"
    and x: "x = length (dacl_bytes subauth rid True)" and b: "b = acl_bytes subauth rid (le_mode d)"
  shows "if off d + 2 + length b \<le> psz d
     then sec_desc_acl subauth rid d = (Inr x, seek (off d + 2 + length b) (patch (off d + 2) b d))
     else \<exists>t. sec_desc_acl subauth rid d = (Inl (Err ENOMEM), t) \<and> ndr_inv t"
proof (cases "off d + 6 \<le> psz d")
  case True
  let ?w = "e32 KSMBD_NUM_DEFAULT_ACES (le_mode d)" and ?db = "dacl_bytes subauth rid (le_mode d)"
  define e where "e = seek (off d + 6) (patch (off d + 2) ?w d)"
  have "sec_desc_acl subauth rid d = or_else ENOMEM (set_dacl subauth rid) e"
    using ndr_write_skipped [OF d o(1), of KSMBD_NUM_DEFAULT_ACES] True
    by (simp add: sec_desc_acl_def sq_def bnd_def dce_advance_ok e_def)
  moreover have i: "ndr_inv e"
    unfolding e_def using True by (intro ndr_inv_moved(3) [OF d]) simp_all
  moreover have "psz d < 2 ^ 64"
    using d by (simp add: ndr_inv_def)
  then have oe: "off e = off d + 6"
    unfolding e_def using True by (intro seek_simps) simp
  moreover have "(off d + 6) mod 4 = 0"
    using o(1) by presburger
  moreover have e: "psz e = psz d" "le_mode e = le_mode d" by (simp_all add: e_def)
  moreover have "patch (off d + 6) ?db e = seek (off d + 6) (patch (off d + 2) (?w @ ?db) d)"
    unfolding e_def patch_seek using True d by (subst patch_append) (simp_all add: ndr_inv_def)
  ultimately show ?thesis
    using spec [OF ndr_emits_or_else [OF set_dacl_emits, unfolded ndr_emits_def], of e subauth rid] True
    by (simp add: x b acl_bytes_def Let_def add.assoc add.commute add.left_commute)
next
  case False
  with ndr_write_skipped [OF d o(1), of KSMBD_NUM_DEFAULT_ACES]
  have "sec_desc_acl subauth rid d = (Inl (Err ENOMEM), seek (off d + 2) d)"
    by (simp add: sec_desc_acl_def sq_def bnd_def dce_advance_ok)
  moreover have "up 4 (off d) = off d + 2"
    using o(1) by (simp add: up_def) presburger
  then have "ndr_inv (seek (off d + 2) d)"
    using ndr_inv_moved(1) [OF d, of 4] by simp
  ultimately show ?thesis
    using False by (simp add: b acl_bytes_def)
qed

lemma int_offset_seek:
  assumes "k < 2 ^ 31"
  shows "set_offset (int_offset (word_of_nat k)) d = (Inr (), seek k d)"
proof -
  have "unat (word_of_nat k :: u64) = k"
    using assms by (simp add: unat_of_nat)
  then show ?thesis
    using assms int_offset_back [of "word_of_nat k"] by (simp add: set_offset_def modify_def seek_def)
qed

text \<open>Going back to fill the gap.\<close>

lemma backpatch:
  assumes d: "ndr_inv d" and k: "psz d < 2 ^ 31" "dce_offset d = word_of_nat k" "k \<le> psz d" and p: "p + 2 \<le> psz d" "2 dvd p"
  shows "bnd (reads (\<lambda>d. int_offset (dce_offset d))) (\<lambda>l_offset. sq (set_offset (int_offset (word_of_nat p)))
    (sq (or_else ENOMEM (ndr_write_int16 v)) (sq (set_offset l_offset) (ret x)))) d = (Inr x, seek k (patch p (e16 v (le_mode d)) d))"
proof -
  have i: "ndr_inv (seek p d)"
    using p by (intro ndr_inv_moved(2) [OF d]) simp
  have "p < 2 ^ 64" using p k by simp
  then have "off (seek p d) = p" by simp
  then have "or_else ENOMEM (ndr_write_int16 v) (seek p d) = (Inr (), seek (p + 2) (patch p (e16 v (le_mode d)) (seek p d)))"
    using ndr_emits_fit [OF ndr_emits_ints(2) [OF p(2)] i] p(1) by simp
  then show ?thesis
    using p k by (simp add: bnd_def sq_def reads_def int_offset_seek ret_def patch_seek)
qed

lemma build_sec_desc_eq:
  "build_sec_desc subauth rid = sq sec_desc_head
    (bnd (reads (\<lambda>d. int_offset (dce_offset d))) (\<lambda>acl_size_offset.
     bnd (sec_desc_acl subauth rid) (\<lambda>dacl.
     bnd (reads (\<lambda>d. int_offset (dce_offset d))) (\<lambda>l_offset.
     sq (set_offset acl_size_offset)
    (sq (or_else ENOMEM (ndr_write_int16 (word_of_nat (dacl + sizeof_acl))))
    (sq (set_offset l_offset) (ret (word_of_nat (sizeof_ntsd + (dacl + sizeof_acl))))))))))"
  by (simp only: build_sec_desc_split sec_desc_acl_def) (simp only: sq_def bnd_assoc)

lemma sec_desc_bytes_eq:
  "sec_desc_bytes subauth rid le = sec_desc_head_bytes le @
     e16 (word_of_nat (length (dacl_bytes subauth rid True) + sizeof_acl)) le @ acl_bytes subauth rid le"
  by (simp add: sec_desc_bytes_def sec_desc_head_bytes_def acl_bytes_def KSMBD_NUM_DEFAULT_ACES_def sizeof_acl_def
      dacl_bytes_length [of subauth rid le] add.commute)

lemma sec_desc_lengths:
  "length (sec_desc_head_bytes le) = 22" "length (acl_bytes subauth rid le) = 4 + length (dacl_bytes subauth rid True)"
  by (simp_all add: sec_desc_head_bytes_def acl_bytes_def dacl_bytes_length [of subauth rid le])

lemma build_sec_desc_fit:
  assumes d: "ndr_inv d" and small: "psz d < 2 ^ 31" and al: "4 dvd off d"
    and b: "b = sec_desc_bytes subauth rid (le_mode d)" and fit: "off d + length b \<le> psz d"
  shows "build_sec_desc subauth rid d = (Inr (word_of_nat (length b)), seek (off d + length b) (patch (off d) b d))"
proof -
  define j n where "j = off d" and "n = length (dacl_bytes subauth rid True)"
  let ?h = "sec_desc_head_bytes (le_mode d)" and ?a = "acl_bytes subauth rid (le_mode d)"
    and ?s = "e16 (word_of_nat (n + sizeof_acl)) (le_mode d)"
  note len = sec_desc_lengths(1) [of "le_mode d"] sec_desc_lengths(2) [of subauth rid "le_mode d", folded n_def]
  have bs: "b = ?h @ ?s @ ?a" and lb: "length b = 28 + n"
    by (simp_all add: b sec_desc_bytes_eq n_def sec_desc_lengths)
  have fit': "j + 28 + n \<le> psz d"
    using fit lb by (simp add: j_def)
  define d1 where "d1 = seek (j + 22) (patch j ?h d)"
  define d2 where "d2 = seek (j + 28 + n) (patch (j + 24) ?a d1)"
  have h: "sec_desc_head d = (Inr (), d1)"
    using ndr_emits_fit [OF sec_desc_head_emits d] al fit len lb by (simp add: d1_def j_def)
  have i1: "ndr_inv d1"
    unfolding d1_def using fit lb by (intro ndr_inv_moved(3) [OF d]) (simp_all add: len j_def)
  have "j + 22 < 2 ^ 64" using fit lb small by (simp add: j_def)
  then have o1: "off d1 = j + 22" and w1: "dce_offset d1 = word_of_nat (j + 22)" and z1: "psz d1 = psz d" "le_mode d1 = le_mode d"
    by (simp_all add: d1_def) (simp add: seek_def)
  have "(j + 22) mod 4 = 2" using al by (simp add: j_def) presburger
  then have a: "sec_desc_acl subauth rid d1 = (Inr n, d2)"
    using sec_desc_acl_eq [OF i1 _ _ n_def refl] fit' by (simp add: o1 z1 len d2_def add.commute add.left_commute)
  have i2: "ndr_inv d2"
    unfolding d2_def using fit lb by (intro ndr_inv_moved(3) [OF i1]) (simp_all add: len z1 j_def)
  have o2: "dce_offset d2 = word_of_nat (j + 28 + n)" and z2: "psz d2 = psz d" "le_mode d2 = le_mode d"
    by (simp_all add: d2_def z1) (simp add: seek_def)
  have "even j" using al by (auto simp: j_def intro: dvd_trans [of 2 4])
  have "build_sec_desc subauth rid d = (Inr (word_of_nat (sizeof_ntsd + (n + sizeof_acl))),
      seek (j + 28 + n) (patch (j + 22) ?s d2))"
    using backpatch [OF i2 _ o2, of "j + 22"] small fit' \<open>even j\<close>
    by (simp add: build_sec_desc_eq bnd_def sq_def h a reads_def w1 z2)
  moreover have "patch (j + 22) ?s (patch (j + 24) ?a (patch j ?h d)) = patch j b d"
    using d fit lb unfolding patch_def bs
    by (simp add: overwrite_prepend overwrite_append len ndr_inv_def j_def)
  ultimately show ?thesis
    by (simp add: d2_def d1_def patch_seek lb j_def sizeof_ntsd_def sizeof_acl_def ac_simps)
qed

lemma build_sec_desc_full:
  assumes d: "ndr_inv d" and o: "off d \<le> psz d" "4 dvd off d"
    and fit: "\<not> off d + length (sec_desc_bytes subauth rid (le_mode d)) \<le> psz d"
  shows "\<exists>t. build_sec_desc subauth rid d = (Inl (Err ENOMEM), t) \<and> ndr_inv t"
proof (cases "off d + 22 \<le> psz d")
  case True
  define d1 where "d1 = seek (off d + 22) (patch (off d) (sec_desc_head_bytes (le_mode d)) d)"
  have h: "sec_desc_head d = (Inr (), d1)"
    using ndr_emits_fit [OF sec_desc_head_emits d] o True by (simp add: d1_def sec_desc_lengths)
  have i1: "ndr_inv d1"
    unfolding d1_def using True by (intro ndr_inv_moved(3) [OF d]) (simp_all add: sec_desc_lengths)
  have "psz d < 2 ^ 64" using d by (simp add: ndr_inv_def)
  then have "off d + 22 < 2 ^ 64" using True by simp
  then have o1: "off d1 = off d + 22" and z1: "psz d1 = psz d" "le_mode d1 = le_mode d"
    by (simp_all add: d1_def)
  have "(off d + 22) mod 4 = 2" using o(2) by presburger
  then obtain t where "sec_desc_acl subauth rid d1 = (Inl (Err ENOMEM), t)" "ndr_inv t"
    using sec_desc_acl_eq [OF i1 _ _ refl refl, of subauth rid] fit True
    by (auto simp: o1 z1 sec_desc_lengths sec_desc_bytes_eq)
  then show ?thesis
    using h by (simp add: build_sec_desc_eq bnd_def sq_def reads_def)
next
  case False
  then obtain t where "sec_desc_head d = (Inl (Err ENOMEM), t)" "ndr_inv t"
    using ndr_emits_full [OF sec_desc_head_emits d] o by (auto simp: sec_desc_lengths)
  then show ?thesis
    by (simp add: build_sec_desc_eq sq_def)
qed

section \<open>Properties of SIDs and security descriptors\<close>

definition sid_sample :: smb_sid where
  "sid_sample = \<lparr>sid_revision = 1, sid_num_subauth = 2, sid_authority = [0, 0, 0, 0, 0, 5],
     sid_sub_auth = [32, 544] @ replicate 13 0\<rparr>"

lemma sid_sample_ok: "sid_ok sid_sample"
  by (simp add: sid_ok_def sid_sample_def sid_consts)

lemma sid_tail_written:
  assumes "sid_ok sid"
  shows "smb_write_sid (sid\<lparr>sid_sub_auth := take (unat (sid_num_subauth sid)) (sid_sub_auth sid) @ xs\<rparr>) = smb_write_sid sid"
  using assms by (simp add: smb_write_sid_def sid_ok_def min_def)



text \<open>C25: \<open>smb_compare_sids\<close> compares revisions, the six authority bytes and then only as many
  sub-authorities as both SIDs have: it answers 0 exactly when these agree, so a SID matches
  every SID that extends it, and exchanging the arguments negates the answer.\<close>

theorem smb_compare_sids_prefix:
  assumes "length (sid_authority a) = NUM_AUTHS" and "length (sid_authority b) = NUM_AUTHS"
    and "length (sid_sub_auth a) = length (sid_sub_auth b)"
  shows "(smb_compare_sids (Some a) (Some b) = 0 \<longleftrightarrow> sid_revision a = sid_revision b \<and> sid_authority a = sid_authority b
      \<and> (let n = min (unat (sid_num_subauth a)) (unat (sid_num_subauth b)) in
          take n (sid_sub_auth a) = take n (sid_sub_auth b)))
    \<and> smb_compare_sids (Some b) (Some a) = - smb_compare_sids (Some a) (Some b)"
  using assms first_diff_zero [of "sid_authority a" "sid_authority b"]
    first_diff_sym [of "sid_authority b" "sid_authority a"]
    first_diff_zero [of "take n (sid_sub_auth a)" "take n (sid_sub_auth b)" for n]
    first_diff_sym [of "take n (sid_sub_auth b)" "take n (sid_sub_auth a)" for n]
  by (auto simp: smb_compare_sids_def Let_def min.commute)

theorem smb_compare_sids_prefix_witness:
  "smb_compare_sids (Some sid_sample) (Some sid_local_group) = 0 \<and> sid_sample \<noteq> sid_local_group"
  using smb_compare_sids_prefix [of sid_sample sid_local_group]
  by (simp add: sid_sample_def sid_const_defs sid_consts min_def)



text \<open>C17: the security descriptor is written as the reference encoding says, with every size field
  filled in and the returned length equal to the number of bytes written, or not at all: from an
  aligned offset of a payload below two gigabytes \<open>build_sec_desc\<close> puts exactly these bytes when
  they fit, and returns \<open>ENOMEM\<close> with the cursor invariant intact when they do not.\<close>

theorem build_sec_desc_exact:
  assumes "ndr_inv d" and "psz d < 2 ^ 31" and "off d \<le> psz d" and "4 dvd off d"
    and "b = sec_desc_bytes subauth rid (le_mode d)"
  shows "if off d + length b \<le> psz d
     then build_sec_desc subauth rid d = (Inr (word_of_nat (length b)), seek (off d + length b) (patch (off d) b d))
     else \<exists>t. build_sec_desc subauth rid d = (Inl (Err ENOMEM), t) \<and> ndr_inv t"
  using build_sec_desc_fit [OF assms(1,2,4,5)] build_sec_desc_full [OF assms(1,3,4)] assms(5) by auto

theorem build_sec_desc_exact_witness:
  "fst (build_sec_desc [1, 2, 3] 1000 (ndr_sample\<lparr>dce_payload_sz := 256, dce_payload := replicate 256 0\<rparr>)) = Inr 132"
proof -
  let ?d = "ndr_sample\<lparr>dce_payload_sz := 256, dce_payload := replicate 256 0\<rparr>"
  have "ndr_inv ?d"
    by (simp add: ndr_inv_def ndr_sample_def dce_test_def dce_flag_defs up_def)
  moreover have "length (sec_desc_bytes [1, 2, 3] 1000 le) = 132" for le
    using ace_bytes_length [OF ace_sid_ok [OF default_sids(1,2)]] ace_bytes_length [OF ace_sid_ok [OF default_sids(3,4)]]
      ace_bytes_length [OF ace_sid_ok [OF default_sids(5,6)]]
    by (simp add: sec_desc_bytes_eq sec_desc_lengths dacl_bytes_def ace_sid_def sid_push_def sid_const_defs init_domain_ok)
  ultimately show ?thesis
    using build_sec_desc_exact [of ?d _ "[1, 2, 3]" 1000] by (simp add: ndr_sample_def)
qed

end
