(* ===== verification/Dcerpc.thy ===== *)
theory Dcerpc
  imports Smbacl
begin

text \<open>
  The DCE/RPC level of \<open>src/mountd/rpc.c\<close>: PDU headers, syntaxes, and the bind handshake.  The
  state is a pipe, \<open>struct ksmbd_rpc_pipe\<close> together with the \<open>struct ksmbd_dcerpc\<close> it owns; it
  extends the cursor of the NDR layer, so that the marshalling functions apply to it directly.

  Memory that the pipe's own code allocates (the lists of a bind request, strings of a request)
  is a block with a number.  \<open>rpc_live\<close> holds the numbers in use; a pointer to a block whose
  number is not in it dangles, and following or freeing it is a \<open>Fault\<close>.  The contents never
  change after the parse, so a pointer carries them.  Allocations are taken to succeed.  The
  \<open>union\<close> of requests is a datatype with one constructor per member; what one member reads after
  another was written is spelled out from the layout of the structs on a 64-bit machine.
  \<open>dce_rpc_req\<close> is the \<open>flags\<close> field of the command the pipe points to, \<open>None\<close> once that
  message has been released.
\<close>

section \<open>Constants\<close>

definition DCERPC_PTYPE_RPC_REQUEST :: u8 where "DCERPC_PTYPE_RPC_REQUEST = 0x00"
definition DCERPC_PTYPE_RPC_RESPONSE :: u8 where "DCERPC_PTYPE_RPC_RESPONSE = 0x02"
definition DCERPC_PTYPE_RPC_BIND :: u8 where "DCERPC_PTYPE_RPC_BIND = 0x0B"
definition DCERPC_PTYPE_RPC_BINDACK :: u8 where "DCERPC_PTYPE_RPC_BINDACK = 0x0C"
definition DCERPC_PTYPE_RPC_BINDNACK :: u8 where "DCERPC_PTYPE_RPC_BINDNACK = 0x0D"
definition DCERPC_PTYPE_RPC_ALTCONT :: u8 where "DCERPC_PTYPE_RPC_ALTCONT = 0x0E"
definition DCERPC_PTYPE_RPC_ALTCONTRESP :: u8 where "DCERPC_PTYPE_RPC_ALTCONTRESP = 0x0F"

lemmas ptype_defs = DCERPC_PTYPE_RPC_REQUEST_def DCERPC_PTYPE_RPC_RESPONSE_def DCERPC_PTYPE_RPC_BIND_def
  DCERPC_PTYPE_RPC_BINDACK_def DCERPC_PTYPE_RPC_BINDNACK_def DCERPC_PTYPE_RPC_ALTCONT_def
  DCERPC_PTYPE_RPC_ALTCONTRESP_def

definition DCERPC_PFC_FIRST_FRAG :: u8 where "DCERPC_PFC_FIRST_FRAG = 0x01"
definition DCERPC_PFC_LAST_FRAG :: u8 where "DCERPC_PFC_LAST_FRAG = 0x02"
definition DCERPC_SERIALIZATION_LITTLE_ENDIAN :: byte where "DCERPC_SERIALIZATION_LITTLE_ENDIAN = 0x10"

definition DCERPC_BIND_ACK_RES_ACCEPT :: int where "DCERPC_BIND_ACK_RES_ACCEPT = 0"
definition DCERPC_BIND_ACK_RES_PROVIDER_REJECT :: int where "DCERPC_BIND_ACK_RES_PROVIDER_REJECT = 2"
definition DCERPC_BIND_ACK_RES_NEGOTIATE_ACK :: int where "DCERPC_BIND_ACK_RES_NEGOTIATE_ACK = 3"
definition DCERPC_BIND_NAK_RSN_PROTOCOL_VERSION_NOT_SUPPORTED :: u16 where
  "DCERPC_BIND_NAK_RSN_PROTOCOL_VERSION_NOT_SUPPORTED = 4"

definition KSMBD_RPC_METHOD_RETURN :: u32 where "KSMBD_RPC_METHOD_RETURN = 0x0001"
definition KSMBD_RPC_SRVSVC_METHOD_INVOKE :: u32 where "KSMBD_RPC_SRVSVC_METHOD_INVOKE = 0x0002"
definition KSMBD_RPC_WKSSVC_METHOD_INVOKE :: u32 where "KSMBD_RPC_WKSSVC_METHOD_INVOKE = 0x0004"
definition KSMBD_RPC_IOCTL_METHOD :: u32 where "KSMBD_RPC_IOCTL_METHOD = 0x0008 OR KSMBD_RPC_METHOD_RETURN"
definition KSMBD_RPC_OPEN_METHOD :: u32 where "KSMBD_RPC_OPEN_METHOD = 0x0010"
definition KSMBD_RPC_WRITE_METHOD :: u32 where "KSMBD_RPC_WRITE_METHOD = 0x0020"
definition KSMBD_RPC_READ_METHOD :: u32 where "KSMBD_RPC_READ_METHOD = 0x0040 OR KSMBD_RPC_METHOD_RETURN"
definition KSMBD_RPC_CLOSE_METHOD :: u32 where "KSMBD_RPC_CLOSE_METHOD = 0x0080"
definition KSMBD_RPC_RAP_METHOD :: u32 where "KSMBD_RPC_RAP_METHOD = 0x0100 OR KSMBD_RPC_METHOD_RETURN"
definition KSMBD_RPC_RESTRICTED_CONTEXT :: u32 where "KSMBD_RPC_RESTRICTED_CONTEXT = 0x0200"
definition KSMBD_RPC_SAMR_METHOD_INVOKE :: u32 where "KSMBD_RPC_SAMR_METHOD_INVOKE = 0x0400"
definition KSMBD_RPC_LSARPC_METHOD_INVOKE :: u32 where "KSMBD_RPC_LSARPC_METHOD_INVOKE = 0x0800"
definition KSMBD_RPC_QUERY_METHOD :: u32 where "KSMBD_RPC_QUERY_METHOD = 0x1000 OR KSMBD_RPC_METHOD_RETURN"

definition KSMBD_RPC_OK :: int where "KSMBD_RPC_OK = 0"
definition KSMBD_RPC_EBAD_FUNC :: int where "KSMBD_RPC_EBAD_FUNC = 0x01"
definition KSMBD_RPC_EACCESS_DENIED :: int where "KSMBD_RPC_EACCESS_DENIED = 0x05"
definition KSMBD_RPC_EBAD_FID :: int where "KSMBD_RPC_EBAD_FID = 0x06"
definition KSMBD_RPC_ENOMEM :: int where "KSMBD_RPC_ENOMEM = 0x08"
definition KSMBD_RPC_EBAD_DATA :: int where "KSMBD_RPC_EBAD_DATA = 0x0D"
definition KSMBD_RPC_ENOTIMPLEMENTED :: int where "KSMBD_RPC_ENOTIMPLEMENTED = 0x40"
definition KSMBD_RPC_EINVALID_PARAMETER :: int where "KSMBD_RPC_EINVALID_PARAMETER = 0x57"
definition KSMBD_RPC_EMORE_DATA :: int where "KSMBD_RPC_EMORE_DATA = 0xEA"
definition KSMBD_RPC_EINVALID_LEVEL :: int where "KSMBD_RPC_EINVALID_LEVEL = 0x7C"
definition KSMBD_RPC_SOME_NOT_MAPPED :: int where "KSMBD_RPC_SOME_NOT_MAPPED = 0x107"

lemmas rpc_status_defs = KSMBD_RPC_OK_def KSMBD_RPC_EBAD_FUNC_def KSMBD_RPC_EACCESS_DENIED_def KSMBD_RPC_EBAD_FID_def
  KSMBD_RPC_ENOMEM_def KSMBD_RPC_EBAD_DATA_def KSMBD_RPC_ENOTIMPLEMENTED_def KSMBD_RPC_EINVALID_PARAMETER_def
  KSMBD_RPC_EMORE_DATA_def KSMBD_RPC_EINVALID_LEVEL_def KSMBD_RPC_SOME_NOT_MAPPED_def

lemmas rpc_flag_defs = KSMBD_RPC_METHOD_RETURN_def KSMBD_RPC_SRVSVC_METHOD_INVOKE_def KSMBD_RPC_WKSSVC_METHOD_INVOKE_def
  KSMBD_RPC_IOCTL_METHOD_def KSMBD_RPC_OPEN_METHOD_def KSMBD_RPC_WRITE_METHOD_def KSMBD_RPC_READ_METHOD_def
  KSMBD_RPC_CLOSE_METHOD_def KSMBD_RPC_RAP_METHOD_def KSMBD_RPC_RESTRICTED_CONTEXT_def KSMBD_RPC_SAMR_METHOD_INVOKE_def
  KSMBD_RPC_LSARPC_METHOD_INVOKE_def KSMBD_RPC_QUERY_METHOD_def

definition HANDLE_SIZE :: nat where "HANDLE_SIZE = 20"
definition sizeof_dcerpc_header :: nat where "sizeof_dcerpc_header = 16"
definition sizeof_dcerpc_response_header :: nat where "sizeof_dcerpc_response_header = 8"

section \<open>Data\<close>

record dcerpc_header =
  rpc_vers :: u8
  rpc_vers_minor :: u8
  ptype :: u8
  pfc_flags :: u8
  packed_drep :: "byte list"
  frag_length :: u16
  auth_length :: u16
  call_id :: u32

record dcerpc_request_header =
  alloc_hint :: u32
  context_id :: u16
  opnum :: u16

record dcerpc_syntax =
  time_low :: u32
  time_mid :: u16
  time_hi_and_version :: u16
  clock_seq :: "byte list"
  node :: "byte list"
  ver_major :: u16
  ver_minor :: u16

datatype 'a cptr = Null | Blk nat 'a | Wild

record dcerpc_context =
  ctx_id :: u16
  num_syntaxes :: u8
  abstract_syntax :: dcerpc_syntax
  transfer_syntaxes :: "dcerpc_syntax list cptr"

record dcerpc_bind_request =
  bi_flags :: u32
  max_xmit_frag_sz :: u16
  max_recv_frag_sz :: u16
  assoc_group_id :: u32
  num_contexts :: u8
  bi_list :: "dcerpc_context list cptr"

text \<open>\<open>struct ndr_uniq_char_ptr\<close> with its string in a block.\<close>

record uniq_char_ptr =
  ref_id :: u32
  str_ptr :: "bytes cptr"

record srvsvc_share_info_request =
  si_level :: u32
  si_max_size :: u64
  si_server_name :: uniq_char_ptr
  si_share_name :: "bytes cptr"
  si_payload_handle :: "u32 \<times> u32"

record wkssvc_netwksta_info_request =
  wi_server_name :: uniq_char_ptr
  wi_level :: u32

record samr_info_request =
  sm_level :: u32
  sm_client_version :: u32
  sm_name :: uniq_char_ptr
  sm_handle :: "byte list"
  sm_rid :: u32

record lsarpc_info_request =
  lr_handle :: "byte list"
  lr_level :: u32

text \<open>
  The union of requests.  A bind request covers the first 24 bytes only; its second component is
  the member that was there before, which still holds what lies behind.
\<close>

datatype rpc_arg = No_req | Si_req srvsvc_share_info_request | Wi_req wkssvc_netwksta_info_request
  | Sm_req samr_info_request | Lr_req lsarpc_info_request | Bi_req dcerpc_bind_request rpc_arg

text \<open>\<open>ni_set\<close>: \<open>index\<close>, \<open>type\<close> and \<open>domain_str\<close> have been assigned since the allocation.\<close>

record lsarpc_names_info =
  ni_set :: bool
  ni_index :: u32
  ni_type :: int
  ni_domain_str :: bytes
  ni_sid :: smb_sid
  ni_user :: "addr option"

datatype rpc_entry = Share_entry addr | Names_entry lsarpc_names_info

datatype entry_cb = No_cb | Share_cb nat | Share_null_cb nat | Wksta_cb

datatype processed_cb = No_processed | Share_processed | Names_processed

record ksmbd_rpc_pipe = ksmbd_dcerpc +
  dce_dssetup_context_id :: int
  dce_hdr :: dcerpc_header
  dce_req_hdr :: dcerpc_request_header
  dce_req :: rpc_arg
  dce_rpc_req :: "u32 option"
  dce_resp_payload_sz :: u32
  dce_entry_size :: entry_cb
  dce_entry_rep :: entry_cb
  dce_entry_data :: entry_cb
  pipe_id :: u32
  pipe_ioctl_reply_consumed :: bool
  pipe_num_entries :: int
  pipe_num_processed :: int
  pipe_entries :: "rpc_entry list"
  pipe_entry_processed :: processed_cb
  rpc_live :: "nat set"
  rpc_next :: nat

type_synonym ('x, 'a) pipe_act = "('x ksmbd_rpc_pipe_scheme, 'a) act"

section \<open>The members of the union\<close>

definition no_name :: uniq_char_ptr where "no_name = \<lparr>ref_id = 0, str_ptr = Null\<rparr>"

definition si_zero :: srvsvc_share_info_request where
  "si_zero = \<lparr>si_level = 0, si_max_size = 0, si_server_name = no_name, si_share_name = Null, si_payload_handle = (0, 0)\<rparr>"
definition wi_zero :: wkssvc_netwksta_info_request where
  "wi_zero = \<lparr>wi_server_name = no_name, wi_level = 0\<rparr>"
definition sm_zero :: samr_info_request where
  "sm_zero = \<lparr>sm_level = 0, sm_client_version = 0, sm_name = no_name, sm_handle = replicate 20 0, sm_rid = 0\<rparr>"
definition lr_zero :: lsarpc_info_request where
  "lr_zero = \<lparr>lr_handle = replicate 20 0, lr_level = 0\<rparr>"
definition bi_zero :: dcerpc_bind_request where
  "bi_zero = \<lparr>bi_flags = 0, max_xmit_frag_sz = 0, max_recv_frag_sz = 0, assoc_group_id = 0, num_contexts = 0, bi_list = Null\<rparr>"

text \<open>A pointer made of bytes that are not a pointer: NULL when they are all zero.\<close>

definition wild :: "bool \<Rightarrow> 'a cptr" where
  "wild zero = (if zero then Null else Wild)"

definition cptr_null :: "'a cptr \<Rightarrow> bool" where
  "cptr_null p = (case p of Null \<Rightarrow> True | _ \<Rightarrow> False)"

text \<open>
  The bind request over another member.  Offsets: \<open>flags\<close> 0, \<open>max_xmit_frag_sz\<close> 4,
  \<open>max_recv_frag_sz\<close> 6, \<open>assoc_group_id\<close> 8, \<open>num_contexts\<close> 12, \<open>list\<close> 16.  Padding reads as
  zero.  \<open>None\<close>: the bytes are an address whose value the model does not have.
\<close>

definition bi_of :: "rpc_arg \<Rightarrow> dcerpc_bind_request option" where
  "bi_of u = (case u of
     No_req \<Rightarrow> Some bi_zero
   | Bi_req b _ \<Rightarrow> Some b
   | Si_req s \<Rightarrow> Some \<lparr>bi_flags = si_level s, max_xmit_frag_sz = 0, max_recv_frag_sz = 0,
       assoc_group_id = ucast (si_max_size s), num_contexts = ucast (drop_bit 32 (si_max_size s)),
       bi_list = wild (ref_id (si_server_name s) = 0)\<rparr>
   | Wi_req w \<Rightarrow> if cptr_null (str_ptr (wi_server_name w))
       then Some \<lparr>bi_flags = ref_id (wi_server_name w), max_xmit_frag_sz = 0, max_recv_frag_sz = 0,
         assoc_group_id = 0, num_contexts = 0, bi_list = wild (wi_level w = 0)\<rparr> else None
   | Sm_req s \<Rightarrow> Some \<lparr>bi_flags = sm_level s, max_xmit_frag_sz = ucast (sm_client_version s),
       max_recv_frag_sz = ucast (drop_bit 16 (sm_client_version s)), assoc_group_id = ref_id (sm_name s),
       num_contexts = 0, bi_list = wild (cptr_null (str_ptr (sm_name s)))\<rparr>
   | Lr_req l \<Rightarrow> Some \<lparr>bi_flags = word_of_nat (le_nat (slice 0 4 (lr_handle l))),
       max_xmit_frag_sz = word_of_nat (le_nat (slice 4 2 (lr_handle l))),
       max_recv_frag_sz = word_of_nat (le_nat (slice 6 2 (lr_handle l))),
       assoc_group_id = word_of_nat (le_nat (slice 8 4 (lr_handle l))),
       num_contexts = lr_handle l ! 12,
       bi_list = wild (le_nat (slice 16 4 (lr_handle l)) = 0 \<and> lr_level l = 0)\<rparr>)"

definition bi_under :: "rpc_arg \<Rightarrow> rpc_arg" where
  "bi_under u = (case u of Bi_req _ v \<Rightarrow> v | _ \<Rightarrow> u)"

text \<open>A member of a service over a bind request; over a member of another service: \<open>None\<close>.\<close>

definition si_of :: "rpc_arg \<Rightarrow> srvsvc_share_info_request option" where
  "si_of u = (case u of No_req \<Rightarrow> Some si_zero | Si_req s \<Rightarrow> Some s
   | Bi_req b v \<Rightarrow> (case (case v of Si_req s \<Rightarrow> Some s | No_req \<Rightarrow> Some si_zero | _ \<Rightarrow> None) of None \<Rightarrow> None
      | Some s \<Rightarrow> if cptr_null (bi_list b)
          then Some (s\<lparr>si_level := bi_flags b,
            si_max_size := ucast (assoc_group_id b) OR push_bit 32 (ucast (num_contexts b)),
            si_server_name := (si_server_name s)\<lparr>ref_id := 0\<rparr>\<rparr>) else None)
   | _ \<Rightarrow> None)"

definition wi_of :: "rpc_arg \<Rightarrow> wkssvc_netwksta_info_request option" where
  "wi_of u = (case u of No_req \<Rightarrow> Some wi_zero | Wi_req w \<Rightarrow> Some w
   | Bi_req b v \<Rightarrow> if cptr_null (bi_list b)
       then Some \<lparr>wi_server_name = \<lparr>ref_id = bi_flags b, str_ptr = wild (assoc_group_id b = 0 \<and> num_contexts b = 0)\<rparr>,
          wi_level = 0\<rparr> else None
   | _ \<Rightarrow> None)"

definition sm_of :: "rpc_arg \<Rightarrow> samr_info_request option" where
  "sm_of u = (case u of No_req \<Rightarrow> Some sm_zero | Sm_req s \<Rightarrow> Some s
   | Bi_req b v \<Rightarrow> (case (case v of Sm_req s \<Rightarrow> Some s | No_req \<Rightarrow> Some sm_zero | _ \<Rightarrow> None) of None \<Rightarrow> None
      | Some s \<Rightarrow> Some (s\<lparr>sm_level := bi_flags b,
            sm_client_version := ucast (max_xmit_frag_sz b) OR push_bit 16 (ucast (max_recv_frag_sz b)),
            sm_name := \<lparr>ref_id = assoc_group_id b, str_ptr = wild (cptr_null (bi_list b))\<rparr>\<rparr>))
   | _ \<Rightarrow> None)"

definition lr_of :: "rpc_arg \<Rightarrow> lsarpc_info_request option" where
  "lr_of u = (case u of No_req \<Rightarrow> Some lr_zero | Lr_req l \<Rightarrow> Some l
   | Bi_req b v \<Rightarrow> if cptr_null (bi_list b)
       then Some \<lparr>lr_handle = le_bytes 4 (unat (bi_flags b)) @ le_bytes 2 (unat (max_xmit_frag_sz b)) @
            le_bytes 2 (unat (max_recv_frag_sz b)) @ le_bytes 4 (unat (assoc_group_id b)) @
            [num_contexts b, 0, 0, 0] @ [0, 0, 0, 0], lr_level = 0\<rparr> else None
   | _ \<Rightarrow> None)"

text \<open>Reading a member, and assigning to fields of it.\<close>

definition get_req :: "(rpc_arg \<Rightarrow> 'm option) \<Rightarrow> ('x, 'm) pipe_act" where
  "get_req view = (\<lambda>d. case view (dce_req d) of None \<Rightarrow> (Inl Fault, d) | Some m \<Rightarrow> (Inr m, d))"

definition set_req :: "(rpc_arg \<Rightarrow> 'm option) \<Rightarrow> ('m \<Rightarrow> rpc_arg) \<Rightarrow> ('m \<Rightarrow> 'm) \<Rightarrow> ('x, unit) pipe_act" where
  "set_req view con f = bnd (get_req view) (\<lambda>m. modify (\<lambda>d. d\<lparr>dce_req := con (f m)\<rparr>))"

definition set_bi :: "(dcerpc_bind_request \<Rightarrow> dcerpc_bind_request) \<Rightarrow> ('x, unit) pipe_act" where
  "set_bi f = bnd (get_req bi_of) (\<lambda>b. modify (\<lambda>d. d\<lparr>dce_req := Bi_req (f b) (bi_under (dce_req d))\<rparr>))"

section \<open>Blocks and early returns\<close>

definition rpc_alloc :: "('x, nat) pipe_act" where
  "rpc_alloc = (\<lambda>d. (Inr (rpc_next d), d\<lparr>rpc_live := insert (rpc_next d) (rpc_live d), rpc_next := Suc (rpc_next d)\<rparr>))"

definition rpc_free :: "'a cptr \<Rightarrow> ('x, unit) pipe_act" where
  "rpc_free p = (\<lambda>d. case p of Null \<Rightarrow> (Inr (), d) | Wild \<Rightarrow> (Inl Fault, d)
     | Blk n _ \<Rightarrow> if n \<in> rpc_live d then (Inr (), d\<lparr>rpc_live := rpc_live d - {n}\<rparr>) else (Inl Fault, d))"

definition rpc_deref :: "'a cptr \<Rightarrow> ('x, 'a) pipe_act" where
  "rpc_deref p = (\<lambda>d. case p of Blk n x \<Rightarrow> if n \<in> rpc_live d then (Inr x, d) else (Inl Fault, d) | _ \<Rightarrow> (Inl Fault, d))"

text \<open>\<open>if (m) return st;\<close> in a function that returns a status.\<close>

definition rpc_try :: "int \<Rightarrow> ('s, 'a) act \<Rightarrow> ('a \<Rightarrow> ('s, int) act) \<Rightarrow> ('s, int) act" where
  "rpc_try st m f = (\<lambda>s. case m s of (Inl Fault, t) \<Rightarrow> (Inl Fault, t) | (Inl (Err _), t) \<Rightarrow> (Inr st, t)
     | (Inr x, t) \<Rightarrow> f x t)"

text \<open>\<open>goto fail\<close>: clean up, then return the error.\<close>

definition on_fail :: "('s, 'a) act \<Rightarrow> ('s, unit) act \<Rightarrow> ('s, 'a) act" where
  "on_fail m h = (\<lambda>s. case m s of (Inl (Err e), t) \<Rightarrow> sq h (fail (Err e)) t | r \<Rightarrow> r)"

definition rpc_req_flags :: "('x, u32) pipe_act" where
  "rpc_req_flags = (\<lambda>d. case dce_rpc_req d of None \<Rightarrow> (Inl Fault, d) | Some f \<Rightarrow> (Inr f, d))"

definition rpc_restricted_context :: "int \<Rightarrow> ('x, bool) pipe_act" where
  "rpc_restricted_context restrict =
    (if restrict = 0 then ret False else bnd rpc_req_flags (\<lambda>f. ret (f AND KSMBD_RPC_RESTRICTED_CONTEXT \<noteq> 0)))"

section \<open>Headers\<close>

definition dcerpc_hdr_write :: "dcerpc_header \<Rightarrow> ('x ksmbd_dcerpc_scheme, unit) act" where
  "dcerpc_hdr_write hdr =
     sq (ndr_write_int8 (rpc_vers hdr)) (sq (ndr_write_int8 (rpc_vers_minor hdr))
    (sq (ndr_write_int8 (ptype hdr)) (sq (ndr_write_int8 (pfc_flags hdr))
    (sq (ndr_write_bytes (take 4 (packed_drep hdr)))
    (sq (ndr_write_int16 (frag_length hdr)) (sq (ndr_write_int16 (auth_length hdr))
        (ndr_write_int32 (call_id hdr))))))))"

definition set_hdr :: "(dcerpc_header \<Rightarrow> dcerpc_header) \<Rightarrow> ('x, unit) pipe_act" where
  "set_hdr f = modify (\<lambda>d. d\<lparr>dce_hdr := f (dce_hdr d)\<rparr>)"

definition hdr_endian :: "byte \<Rightarrow> u32 \<Rightarrow> u32" where
  "hdr_endian drep0 flags = (let f = flags OR KSMBD_DCERPC_ALIGN4 OR KSMBD_DCERPC_LITTLE_ENDIAN in
     if drep0 \<noteq> DCERPC_SERIALIZATION_LITTLE_ENDIAN then f AND NOT KSMBD_DCERPC_LITTLE_ENDIAN else f)"

text \<open>The fields up to the data representation are read into the header one by one; the last three
  are assigned together at the end.\<close>

definition dcerpc_hdr_read :: "('x, unit) pipe_act" where
  "dcerpc_hdr_read =
     bnd (or_else EINVAL ndr_read_int8) (\<lambda>v. sq (set_hdr (\<lambda>h. h\<lparr>rpc_vers := v\<rparr>))
    (bnd (or_else EINVAL ndr_read_int8) (\<lambda>v. sq (set_hdr (\<lambda>h. h\<lparr>rpc_vers_minor := v\<rparr>))
    (bnd (or_else EINVAL ndr_read_int8) (\<lambda>v. sq (set_hdr (\<lambda>h. h\<lparr>ptype := v\<rparr>))
    (bnd (or_else EINVAL ndr_read_int8) (\<lambda>v. sq (set_hdr (\<lambda>h. h\<lparr>pfc_flags := v\<rparr>))
    (bnd (or_else EINVAL (ndr_read_bytes 4)) (\<lambda>drep. sq (set_hdr (\<lambda>h. h\<lparr>packed_drep := drep\<rparr>))
    (sq (modify (\<lambda>d. d\<lparr>dce_flags := hdr_endian (hd drep) (dce_flags d)\<rparr>))
    (bnd (or_else EINVAL ndr_read_int16) (\<lambda>frag.
     bnd (or_else EINVAL ndr_read_int16) (\<lambda>auth.
     bnd (or_else EINVAL ndr_read_int32) (\<lambda>call.
     set_hdr (\<lambda>h. h\<lparr>frag_length := frag, auth_length := auth, call_id := call\<rparr>)))))))))))))))"

text \<open>\<open>cancel_count\<close> and \<open>reserved\<close> of the response header are the bytes of \<open>opnum\<close>, which is 0.\<close>

definition dcerpc_response_hdr_write :: "dcerpc_request_header \<Rightarrow> ('x ksmbd_dcerpc_scheme, unit) act" where
  "dcerpc_response_hdr_write hdr =
     sq (ndr_write_int32 (alloc_hint hdr)) (sq (ndr_write_int16 (context_id hdr))
    (sq (ndr_write_int8 (ucast (opnum hdr))) (ndr_write_int8 (ucast (drop_bit 8 (opnum hdr))))))"

definition dcerpc_request_hdr_read :: "('x, unit) pipe_act" where
  "dcerpc_request_hdr_read =
     bnd (or_else EINVAL ndr_read_int32) (\<lambda>hint.
     bnd (or_else EINVAL ndr_read_int16) (\<lambda>ctx.
     bnd (or_else EINVAL ndr_read_int16) (\<lambda>opn.
     modify (\<lambda>d. d\<lparr>dce_req_hdr := \<lparr>alloc_hint = hint, context_id = ctx, opnum = opn\<rparr>\<rparr>))))"

definition goto_offset :: "nat \<Rightarrow> ('x ksmbd_dcerpc_scheme, unit) act" where
  "goto_offset n = modify (\<lambda>d. d\<lparr>dce_offset := word_of_nat n\<rparr>)"

definition dcerpc_write_headers :: "int \<Rightarrow> ('x, unit) pipe_act" where
  "dcerpc_write_headers method_status =
     bnd (reads (\<lambda>d. int_offset (dce_offset d))) (\<lambda>payload_offset.
     sq (goto_offset 0)
    (sq (set_hdr (\<lambda>h. h\<lparr>ptype := DCERPC_PTYPE_RPC_RESPONSE,
          pfc_flags := (if method_status = KSMBD_RPC_EMORE_DATA then DCERPC_PFC_FIRST_FRAG
                        else DCERPC_PFC_FIRST_FRAG OR DCERPC_PFC_LAST_FRAG),
          frag_length := ucast payload_offset\<rparr>))
    (sq (bnd (reads dce_hdr) dcerpc_hdr_write)
    (sq (modify (\<lambda>d. d\<lparr>dce_req_hdr := (dce_req_hdr d)\<lparr>alloc_hint := payload_offset, opnum := 0\<rparr>\<rparr>))
    (sq (bnd (reads dce_req_hdr) dcerpc_response_hdr_write)
        (set_offset payload_offset))))))"

section \<open>Syntaxes\<close>

definition dcerpc_read_syntax :: "('x ksmbd_dcerpc_scheme, dcerpc_syntax) act" where
  "dcerpc_read_syntax =
     bnd (or_else EINVAL ndr_read_int32) (\<lambda>a.
     bnd (or_else EINVAL ndr_read_int16) (\<lambda>b.
     bnd (or_else EINVAL ndr_read_int16) (\<lambda>c.
     bnd (or_else EINVAL (ndr_read_bytes 2)) (\<lambda>cs.
     bnd (or_else EINVAL (ndr_read_bytes 6)) (\<lambda>nd.
     bnd (or_else EINVAL ndr_read_int16) (\<lambda>mj.
     bnd (or_else EINVAL ndr_read_int16) (\<lambda>mn.
     ret \<lparr>time_low = a, time_mid = b, time_hi_and_version = c, clock_seq = cs, node = nd,
          ver_major = mj, ver_minor = mn\<rparr>)))))))"

definition dcerpc_write_syntax :: "dcerpc_syntax \<Rightarrow> ('x ksmbd_dcerpc_scheme, unit) act" where
  "dcerpc_write_syntax syn =
     sq (ndr_write_int32 (time_low syn)) (sq (ndr_write_int16 (time_mid syn))
    (sq (ndr_write_int16 (time_hi_and_version syn))
    (sq (ndr_write_bytes (take 2 (clock_seq syn))) (sq (ndr_write_bytes (take 6 (node syn)))
    (sq (ndr_write_int16 (ver_major syn)) (ndr_write_int16 (ver_minor syn)))))))"

definition known_syntaxes :: "(dcerpc_syntax \<times> int) list" where
  "known_syntaxes =
    [(\<lparr>time_low = 0x8a885d04, time_mid = 0x1ceb, time_hi_and_version = 0x11c9, clock_seq = [0x9f, 0xe8],
       node = [0x08, 0x00, 0x2b, 0x10, 0x48, 0x60], ver_major = 2, ver_minor = 0\<rparr>, DCERPC_BIND_ACK_RES_ACCEPT),
     (\<lparr>time_low = 0x6CB71C2C, time_mid = 0x9812, time_hi_and_version = 0x4540, clock_seq = [0, 0],
       node = [0, 0, 0, 0, 0, 0], ver_major = 1, ver_minor = 0\<rparr>, DCERPC_BIND_ACK_RES_NEGOTIATE_ACK)]"

definition negotiate_ack_PNIO_uuid :: dcerpc_syntax where
  "negotiate_ack_PNIO_uuid = \<lparr>time_low = 0, time_mid = 0, time_hi_and_version = 0, clock_seq = [0, 0],
     node = [0, 0, 0, 0, 0, 0], ver_major = 0, ver_minor = 0\<rparr>"

definition is_dssetup_interface :: "dcerpc_syntax \<Rightarrow> bool" where
  "is_dssetup_interface syn \<longleftrightarrow> time_low syn = 0x3919286a \<and> time_mid syn = 0xb10c \<and> time_hi_and_version syn = 0x11d0"

definition dcerpc_syntax_cmp :: "dcerpc_syntax \<Rightarrow> dcerpc_syntax \<Rightarrow> int" where
  "dcerpc_syntax_cmp a b =
    (if time_low a \<noteq> time_low b then - 1
     else if time_mid a \<noteq> time_mid b then - 1
     else if time_hi_and_version a \<noteq> time_hi_and_version b then - 1
     else if take 2 (clock_seq a) \<noteq> take 2 (clock_seq b) then - 1
     else if take 6 (node a) \<noteq> take 6 (node b) then - 1
     else if ver_major a \<noteq> ver_major b then - 1
     else if ver_minor a \<noteq> ver_minor b then - 1 else 0)"

definition dcerpc_syntax_supported :: "dcerpc_syntax \<Rightarrow> int" where
  "dcerpc_syntax_supported a = (case find (\<lambda>(b, r). dcerpc_syntax_cmp a b = 0) known_syntaxes of
     None \<Rightarrow> - 1 | Some (b, r) \<Rightarrow> r)"

section \<open>Bind\<close>

text \<open>The elements that exist are those pushed so far; the loop of the C code runs over the others
  as well, whose pointer is NULL.\<close>

definition free_transfer :: "dcerpc_context \<Rightarrow> ('x, unit) pipe_act" where
  "free_transfer c = rpc_free (transfer_syntaxes c)"

definition dcerpc_bind_req_free :: "('x, unit) pipe_act" where
  "dcerpc_bind_req_free =
     bnd (get_req bi_of) (\<lambda>hdr.
     sq (if num_contexts hdr = 0 then ret () else bnd (rpc_deref (bi_list hdr)) (each free_transfer))
    (sq (rpc_free (bi_list hdr))
        (set_bi (\<lambda>h. h\<lparr>bi_list := Null, num_contexts := 0\<rparr>))))"

definition map_list :: "(dcerpc_context list \<Rightarrow> dcerpc_context list) \<Rightarrow> dcerpc_bind_request \<Rightarrow> dcerpc_bind_request" where
  "map_list f h = (case bi_list h of Blk n cs \<Rightarrow> h\<lparr>bi_list := Blk n (f cs)\<rparr> | _ \<Rightarrow> h)"

definition bind_read_context :: "('x, unit) pipe_act" where
  "bind_read_context =
     bnd (or_else EINVAL ndr_read_int16) (\<lambda>i.
     bnd (or_else EINVAL ndr_read_int8) (\<lambda>n.
     if n = 0 then fail (Err EINVAL)
     else
     bnd (or_else EINVAL dcerpc_read_syntax) (\<lambda>asyn.
     bnd rpc_alloc (\<lambda>t.
     sq (set_bi (map_list (\<lambda>cs. cs @ [\<lparr>ctx_id = i, num_syntaxes = n, abstract_syntax = asyn, transfer_syntaxes = Blk t []\<rparr>])))
    (bnd (times (unat n) (or_else EINVAL dcerpc_read_syntax)) (\<lambda>syns.
     set_bi (map_list (\<lambda>cs. butlast cs @ [(last cs)\<lparr>transfer_syntaxes := Blk t syns\<rparr>]))))))))"

definition bind_read_contexts :: "nat \<Rightarrow> ('x, unit) pipe_act" where
  "bind_read_contexts n = sq (times n bind_read_context) (ret ())"

definition dcerpc_parse_bind_req :: "('x, unit) pipe_act" where
  "dcerpc_parse_bind_req =
     bnd rpc_req_flags (\<lambda>fl. sq (set_bi (\<lambda>h. h\<lparr>bi_flags := fl\<rparr>))
    (bnd (or_else EINVAL ndr_read_int16) (\<lambda>v. sq (set_bi (\<lambda>h. h\<lparr>max_xmit_frag_sz := v\<rparr>))
    (bnd (or_else EINVAL ndr_read_int16) (\<lambda>v. sq (set_bi (\<lambda>h. h\<lparr>max_recv_frag_sz := v\<rparr>))
    (bnd (or_else EINVAL ndr_read_int32) (\<lambda>v. sq (set_bi (\<lambda>h. h\<lparr>assoc_group_id := v\<rparr>))
    (bnd (or_else EINVAL ndr_read_int8) (\<lambda>n. sq (set_bi (\<lambda>h. h\<lparr>num_contexts := n, bi_list := Null\<rparr>))
    (sq auto_align_offset
    (if n = 0 then ret ()
     else bnd rpc_alloc (\<lambda>l. sq (set_bi (\<lambda>h. h\<lparr>bi_list := Blk l []\<rparr>))
       (on_fail (bind_read_contexts (unat n)) dcerpc_bind_req_free)))))))))))))"

text \<open>The contexts of the request, and the syntaxes of a context, as the loops index them.\<close>

definition bi_contexts :: "('x, dcerpc_context list) pipe_act" where
  "bi_contexts = bnd (get_req bi_of) (\<lambda>h. if num_contexts h = 0 then ret []
     else bnd (rpc_deref (bi_list h)) (\<lambda>cs.
       if length cs < unat (num_contexts h) then fail Fault else ret (take (unat (num_contexts h)) cs)))"

definition ctx_syntaxes :: "dcerpc_context \<Rightarrow> ('x, dcerpc_syntax list) pipe_act" where
  "ctx_syntaxes c = (if num_syntaxes c = 0 then ret []
     else bnd (rpc_deref (transfer_syntaxes c)) (\<lambda>ss.
       if length ss < unat (num_syntaxes c) then fail Fault else ret (take (unat (num_syntaxes c)) ss)))"

definition dcerpc_bind_invoke :: "('x, int) pipe_act" where
  "dcerpc_bind_invoke =
     rpc_try KSMBD_RPC_EBAD_DATA dcerpc_parse_bind_req (\<lambda>_.
     bnd bi_contexts (\<lambda>cs.
     sq (case find (\<lambda>c. is_dssetup_interface (abstract_syntax c)) cs of None \<Rightarrow> ret ()
         | Some c \<Rightarrow> modify (\<lambda>d. d\<lparr>dce_dssetup_context_id := uint (ctx_id c)\<rparr>))
    (sq (modify (\<lambda>d. d\<lparr>pipe_entry_processed := No_processed\<rparr>))
        (ret KSMBD_RPC_OK))))"

text \<open>\<open>finish_bind\<close> is the common end of an answer: the header in front of what has been written.\<close>

definition finish_bind :: "u8 \<Rightarrow> ('x, int) pipe_act" where
  "finish_bind pt =
     bnd (reads (\<lambda>d. int_offset (dce_offset d))) (\<lambda>payload_offset.
     sq (goto_offset 0)
    (sq (set_hdr (\<lambda>h. h\<lparr>ptype := pt, pfc_flags := DCERPC_PFC_FIRST_FRAG OR DCERPC_PFC_LAST_FRAG,
          frag_length := ucast payload_offset\<rparr>))
    (rpc_try KSMBD_RPC_EBAD_DATA (bnd (reads dce_hdr) dcerpc_hdr_write) (\<lambda>_.
     sq (set_offset payload_offset)
    (sq (modify (\<lambda>d. d\<lparr>dce_resp_payload_sz := ucast (dce_offset d)\<rparr>))
        (ret KSMBD_RPC_OK))))))"

definition dcerpc_bind_nack_return :: "('x, int) pipe_act" where
  "dcerpc_bind_nack_return =
     sq (goto_offset sizeof_dcerpc_header)
    (rpc_try KSMBD_RPC_EBAD_DATA (ndr_write_int16 DCERPC_BIND_NAK_RSN_PROTOCOL_VERSION_NOT_SUPPORTED) (\<lambda>_.
     rpc_try KSMBD_RPC_EBAD_DATA (ndr_write_int8 (word_of_nat (length known_syntaxes))) (\<lambda>_.
     sq auto_align_offset
    (rpc_try KSMBD_RPC_EBAD_DATA
       (each (\<lambda>(s, _). sq (ndr_write_int8 (ucast (ver_major s))) (ndr_write_int8 (ucast (ver_minor s)))) known_syntaxes) (\<lambda>_.
     finish_bind DCERPC_PTYPE_RPC_BINDNACK)))))"

definition pipe_name :: "u32 \<Rightarrow> bytes option" where
  "pipe_name flags =
    (if flags AND KSMBD_RPC_SRVSVC_METHOD_INVOKE \<noteq> 0 then Some [0x5C, 0x50, 0x49, 0x50, 0x45, 0x5C, 0x73, 0x72, 0x76, 0x73, 0x76, 0x63]
     else if flags AND KSMBD_RPC_WKSSVC_METHOD_INVOKE \<noteq> 0 then Some [0x5C, 0x50, 0x49, 0x50, 0x45, 0x5C, 0x77, 0x6B, 0x73, 0x73, 0x76, 0x63]
     else if flags AND KSMBD_RPC_SAMR_METHOD_INVOKE \<noteq> 0 then Some [0x5C, 0x50, 0x49, 0x50, 0x45, 0x5C, 0x73, 0x61, 0x6D, 0x72]
     else if flags AND KSMBD_RPC_LSARPC_METHOD_INVOKE \<noteq> 0 then Some [0x5C, 0x50, 0x49, 0x50, 0x45, 0x5C, 0x6C, 0x73, 0x61, 0x72, 0x70, 0x63]
     else None)"

text \<open>One context of the answer: the first transfer syntax that is supported decides.\<close>

definition bind_ack_context :: "dcerpc_context \<Rightarrow> ('x, unit) pipe_act" where
  "bind_ack_context c =
     bnd (ctx_syntaxes c) (\<lambda>ss.
     case find (\<lambda>s. dcerpc_syntax_supported s \<ge> 0) ss of
       None \<Rightarrow> bnd (rpc_deref (transfer_syntaxes c)) (\<lambda>ss. if ss = [] then fail Fault else
         sq (ndr_write_union_int16 (word_of_int DCERPC_BIND_ACK_RES_PROVIDER_REJECT)) (dcerpc_write_syntax (hd ss)))
     | Some s \<Rightarrow> let result = dcerpc_syntax_supported s in
         if result = DCERPC_BIND_ACK_RES_ACCEPT
         then sq (ndr_write_union_int16 (word_of_int result)) (dcerpc_write_syntax s)
         else if result = DCERPC_BIND_ACK_RES_NEGOTIATE_ACK
         then sq (ndr_write_int16 (word_of_int result)) (sq (ndr_write_int16 0) (dcerpc_write_syntax negotiate_ack_PNIO_uuid))
         else dcerpc_write_syntax s)"

definition bind_ack_address :: "bytes \<Rightarrow> ('x, unit) pipe_act" where
  "bind_ack_address addr =
     bnd (reads (\<lambda>d. ptype (dce_hdr d))) (\<lambda>pt.
     if pt = DCERPC_PTYPE_RPC_ALTCONT then sq (ndr_write_int16 0) (ndr_write_int16 0)
     else sq (ndr_write_int16 (word_of_nat (length addr))) (ndr_write_bytes addr))"

definition dcerpc_bind_ack_return :: "('x, int) pipe_act" where
  "dcerpc_bind_ack_return =
     sq (goto_offset sizeof_dcerpc_header)
    (sq (set_bi (\<lambda>h. if assoc_group_id h = 0 then h\<lparr>assoc_group_id := 0x53f0\<rparr> else h))
    (bnd (get_req bi_of) (\<lambda>h.
     rpc_try KSMBD_RPC_EBAD_DATA (ndr_write_int16 (max_xmit_frag_sz h)) (\<lambda>_.
     rpc_try KSMBD_RPC_EBAD_DATA (ndr_write_int16 (max_recv_frag_sz h)) (\<lambda>_.
     rpc_try KSMBD_RPC_EBAD_DATA (ndr_write_int32 (assoc_group_id h)) (\<lambda>_.
     case pipe_name (bi_flags h) of None \<Rightarrow> ret KSMBD_RPC_EBAD_FUNC
     | Some addr \<Rightarrow>
     rpc_try KSMBD_RPC_EBAD_DATA (bind_ack_address addr) (\<lambda>_.
     sq (align_offset 4)
    (rpc_try KSMBD_RPC_EBAD_DATA (ndr_write_int8 (num_contexts h)) (\<lambda>_.
     sq (align_offset 2)
    (bnd bi_contexts (\<lambda>cs.
     rpc_try KSMBD_RPC_EBAD_DATA (each bind_ack_context cs) (\<lambda>_.
     bnd (reads (\<lambda>d. ptype (dce_hdr d))) (\<lambda>pt.
     finish_bind (if pt = DCERPC_PTYPE_RPC_ALTCONT then DCERPC_PTYPE_RPC_ALTCONTRESP else DCERPC_PTYPE_RPC_BINDACK))))))))))))))"

definition ctx_acceptable :: "dcerpc_context \<Rightarrow> ('x, bool) pipe_act" where
  "ctx_acceptable c = bnd (ctx_syntaxes c) (\<lambda>ss. ret (list_ex (\<lambda>a. dcerpc_syntax_supported a \<noteq> - 1) ss))"

fun any_ctx :: "dcerpc_context list \<Rightarrow> ('x, bool) pipe_act" where
  "any_ctx [] = ret False"
| "any_ctx (c # cs) = bnd (ctx_acceptable c) (\<lambda>a. bnd (any_ctx cs) (\<lambda>b. ret (a \<or> b)))"

definition dcerpc_bind_return :: "('x, int) pipe_act" where
  "dcerpc_bind_return =
     bnd (bnd bi_contexts any_ctx) (\<lambda>ack.
     bnd (if ack then dcerpc_bind_ack_return else dcerpc_bind_nack_return) (\<lambda>r.
     sq dcerpc_bind_req_free (ret r)))"

section \<open>Triples for pipes\<close>

lemma valid_rpc_try:
  assumes "valid P m R E'" and "\<And>x. valid (R x) (f x) Q E" and "\<And>s. E' s \<Longrightarrow> Q st s"
  shows "valid P (rpc_try st m f) Q E"
proof (rule validI)
  fix s assume "P s"
  note m = validD [OF assms(1) this]
  obtain r t where r: "m s = (r, t)" by (cases "m s")
  show "case rpc_try st m f s of (Inr x, t) \<Rightarrow> Q x t | (Inl (Err e), t) \<Rightarrow> E t | (Inl Fault, t) \<Rightarrow> False"
  proof (cases r)
    case (Inl e)
    with m r assms(3) show ?thesis by (simp add: rpc_try_def split: cerr.splits)
  next
    case (Inr x)
    with m r have "R x t" by simp
    from validD [OF assms(2) this] Inr r show ?thesis by (simp add: rpc_try_def)
  qed
qed

lemma valid_on_fail:
  assumes "valid P m Q E'" and "valid E' h (\<lambda>_. E) (\<lambda>_. False)"
  shows "valid P (on_fail m h) Q E"
proof (rule validI)
  fix s assume "P s"
  note m = validD [OF assms(1) this]
  obtain r t where r: "m s = (r, t)" by (cases "m s")
  show "case on_fail m h s of (Inr x, t) \<Rightarrow> Q x t | (Inl (Err e), t) \<Rightarrow> E t | (Inl Fault, t) \<Rightarrow> False"
  proof (cases r)
    case (Inr x)
    with m r show ?thesis by (simp add: on_fail_def)
  next
    case (Inl e)
    with m r have "e \<noteq> Fault" and e: "E' t" by (auto split: cerr.splits)
    from valid_returns [OF assms(2) e] obtain u where "h t = (Inr (), u)" "E u" by auto
    with Inl r \<open>e \<noteq> Fault\<close> show ?thesis by (cases e) (simp_all add: on_fail_def fail_def)
  qed
qed

text \<open>Marshalling moves the cursor and writes bytes; whatever does not look at these two is kept.\<close>

definition steady :: "('x ksmbd_dcerpc_scheme \<Rightarrow> bool) \<Rightarrow> bool" where
  "steady R \<longleftrightarrow> (\<forall>d k p. R (d\<lparr>dce_offset := k, dce_payload := p\<rparr>) = R d)"

lemma steadyD: "steady R \<Longrightarrow> ndr_step d d' \<Longrightarrow> R d \<Longrightarrow> R d'"
  unfolding steady_def ndr_step_def by metis

lemma valid_ndr:
  assumes "ndr_safe m" and "ndr_forward m" and "steady R"
  shows "valid (\<lambda>d. ndr_inv d \<and> R d) m (\<lambda>_ d. ndr_inv d \<and> R d) (\<lambda>d. ndr_inv d \<and> R d)"
proof (rule validI, elim conjE)
  fix d assume d: "ndr_inv d" "R d"
  obtain r t where m: "m d = (r, t)" by (cases "m d")
  have "r \<noteq> Inl Fault" "ndr_inv t"
    using ndr_safeD [OF assms(1) d(1) m] by simp_all
  moreover have "R t"
    by (rule steadyD [OF assms(3) ndr_forwardD [OF assms(2) d(1) m] d(2)])
  ultimately show "case m d of (Inr x, t) \<Rightarrow> ndr_inv t \<and> R t | (Inl (Err e), t) \<Rightarrow> ndr_inv t \<and> R t | (Inl Fault, t) \<Rightarrow> False"
    by (cases r) (auto simp: m split: cerr.splits)
qed

lemma ndr_bytes_small: "n < 2 ^ 62 \<Longrightarrow> ndr_safe (ndr_read_bytes n)" "n < 2 ^ 62 \<Longrightarrow> ndr_forward (ndr_read_bytes n)"
  by (simp_all add: ndr_read_bytes_safe)

lemma dcerpc_read_syntax_safe [ndr_safe]: "ndr_safe dcerpc_read_syntax" "ndr_forward dcerpc_read_syntax"
  unfolding dcerpc_read_syntax_def by (intro ndr_safe; simp)+

lemma dcerpc_write_syntax_safe [ndr_safe]: "ndr_safe (dcerpc_write_syntax s)" "ndr_forward (dcerpc_write_syntax s)"
  unfolding dcerpc_write_syntax_def by (intro ndr_safe; simp)+

lemma dcerpc_hdr_write_safe [ndr_safe]: "ndr_safe (dcerpc_hdr_write h)" "ndr_forward (dcerpc_hdr_write h)"
  unfolding dcerpc_hdr_write_def by (intro ndr_safe; simp)+

lemma dcerpc_response_hdr_write_safe [ndr_safe]:
  "ndr_safe (dcerpc_response_hdr_write h)" "ndr_forward (dcerpc_response_hdr_write h)"
  unfolding dcerpc_response_hdr_write_def by (intro ndr_safe; simp)+

end
