(* ===== verification/Dcerpc_Bind.thy ===== *)
theory Dcerpc_Bind
  imports Dcerpc
begin

text \<open>
  What the bind handshake does with memory.  The parser of \<open>Dcerpc\<close> and the code that answers
  are shown, for every request and every response buffer, to stay inside the buffers, to follow
  only pointers to blocks in use, and to release at the end exactly what the parser allocated.
  A last section reads back the header that the answers carry.
\<close>

section \<open>The memory of a bind request\<close>

definition tok :: "'a cptr \<Rightarrow> nat list" where
  "tok p = (case p of Blk n _ \<Rightarrow> [n] | _ \<Rightarrow> [])"

definition bi_blocks :: "dcerpc_bind_request \<Rightarrow> nat list" where
  "bi_blocks b = (case bi_list b of Blk n cs \<Rightarrow> n # concat (map (\<lambda>c. tok (transfer_syntaxes c)) cs) | _ \<Rightarrow> [])"

text \<open>\<open>owns L bs d\<close>: the blocks in use are those of \<open>L\<close> and, apart from them, those listed.\<close>

definition owns :: "nat set \<Rightarrow> nat list \<Rightarrow> 'x ksmbd_rpc_pipe_scheme \<Rightarrow> bool" where
  "owns L bs d \<longleftrightarrow> distinct bs \<and> L \<inter> set bs = {} \<and> rpc_live d = L \<union> set bs \<and> (\<forall>n\<in>rpc_live d. n < rpc_next d)"

lemma owns_alloc:
  assumes "owns L bs d"
  shows "owns L (bs @ [rpc_next d]) (snd (rpc_alloc d))"
  using assms by (auto simp: owns_def rpc_alloc_def less_Suc_eq)

lemma rpc_alloc_eq: "rpc_alloc d = (Inr (rpc_next d), snd (rpc_alloc d))"
  by (simp add: rpc_alloc_def)

lemma rpc_free_blocks:
  assumes "owns L (tok p @ bs) d" and "p \<noteq> Wild"
  shows "\<exists>d'. rpc_free p d = (Inr (), d') \<and> owns L bs d' \<and> d' = d\<lparr>rpc_live := rpc_live d'\<rparr>"
proof (cases p)
  case (Blk n x)
  with assms have "n \<in> rpc_live d" and "owns L bs (d\<lparr>rpc_live := rpc_live d - {n}\<rparr>)"
    by (auto simp: owns_def tok_def)
  with Blk show ?thesis by (auto simp: rpc_free_def)
qed (use assms in \<open>auto simp: rpc_free_def tok_def\<close>)

lemma live_trans: "e = d\<lparr>rpc_live := l\<rparr> \<Longrightarrow> f = e\<lparr>rpc_live := m\<rparr> \<Longrightarrow> f = d\<lparr>rpc_live := m\<rparr>"
  by simp

lemma free_transfers:
  assumes "owns L (concat (map (\<lambda>c. tok (transfer_syntaxes c)) cs) @ bs) d"
    and "\<forall>c\<in>set cs. transfer_syntaxes c \<noteq> Wild"
  shows "\<exists>d'. each free_transfer cs d = (Inr (), d') \<and> owns L bs d' \<and> d' = d\<lparr>rpc_live := rpc_live d'\<rparr>"
  using assms
proof (induction cs arbitrary: d)
  case Nil
  then show ?case by (simp add: ret_def)
next
  case (Cons c cs)
  from rpc_free_blocks [of L "transfer_syntaxes c" _ d] Cons.prems obtain e where
    e: "rpc_free (transfer_syntaxes c) d = (Inr (), e)" "e = d\<lparr>rpc_live := rpc_live e\<rparr>"
    and o: "owns L (concat (map (\<lambda>c. tok (transfer_syntaxes c)) cs) @ bs) e"
    by auto
  from Cons.IH [OF o] Cons.prems(2) obtain d' where
    "each free_transfer cs e = (Inr (), d')" "owns L bs d'" "d' = e\<lparr>rpc_live := rpc_live d'\<rparr>" by auto
  moreover have "d' = d\<lparr>rpc_live := rpc_live d'\<rparr>" by (rule live_trans [OF e(2) calculation(3)])
  moreover have "free_transfer c d = (Inr (), e)"
    using e(1) by (simp add: free_transfer_def)
  ultimately show ?case by auto
qed

definition bi_held :: "nat set \<Rightarrow> 'x ksmbd_rpc_pipe_scheme \<Rightarrow> bool" where
  "bi_held L d \<longleftrightarrow> (\<exists>b v. dce_req d = Bi_req b v \<and> owns L (bi_blocks b) d \<and>
     (num_contexts b = 0 \<and> bi_list b = Null \<or>
      (\<exists>n cs. bi_list b = Blk n cs \<and> num_contexts b \<noteq> 0 \<and> (\<forall>c\<in>set cs. transfer_syntaxes c \<noteq> Wild))))"

definition bi_clear :: "nat set \<Rightarrow> 'x ksmbd_rpc_pipe_scheme \<Rightarrow> bool" where
  "bi_clear L d \<longleftrightarrow> (\<exists>b v. dce_req d = Bi_req b v \<and> owns L [] d \<and> num_contexts b = 0 \<and> bi_list b = Null)"

lemma steady_held [simp]: "steady (bi_held L)" "steady (bi_clear L)"
  by (simp_all add: steady_def bi_held_def bi_clear_def owns_def)

lemma ndr_inv_rpc [simp]:
  "ndr_inv (d\<lparr>rpc_live := l\<rparr>) = ndr_inv d" "ndr_inv (d\<lparr>dce_req := r\<rparr>) = ndr_inv d"
  "ndr_inv (d\<lparr>rpc_next := n\<rparr>) = ndr_inv d" "ndr_inv (d\<lparr>dce_hdr := h\<rparr>) = ndr_inv d"
  "ndr_inv (d\<lparr>dce_req_hdr := q\<rparr>) = ndr_inv d" "ndr_inv (d\<lparr>dce_resp_payload_sz := z\<rparr>) = ndr_inv d"
  "ndr_inv (d\<lparr>dce_dssetup_context_id := i\<rparr>) = ndr_inv d" "ndr_inv (d\<lparr>pipe_entry_processed := p\<rparr>) = ndr_inv d"
  by (simp_all add: ndr_inv_def dce_test_def)

lemma bind_req_free_valid:
  "valid (\<lambda>d. ndr_inv d \<and> bi_held L d) dcerpc_bind_req_free (\<lambda>_ d. ndr_inv d \<and> bi_clear L d) (\<lambda>_. False)"
proof (rule validI, elim conjE)
  fix d :: "'a ksmbd_rpc_pipe_scheme"
  assume d: "ndr_inv d" and h: "bi_held L d"
  then obtain b v where u: "dce_req d = Bi_req b v" and o: "owns L (bi_blocks b) d"
    and c: "num_contexts b = 0 \<and> bi_list b = Null \<or>
      (\<exists>n cs. bi_list b = Blk n cs \<and> num_contexts b \<noteq> 0 \<and> (\<forall>c\<in>set cs. transfer_syntaxes c \<noteq> Wild))"
    by (auto simp: bi_held_def)
  from c have "\<exists>e. dcerpc_bind_req_free d = (Inr (), e) \<and> ndr_inv e \<and> bi_clear L e"
  proof (elim disjE exE conjE)
    assume "num_contexts b = 0" "bi_list b = Null"
    with u o d show ?thesis
      by (simp add: dcerpc_bind_req_free_def get_req_def set_bi_def bi_of_def bi_under_def bnd_def sq_def ret_def
          rpc_free_def modify_def bi_clear_def bi_blocks_def owns_def)
  next
    fix n cs assume b: "bi_list b = Blk n cs" "num_contexts b \<noteq> 0" "\<forall>c\<in>set cs. transfer_syntaxes c \<noteq> Wild"
    let ?t = "concat (map (\<lambda>c. tok (transfer_syntaxes c)) cs)"
    have "owns L (?t @ [n]) d" and n: "n \<in> rpc_live d"
      using o b(1) by (auto simp: owns_def bi_blocks_def)
    from free_transfers [OF this(1) b(3)] obtain e where e: "each free_transfer cs d = (Inr (), e)"
      and oe: "owns L [n] e" and de: "e = d\<lparr>rpc_live := rpc_live e\<rparr>" by auto
    have ue: "dce_req e = Bi_req b v" by (subst de) (simp add: u)
    from de d have ie: "ndr_inv e" by (metis ndr_inv_rpc(1))
    show ?thesis
      using u b n e oe ue ie
      by (auto simp: dcerpc_bind_req_free_def get_req_def set_bi_def bi_of_def bi_under_def bnd_def sq_def
          rpc_free_def rpc_deref_def modify_def bi_clear_def owns_def)
  qed
  then show "case dcerpc_bind_req_free d of (Inr x, t) \<Rightarrow> ndr_inv t \<and> bi_clear L t | (Inl (Err e), t) \<Rightarrow> False | (Inl Fault, t) \<Rightarrow> False"
    by auto
qed

text \<open>A context as the parser leaves it, and the parser between two contexts.\<close>

definition ctx_ok :: "dcerpc_context \<Rightarrow> bool" where
  "ctx_ok c \<longleftrightarrow> (\<exists>t ss. transfer_syntaxes c = Blk t ss \<and> num_syntaxes c \<noteq> 0 \<and> length ss = unat (num_syntaxes c))"

definition bi_loop :: "u8 \<Rightarrow> nat set \<Rightarrow> nat \<Rightarrow> 'x ksmbd_rpc_pipe_scheme \<Rightarrow> bool" where
  "bi_loop m L i d \<longleftrightarrow> (\<exists>b v n cs. dce_req d = Bi_req b v \<and> bi_list b = Blk n cs \<and> length cs = i \<and> (\<forall>c\<in>set cs. ctx_ok c)
     \<and> num_contexts b = m \<and> m \<noteq> 0 \<and> owns L (bi_blocks b) d)"

definition bi_ready :: "nat set \<Rightarrow> 'x ksmbd_rpc_pipe_scheme \<Rightarrow> bool" where
  "bi_ready L d \<longleftrightarrow> bi_clear L d \<or> (\<exists>m. bi_loop m L (unat m) d)"

lemma steady_loop [simp]: "steady (bi_loop m L i)" "steady (bi_ready L)"
  by (simp_all add: steady_def bi_ready_def bi_clear_def bi_loop_def owns_def)

lemma ctx_ok_not_wild: "ctx_ok c \<Longrightarrow> transfer_syntaxes c \<noteq> Wild"
  by (auto simp: ctx_ok_def)

lemma bi_loop_held: "bi_loop m L i d \<Longrightarrow> bi_held L d"
  unfolding bi_loop_def bi_held_def using ctx_ok_not_wild by blast

lemma bi_ready_held: "bi_ready L d \<Longrightarrow> bi_held L d"
  by (auto simp: bi_ready_def bi_loop_held) (auto simp: bi_clear_def bi_held_def bi_blocks_def)

lemma valid_ndr_E:
  assumes "ndr_safe m" and "ndr_forward m" and "steady R" and "\<And>d. ndr_inv d \<Longrightarrow> R d \<Longrightarrow> E d"
  shows "valid (\<lambda>d. ndr_inv d \<and> R d) m (\<lambda>_ d. ndr_inv d \<and> R d) E"
  by (rule valid_conseq [OF valid_ndr [OF assms(1-3)]]) (use assms(4) in auto)

lemma valid_times:
  assumes "valid P m (\<lambda>_. P) E"
  shows "valid P (times n m) (\<lambda>xs s. P s \<and> length xs = n) E"
proof (induction n)
  case 0
  show ?case by (simp add: valid_ret)
next
  case (Suc n)
  show ?case
    by (auto intro!: valid_bnd [OF assms] valid_bnd [OF Suc] valid_ret)
qed

definition bi_pushed :: "u8 \<Rightarrow> nat set \<Rightarrow> nat \<Rightarrow> u8 \<Rightarrow> nat \<Rightarrow> 'x ksmbd_rpc_pipe_scheme \<Rightarrow> bool" where
  "bi_pushed m L i k t d \<longleftrightarrow> (\<exists>b v n cs c. dce_req d = Bi_req b v \<and> bi_list b = Blk n (cs @ [c]) \<and> length cs = i
     \<and> (\<forall>c\<in>set cs. ctx_ok c) \<and> transfer_syntaxes c = Blk t [] \<and> num_syntaxes c = k \<and> k \<noteq> 0
     \<and> num_contexts b = m \<and> m \<noteq> 0 \<and> owns L (bi_blocks b) d)"

lemma steady_pushed [simp]: "steady (bi_pushed m L i k t)"
  by (simp add: steady_def bi_pushed_def owns_def)

lemma bi_pushed_held: "bi_pushed m L i k t d \<Longrightarrow> bi_held L d"
proof -
  assume "bi_pushed m L i k t d"
  then obtain b v n cs c where "dce_req d = Bi_req b v" "bi_list b = Blk n (cs @ [c])" "\<forall>c\<in>set cs. ctx_ok c"
    "transfer_syntaxes c = Blk t []" "num_contexts b \<noteq> 0" "owns L (bi_blocks b) d"
    by (auto simp: bi_pushed_def)
  then show ?thesis
    unfolding bi_held_def using ctx_ok_not_wild by fastforce
qed

lemma bind_push_valid:
  assumes "k \<noteq> 0"
  shows "valid (\<lambda>d. ndr_inv d \<and> bi_loop m L i d)
    (bnd rpc_alloc (\<lambda>t. sq (set_bi (map_list (\<lambda>cs. cs @ [\<lparr>ctx_id = j, num_syntaxes = k, abstract_syntax = asyn,
       transfer_syntaxes = Blk t []\<rparr>]))) (ret t)))
    (\<lambda>t d. ndr_inv d \<and> bi_pushed m L i k t d) E"
proof (rule validI, elim conjE)
  fix d :: "'a ksmbd_rpc_pipe_scheme"
  assume d: "ndr_inv d" and l: "bi_loop m L i d"
  then obtain b v n cs where b: "dce_req d = Bi_req b v" "bi_list b = Blk n cs" "length cs = i" "\<forall>c\<in>set cs. ctx_ok c"
    "num_contexts b = m" "m \<noteq> 0" "owns L (bi_blocks b) d"
    by (auto simp: bi_loop_def)
  let ?c = "\<lparr>ctx_id = j, num_syntaxes = k, abstract_syntax = asyn, transfer_syntaxes = Blk (rpc_next d) []\<rparr>"
  let ?b = "b\<lparr>bi_list := Blk n (cs @ [?c])\<rparr>"
  let ?e = "(snd (rpc_alloc d))\<lparr>dce_req := Bi_req ?b v\<rparr>"
  have blocks: "bi_blocks ?b = bi_blocks b @ [rpc_next d]"
    using b(2) by (simp add: bi_blocks_def tok_def)
  have "owns L (bi_blocks b @ [rpc_next d]) (snd (rpc_alloc d))"
    by (rule owns_alloc [OF b(7)])
  then have "bi_pushed m L i k (rpc_next d) ?e"
    unfolding bi_pushed_def using b assms blocks
    by (intro exI [of _ ?b] exI [of _ v] exI [of _ n] exI [of _ cs] exI [of _ ?c]) (simp add: owns_def)
  then show "case bnd rpc_alloc (\<lambda>t. sq (set_bi (map_list (\<lambda>cs. cs @ [\<lparr>ctx_id = j, num_syntaxes = k, abstract_syntax = asyn,
       transfer_syntaxes = Blk t []\<rparr>]))) (ret t)) d of (Inr t, e) \<Rightarrow> ndr_inv e \<and> bi_pushed m L i k t e
       | (Inl (Err _), e) \<Rightarrow> E e | (Inl Fault, e) \<Rightarrow> False"
    using b(1,2) d by (simp add: bnd_def sq_def rpc_alloc_def set_bi_def get_req_def bi_of_def bi_under_def modify_def
        map_list_def ret_def)
qed

lemma bind_fill_valid:
  assumes "length syns = unat k"
  shows "valid (\<lambda>d. ndr_inv d \<and> bi_pushed m L i k t d)
    (set_bi (map_list (\<lambda>cs. butlast cs @ [(last cs)\<lparr>transfer_syntaxes := Blk t syns\<rparr>])))
    (\<lambda>_ d. ndr_inv d \<and> bi_loop m L (Suc i) d) E"
proof (rule validI, elim conjE)
  fix d :: "'a ksmbd_rpc_pipe_scheme"
  assume d: "ndr_inv d" and "bi_pushed m L i k t d"
  then obtain b v n cs c where b: "dce_req d = Bi_req b v" "bi_list b = Blk n (cs @ [c])" "length cs = i" "\<forall>c\<in>set cs. ctx_ok c"
    "transfer_syntaxes c = Blk t []" "num_syntaxes c = k" "k \<noteq> 0" "num_contexts b = m" "m \<noteq> 0" "owns L (bi_blocks b) d"
    by (auto simp: bi_pushed_def)
  let ?b = "b\<lparr>bi_list := Blk n (cs @ [c\<lparr>transfer_syntaxes := Blk t syns\<rparr>])\<rparr>"
  have "bi_blocks ?b = bi_blocks b"
    using b(2,5) by (simp add: bi_blocks_def tok_def)
  then have "bi_loop m L (Suc i) (d\<lparr>dce_req := Bi_req ?b v\<rparr>)"
    unfolding bi_loop_def using b assms
    by (intro exI [of _ ?b] exI [of _ v] exI [of _ n] exI [of _ "cs @ [c\<lparr>transfer_syntaxes := Blk t syns\<rparr>]"])
      (auto simp: owns_def ctx_ok_def)
  then show "case set_bi (map_list (\<lambda>cs. butlast cs @ [(last cs)\<lparr>transfer_syntaxes := Blk t syns\<rparr>])) d of
       (Inr _, e) \<Rightarrow> ndr_inv e \<and> bi_loop m L (Suc i) e | (Inl (Err _), e) \<Rightarrow> E e | (Inl Fault, e) \<Rightarrow> False"
    using b(1,2) d by (simp add: set_bi_def get_req_def bi_of_def bi_under_def bnd_def modify_def map_list_def)
qed

lemma bind_read_context_eq:
  "bind_read_context =
     bnd (or_else EINVAL ndr_read_int16) (\<lambda>i. bnd (or_else EINVAL ndr_read_int8) (\<lambda>n.
     if n = 0 then fail (Err EINVAL) else bnd (or_else EINVAL dcerpc_read_syntax) (\<lambda>asyn.
     bnd (bnd rpc_alloc (\<lambda>t. sq (set_bi (map_list (\<lambda>cs. cs @ [\<lparr>ctx_id = i, num_syntaxes = n, abstract_syntax = asyn,
        transfer_syntaxes = Blk t []\<rparr>]))) (ret t))) (\<lambda>t.
     bnd (times (unat n) (or_else EINVAL dcerpc_read_syntax)) (\<lambda>syns.
     set_bi (map_list (\<lambda>cs. butlast cs @ [(last cs)\<lparr>transfer_syntaxes := Blk t syns\<rparr>])))))))"
  by (simp add: bind_read_context_def sq_def bnd_assoc cong: if_cong)

lemma bi_loop_ndr:
  assumes "ndr_safe x" and "ndr_forward x"
  shows "valid (\<lambda>d. ndr_inv d \<and> bi_loop m L i d) x (\<lambda>_ d. ndr_inv d \<and> bi_loop m L i d) (\<lambda>d. ndr_inv d \<and> bi_held L d)"
  using assms by (intro valid_ndr_E) (simp_all add: bi_loop_held)

lemma bind_syntaxes_valid:
  "valid (\<lambda>d. ndr_inv d \<and> bi_pushed m L i k t d) (times (unat k) (or_else EINVAL dcerpc_read_syntax))
     (\<lambda>xs d. (ndr_inv d \<and> bi_pushed m L i k t d) \<and> length xs = unat k) (\<lambda>d. ndr_inv d \<and> bi_held L d)"
  by (intro valid_times valid_ndr_E ndr_safe) (simp_all add: bi_pushed_held)

lemma bind_read_context_valid:
  "valid (\<lambda>d. ndr_inv d \<and> bi_loop m L i d) bind_read_context (\<lambda>_ d. ndr_inv d \<and> bi_loop m L (Suc i) d)
     (\<lambda>d. ndr_inv d \<and> bi_held L d)"
  unfolding bind_read_context_eq
  apply (rule valid_bnd [OF bi_loop_ndr], intro ndr_safe, intro ndr_safe)
  apply (rule valid_bnd [OF bi_loop_ndr], intro ndr_safe, intro ndr_safe)
  apply (rule valid_if)
   apply (rule valid_fail, blast intro: bi_loop_held)
  apply (rule valid_bnd [OF bi_loop_ndr], intro ndr_safe, intro ndr_safe)
  apply (rule valid_bnd [OF bind_push_valid], assumption)
  apply (rule valid_bnd [OF bind_syntaxes_valid])
  apply (rule validI, elim conjE)
  apply (rule validD [OF bind_fill_valid], assumption, simp)
  done

lemma bind_read_contexts_valid:
  "valid (\<lambda>d. ndr_inv d \<and> bi_loop m L i d) (times n bind_read_context) (\<lambda>_ d. ndr_inv d \<and> bi_loop m L (i + n) d)
     (\<lambda>d. ndr_inv d \<and> bi_held L d)"
proof (induction n arbitrary: i)
  case 0
  show ?case by (simp add: valid_ret)
next
  case (Suc n)
  show ?case
    by (simp, rule valid_bnd [OF bind_read_context_valid valid_bnd [OF Suc valid_ret]]) simp
qed

text \<open>Whatever the bytes are, the parser stays inside the payload; it ends with the blocks of a
  complete request, or with none.\<close>

definition bi_free :: "nat set \<Rightarrow> 'x ksmbd_rpc_pipe_scheme \<Rightarrow> bool" where
  "bi_free L d \<longleftrightarrow> (\<exists>b. bi_of (dce_req d) = Some b \<and> num_contexts b = 0 \<and> bi_list b = Null) \<and> owns L [] d"

lemma steady_free [simp]: "steady (bi_free L)"
  by (simp add: steady_def bi_free_def owns_def)

lemma set_bi_scalar:
  assumes "\<And>b. num_contexts (f b) = num_contexts b \<and> bi_list (f b) = bi_list b"
  shows "valid (\<lambda>d. ndr_inv d \<and> bi_free L d) (set_bi f) (\<lambda>_ d. ndr_inv d \<and> bi_clear L d) E"
  by (rule validI) (auto simp: set_bi_def get_req_def bi_free_def bnd_def modify_def bi_clear_def assms owns_def)

lemma bi_clear_free: "bi_clear L d \<Longrightarrow> bi_free L d"
  by (auto simp: bi_clear_def bi_free_def bi_of_def)

lemma rpc_req_flags_valid:
  "(\<And>d. P d \<Longrightarrow> dce_rpc_req d \<noteq> None) \<Longrightarrow> valid P rpc_req_flags (\<lambda>_. P) E"
  by (rule validI) (auto simp: rpc_req_flags_def split: option.split)

lemma set_bi_clear:
  assumes "\<And>b. num_contexts (f b) = num_contexts b \<and> bi_list (f b) = bi_list b"
  shows "valid (\<lambda>d. ndr_inv d \<and> bi_clear L d) (set_bi f) (\<lambda>_ d. ndr_inv d \<and> bi_clear L d) E"
  by (rule valid_pre [OF set_bi_scalar [OF assms]]) (auto simp: bi_clear_free)

lemma clear_ndr:
  assumes "ndr_safe x" and "ndr_forward x"
  shows "valid (\<lambda>d. ndr_inv d \<and> bi_clear L d) x (\<lambda>_ d. ndr_inv d \<and> bi_clear L d) (\<lambda>d. ndr_inv d \<and> bi_clear L d)"
  using assms by (intro valid_ndr_E) simp_all

definition bi_counted :: "u8 \<Rightarrow> nat set \<Rightarrow> 'x ksmbd_rpc_pipe_scheme \<Rightarrow> bool" where
  "bi_counted n L d \<longleftrightarrow> (\<exists>b v. dce_req d = Bi_req b v \<and> owns L [] d \<and> num_contexts b = n \<and> bi_list b = Null)"

lemma bi_counted_0: "bi_counted 0 L d = bi_clear L d"
  by (auto simp: bi_counted_def bi_clear_def)

lemma bi_count_valid:
  "valid (\<lambda>d. ndr_inv d \<and> bi_clear L d) (set_bi (\<lambda>h. h\<lparr>num_contexts := n, bi_list := Null\<rparr>))
     (\<lambda>_ d. ndr_inv d \<and> bi_counted n L d) E"
  by (rule validI) (auto simp: set_bi_def get_req_def bi_of_def bi_under_def bi_clear_def bnd_def modify_def bi_counted_def owns_def)

lemma valid_align:
  assumes "steady R"
  shows "valid (\<lambda>d. ndr_inv d \<and> R d) auto_align_offset (\<lambda>_ d. ndr_inv d \<and> R d) E"
proof (rule validI, elim conjE)
  fix d assume d: "ndr_inv d" "R d"
  obtain t where t: "auto_align_offset d = (Inr (), t)"
    using auto_align_offset_eq [OF d(1)] by blast
  with ndr_safeD [OF auto_align_offset_safe(1) d(1) t] steadyD [OF assms ndr_forwardD [OF auto_align_offset_safe(2) d(1) t] d(2)]
  show "case auto_align_offset d of (Inr x, t) \<Rightarrow> ndr_inv t \<and> R t | (Inl (Err e), t) \<Rightarrow> E t | (Inl Fault, t) \<Rightarrow> False"
    by simp
qed

lemma steady_counted [simp]: "steady (bi_counted n L)"
  by (simp add: steady_def bi_counted_def owns_def)

lemma bi_start_valid:
  assumes "n \<noteq> 0"
  shows "valid (\<lambda>d. ndr_inv d \<and> bi_counted n L d) (bnd rpc_alloc (\<lambda>l. set_bi (\<lambda>h. h\<lparr>bi_list := Blk l []\<rparr>)))
     (\<lambda>_ d. ndr_inv d \<and> bi_loop n L 0 d) E"
proof (rule validI, elim conjE)
  fix d :: "'a ksmbd_rpc_pipe_scheme"
  assume d: "ndr_inv d" and "bi_counted n L d"
  then obtain b v where b: "dce_req d = Bi_req b v" "owns L [] d" "num_contexts b = n" "bi_list b = Null"
    by (auto simp: bi_counted_def)
  let ?b = "b\<lparr>bi_list := Blk (rpc_next d) []\<rparr>"
  have "owns L [rpc_next d] (snd (rpc_alloc d))"
    using owns_alloc [OF b(2)] by simp
  then have "bi_loop n L 0 ((snd (rpc_alloc d))\<lparr>dce_req := Bi_req ?b v\<rparr>)"
    using b assms by (auto simp: bi_loop_def bi_blocks_def owns_def)
  then show "case bnd rpc_alloc (\<lambda>l. set_bi (\<lambda>h. h\<lparr>bi_list := Blk l []\<rparr>)) d of (Inr _, e) \<Rightarrow> ndr_inv e \<and> bi_loop n L 0 e
     | (Inl (Err _), e) \<Rightarrow> E e | (Inl Fault, e) \<Rightarrow> False"
    using b(1) d by (simp add: bnd_def rpc_alloc_def set_bi_def get_req_def bi_of_def bi_under_def modify_def)
qed

lemma bind_contexts_or_free:
  "valid (\<lambda>d. ndr_inv d \<and> bi_loop n L 0 d) (on_fail (bind_read_contexts (unat n)) dcerpc_bind_req_free)
     (\<lambda>_ d. ndr_inv d \<and> bi_ready L d) (\<lambda>d. ndr_inv d \<and> bi_clear L d)"
proof (rule valid_on_fail)
  have "valid (\<lambda>d. ndr_inv d \<and> bi_loop n L 0 d) (times (unat n) bind_read_context)
     (\<lambda>_ d. ndr_inv d \<and> bi_loop n L (unat n) d) (\<lambda>d. ndr_inv d \<and> bi_held L d)"
    using bind_read_contexts_valid [of n L 0 "unat n"] by simp
  then show "valid (\<lambda>d. ndr_inv d \<and> bi_loop n L 0 d) (bind_read_contexts (unat n))
     (\<lambda>_ d. ndr_inv d \<and> bi_ready L d) (\<lambda>d. ndr_inv d \<and> bi_held L d)"
    unfolding bind_read_contexts_def by (rule valid_sq) (auto intro!: valid_ret simp: bi_ready_def)
qed (rule bind_req_free_valid)

lemma bind_tail_valid:
  "valid (\<lambda>d. ndr_inv d \<and> bi_counted n L d) (if n = 0 then ret ()
     else bnd (bnd rpc_alloc (\<lambda>l. set_bi (\<lambda>h. h\<lparr>bi_list := Blk l []\<rparr>)))
       (\<lambda>_. on_fail (bind_read_contexts (unat n)) dcerpc_bind_req_free))
     (\<lambda>_ d. ndr_inv d \<and> bi_ready L d) (\<lambda>d. ndr_inv d \<and> bi_clear L d)"
  apply (rule valid_if)
   apply (rule valid_ret, simp add: bi_counted_0 bi_ready_def)
  apply (rule valid_bnd [OF bi_start_valid bind_contexts_or_free], assumption)
  done

lemma parse_bind_eq:
  "dcerpc_parse_bind_req =
     bnd rpc_req_flags (\<lambda>fl. sq (set_bi (\<lambda>h. h\<lparr>bi_flags := fl\<rparr>))
    (bnd (or_else EINVAL ndr_read_int16) (\<lambda>v. sq (set_bi (\<lambda>h. h\<lparr>max_xmit_frag_sz := v\<rparr>))
    (bnd (or_else EINVAL ndr_read_int16) (\<lambda>v. sq (set_bi (\<lambda>h. h\<lparr>max_recv_frag_sz := v\<rparr>))
    (bnd (or_else EINVAL ndr_read_int32) (\<lambda>v. sq (set_bi (\<lambda>h. h\<lparr>assoc_group_id := v\<rparr>))
    (bnd (or_else EINVAL ndr_read_int8) (\<lambda>n. sq (set_bi (\<lambda>h. h\<lparr>num_contexts := n, bi_list := Null\<rparr>))
    (sq auto_align_offset
    (if n = 0 then ret () else bnd (bnd rpc_alloc (\<lambda>l. set_bi (\<lambda>h. h\<lparr>bi_list := Blk l []\<rparr>)))
       (\<lambda>_. on_fail (bind_read_contexts (unat n)) dcerpc_bind_req_free))))))))))))"
  by (simp add: dcerpc_parse_bind_req_def sq_def bnd_assoc cong: if_cong)

lemma parse_bind_valid:
  "valid (\<lambda>d. ndr_inv d \<and> bi_free L d \<and> dce_rpc_req d \<noteq> None) dcerpc_parse_bind_req
     (\<lambda>_ d. ndr_inv d \<and> bi_ready L d) (\<lambda>d. ndr_inv d \<and> bi_clear L d)"
  unfolding parse_bind_eq
  apply (rule valid_bnd [OF rpc_req_flags_valid], simp)
  apply (rule valid_sq [OF valid_pre [OF set_bi_scalar [where L = L]]], simp, simp)
  apply (rule valid_bnd [OF clear_ndr], intro ndr_safe, intro ndr_safe)
  apply (rule valid_sq [OF set_bi_clear], simp)
  apply (rule valid_bnd [OF clear_ndr], intro ndr_safe, intro ndr_safe)
  apply (rule valid_sq [OF set_bi_clear], simp)
  apply (rule valid_bnd [OF clear_ndr], intro ndr_safe, intro ndr_safe)
  apply (rule valid_sq [OF set_bi_clear], simp)
  apply (rule valid_bnd [OF clear_ndr], intro ndr_safe, intro ndr_safe)
  apply (rule valid_sq [OF bi_count_valid])
  apply (rule valid_sq [OF valid_align], simp)
  apply (rule bind_tail_valid)
  done

text \<open>The contexts of a complete request can be followed.\<close>

definition ctx_live :: "dcerpc_context \<Rightarrow> 'x ksmbd_rpc_pipe_scheme \<Rightarrow> bool" where
  "ctx_live c d \<longleftrightarrow> (\<exists>t ss. transfer_syntaxes c = Blk t ss \<and> t \<in> rpc_live d \<and> num_syntaxes c \<noteq> 0 \<and> length ss = unat (num_syntaxes c))"

lemma bi_contexts_valid:
  assumes "\<And>d. R d \<Longrightarrow> bi_ready L d"
  shows "valid R bi_contexts (\<lambda>cs d. R d \<and> (\<forall>c\<in>set cs. ctx_live c d)) E"
proof (rule validI)
  fix d assume R: "R d"
  from assms [OF R] consider "bi_clear L d" | m where "bi_loop m L (unat m) d" by (auto simp: bi_ready_def)
  then show "case bi_contexts d of (Inr cs, d) \<Rightarrow> R d \<and> (\<forall>c\<in>set cs. ctx_live c d) | (Inl (Err _), t) \<Rightarrow> E t | (Inl Fault, t) \<Rightarrow> False"
  proof cases
    case 1
    with R show ?thesis by (auto simp: bi_clear_def bi_contexts_def get_req_def bi_of_def bnd_def ret_def)
  next
    case 2
    then obtain b v n cs where b: "dce_req d = Bi_req b v" "bi_list b = Blk n cs" "length cs = unat m" "\<forall>c\<in>set cs. ctx_ok c"
      "num_contexts b = m" "m \<noteq> 0" "owns L (bi_blocks b) d"
      by (auto simp: bi_loop_def)
    have "ctx_live c d" if "c \<in> set cs" for c
      using b(4) that b(2,7) unfolding ctx_ok_def ctx_live_def
      by (fastforce simp: owns_def bi_blocks_def tok_def)
    with R b show ?thesis
      by (simp add: bi_contexts_def get_req_def bi_of_def bnd_def ret_def rpc_deref_def owns_def bi_blocks_def)
  qed
qed

lemma ctx_syntaxes_eq:
  assumes "ctx_live c d"
  shows "\<exists>ss t. ctx_syntaxes c d = (Inr ss, d) \<and> transfer_syntaxes c = Blk t ss \<and> t \<in> rpc_live d \<and> ss \<noteq> []"
  using assms by (auto simp: ctx_live_def ctx_syntaxes_def bnd_def rpc_deref_def ret_def unat_eq_zero)

lemma any_ctx_eq: "\<forall>c\<in>set cs. ctx_live c d \<Longrightarrow> \<exists>r. any_ctx cs d = (Inr r, d)"
proof (induction cs)
  case (Cons c cs)
  then obtain r ss t where "any_ctx cs d = (Inr r, d)" "ctx_syntaxes c d = (Inr ss, d)"
    using ctx_syntaxes_eq [of c d] by auto
  then show ?case by (simp add: ctx_acceptable_def bnd_def ret_def)
qed (auto simp: ret_def)

text \<open>\<open>rpc_room\<close>: the response buffer is below one gigabyte, so that \<open>int\<close> holds its offsets.\<close>

definition rpc_room :: "'x ksmbd_dcerpc_scheme \<Rightarrow> bool" where
  "rpc_room d \<longleftrightarrow> psz d < 2 ^ 30"

lemma steady_room [simp]: "steady rpc_room"
  by (simp add: steady_def rpc_room_def)

lemma steady_conj: "steady R \<Longrightarrow> steady S \<Longrightarrow> steady (\<lambda>d. R d \<and> S d)"
  by (simp add: steady_def)

lemma steadyS: "steady R \<Longrightarrow> R (d\<lparr>dce_offset := k\<rparr>) = R d"
proof -
  assume "steady R"
  then have "R (d\<lparr>dce_offset := k, dce_payload := dce_payload d\<rparr>) = R d" unfolding steady_def by blast
  then show ?thesis by simp
qed

lemma ndr_inv_goto: "ndr_inv d \<Longrightarrow> n \<le> 64 \<Longrightarrow> ndr_inv (d\<lparr>dce_offset := word_of_nat n\<rparr>)"
  by (simp add: ndr_inv_def unat_of_nat)

lemma valid_goto:
  assumes "steady R" and "n \<le> 64"
  shows "valid (\<lambda>d. ndr_inv d \<and> R d) (goto_offset n) (\<lambda>_ d. ndr_inv d \<and> R d) E"
  unfolding goto_offset_def by (rule valid_modify) (simp add: ndr_inv_goto steadyS assms)

text \<open>Going to the front to write a header, and back.\<close>

lemma room_offset: "ndr_inv d \<Longrightarrow> rpc_room d \<Longrightarrow> unat (dce_offset d) < 2 ^ 31"
  using up_less [of 8 "psz d"] by (auto simp: ndr_inv_def rpc_room_def)

lemma valid_excursion:
  assumes R: "steady R" "\<And>d. R d \<Longrightarrow> rpc_room d"
    and body: "\<And>l. valid (\<lambda>d. ndr_inv d \<and> R d) (body l) (\<lambda>_ d. ndr_inv d \<and> S d) E"
    and S: "steady S" and sz: "\<And>l d. ndr_inv d \<Longrightarrow> R d \<Longrightarrow> psz (snd (body l d)) = psz d"
  shows "valid (\<lambda>d. ndr_inv d \<and> R d)
    (bnd (reads (\<lambda>d. int_offset (dce_offset d))) (\<lambda>l. sq (goto_offset 0) (sq (body l) (set_offset l))))
    (\<lambda>_ d. ndr_inv d \<and> S d) E"
proof (rule validI, elim conjE)
  fix d assume d: "ndr_inv d" "R d"
  let ?l = "int_offset (dce_offset d)" and ?e = "d\<lparr>dce_offset := 0\<rparr>"
  have e: "ndr_inv ?e" "R ?e"
    using ndr_inv_goto [OF d(1), of 0] d(2) R(1) by (simp_all add: steadyS)
  obtain r t where b: "body ?l ?e = (r, t)" by (cases "body ?l ?e")
  note v = validD [OF body [of ?l], of ?e]
  show "case bnd (reads (\<lambda>d. int_offset (dce_offset d))) (\<lambda>l. sq (goto_offset 0) (sq (body l) (set_offset l))) d of
     (Inr _, t) \<Rightarrow> ndr_inv t \<and> S t | (Inl (Err _), t) \<Rightarrow> E t | (Inl Fault, t) \<Rightarrow> False"
  proof (cases r)
    case (Inl x)
    then show ?thesis
      using v e b by (simp add: bnd_def sq_def reads_def goto_offset_def modify_def split: cerr.splits)
  next
    case (Inr x)
    then have t: "ndr_inv t" "S t"
      using v e b by auto
    have "psz t = psz d"
      using sz [OF e, of ?l] b by simp
    then have "ndr_inv (t\<lparr>dce_offset := dce_offset d\<rparr>)"
      using t(1) d(1) by (simp add: ndr_inv_def)
    then show ?thesis
      using Inr b t(2) S int_offset_back [OF room_offset [OF d(1) R(2) [OF d(2)]]]
      by (simp add: bnd_def sq_def reads_def goto_offset_def modify_def set_offset_def steadyS)
  qed
qed

text \<open>\<open>calm\<close>: not about the cursor, the bytes, the headers or the size of the response either.\<close>

definition calm :: "('x ksmbd_rpc_pipe_scheme \<Rightarrow> bool) \<Rightarrow> bool" where
  "calm R \<longleftrightarrow> steady R \<and> (\<forall>d x. R (d\<lparr>dce_hdr := x\<rparr>) = R d) \<and> (\<forall>d x. R (d\<lparr>dce_req_hdr := x\<rparr>) = R d)
     \<and> (\<forall>d x. R (d\<lparr>dce_resp_payload_sz := x\<rparr>) = R d)"

lemma calm_steady: "calm R \<Longrightarrow> steady R"
  by (simp add: calm_def)

lemma calm_sets [simp]:
  assumes "calm R"
  shows "R (d\<lparr>dce_hdr := h\<rparr>) = R d" and "R (d\<lparr>dce_req_hdr := q\<rparr>) = R d" and "R (d\<lparr>dce_resp_payload_sz := z\<rparr>) = R d"
  using assms by (simp_all add: calm_def)

lemma valid_ndr_try:
  assumes "ndr_safe m" and "ndr_forward m" and "steady R" and "\<And>x. valid (\<lambda>d. ndr_inv d \<and> R d) (f x) Q E"
    and "\<And>d. ndr_inv d \<Longrightarrow> R d \<Longrightarrow> Q st d"
  shows "valid (\<lambda>d. ndr_inv d \<and> R d) (rpc_try st m f) Q E"
  by (rule valid_rpc_try [OF valid_ndr [OF assms(1-3)] assms(4)]) (use assms(5) in auto)

lemma hdr_write_valid:
  assumes "calm R"
  shows "valid (\<lambda>d. ndr_inv d \<and> R d) (sq (set_hdr f) (bnd (reads dce_hdr) dcerpc_hdr_write)) (\<lambda>_ d. ndr_inv d \<and> R d)
     (\<lambda>d. ndr_inv d \<and> R d)"
  unfolding set_hdr_def
  apply (rule valid_sq [OF valid_modify [where Q = "\<lambda>_ d. ndr_inv d \<and> R d"]])
   apply (simp add: assms)
  apply (rule valid_bnd [OF valid_reads [where Q = "\<lambda>_ d. ndr_inv d \<and> R d"]], assumption)
  apply (rule valid_ndr, intro ndr_safe, intro ndr_safe)
  apply (rule calm_steady [OF assms])
  done

lemma psz_step: "ndr_forward m \<Longrightarrow> ndr_inv d \<Longrightarrow> psz (snd (m d)) = psz d"
proof -
  assume m: "ndr_forward m" "ndr_inv d"
  obtain r t where t: "m d = (r, t)" by (cases "m d")
  from ndr_step_flags [OF ndr_forwardD [OF m t]] t show ?thesis by simp
qed

lemma hdr_write_psz: "ndr_inv d \<Longrightarrow> psz (snd (sq (set_hdr f) (bnd (reads dce_hdr) dcerpc_hdr_write) d)) = psz d"
  using psz_step [OF dcerpc_hdr_write_safe(2), of "d\<lparr>dce_hdr := f (dce_hdr d)\<rparr>"]
  by (simp add: sq_def bnd_def set_hdr_def modify_def reads_def)

lemma finish_bind_eq:
  "finish_bind pt = rpc_try KSMBD_RPC_EBAD_DATA
     (bnd (reads (\<lambda>d. int_offset (dce_offset d))) (\<lambda>l. sq (goto_offset 0)
       (sq (sq (set_hdr (\<lambda>h. h\<lparr>ptype := pt, pfc_flags := DCERPC_PFC_FIRST_FRAG OR DCERPC_PFC_LAST_FRAG, frag_length := ucast l\<rparr>))
          (bnd (reads dce_hdr) dcerpc_hdr_write)) (set_offset l))))
     (\<lambda>_. sq (modify (\<lambda>d. d\<lparr>dce_resp_payload_sz := ucast (dce_offset d)\<rparr>)) (ret KSMBD_RPC_OK))"
  by (rule ext) (simp add: finish_bind_def rpc_try_def sq_def bnd_def reads_def goto_offset_def set_hdr_def modify_def
      set_offset_def split: prod.split sum.split cerr.split)

lemma finish_bind_valid:
  assumes R: "calm R" "\<And>d. R d \<Longrightarrow> rpc_room d"
  shows "valid (\<lambda>d. ndr_inv d \<and> R d) (finish_bind pt) (\<lambda>_ d. ndr_inv d \<and> R d) E"
  unfolding finish_bind_eq
  apply (rule valid_rpc_try [OF valid_excursion [OF calm_steady [OF R(1)] R(2) hdr_write_valid [OF R(1)] calm_steady [OF R(1)] hdr_write_psz]])
    apply assumption+
   apply (rule valid_sq [OF valid_modify [where Q = "\<lambda>_ d. ndr_inv d \<and> R d"]], simp add: R(1))
   apply (rule valid_ret)
  apply simp_all
  done

lemma nack_valid:
  assumes R: "calm R" "\<And>d. R d \<Longrightarrow> rpc_room d"
  shows "valid (\<lambda>d. ndr_inv d \<and> R d) dcerpc_bind_nack_return (\<lambda>_ d. ndr_inv d \<and> R d) E"
proof -
  note st = calm_steady [OF R(1)]
  have e: "ndr_safe (each (\<lambda>(s, _). sq (ndr_write_int8 (ucast (ver_major s))) (ndr_write_int8 (ucast (ver_minor s)))) xs :: ('a, unit) pipe_act)"
    "ndr_forward (each (\<lambda>(s, _). sq (ndr_write_int8 (ucast (ver_major s))) (ndr_write_int8 (ucast (ver_minor s)))) xs :: ('a, unit) pipe_act)"
    for xs :: "(dcerpc_syntax \<times> int) list"
    by (rule ndr_safe_each; auto intro: ndr_safe)+
  show ?thesis
    unfolding dcerpc_bind_nack_return_def
    apply (rule valid_sq [OF valid_goto [OF st]], simp add: sizeof_dcerpc_header_def)
    apply (rule valid_ndr_try [OF _ _ st], intro ndr_safe, intro ndr_safe)
     apply (rule valid_ndr_try [OF _ _ st], intro ndr_safe, intro ndr_safe)
      apply (rule valid_sq [OF valid_align [OF st]])
      apply (rule valid_ndr_try [OF e st])
       apply (rule finish_bind_valid [OF R], assumption)
    apply simp_all
    done
qed

definition bi_answer :: "nat set \<Rightarrow> dcerpc_context list \<Rightarrow> 'x ksmbd_rpc_pipe_scheme \<Rightarrow> bool" where
  "bi_answer L cs d \<longleftrightarrow> rpc_room d \<and> bi_ready L d \<and> (\<forall>c\<in>set cs. ctx_live c d)"

lemma calm_answer [simp]: "calm (bi_answer L cs)"
  unfolding calm_def steady_def bi_answer_def
  by (simp add: rpc_room_def bi_ready_def bi_clear_def bi_loop_def ctx_live_def owns_def)

lemma bi_answerD: "bi_answer L cs d \<Longrightarrow> rpc_room d" "bi_answer L cs d \<Longrightarrow> bi_ready L d"
  by (simp_all add: bi_answer_def)

lemma set_bi_ready:
  assumes "\<And>b. num_contexts (f b) = num_contexts b \<and> bi_list (f b) = bi_list b"
  shows "valid (\<lambda>d. ndr_inv d \<and> bi_answer L cs d) (set_bi f) (\<lambda>_ d. ndr_inv d \<and> bi_answer L cs d) E"
proof (rule validI, elim conjE)
  fix d :: "'a ksmbd_rpc_pipe_scheme"
  assume d: "ndr_inv d" "bi_answer L cs d"
  have blocks: "bi_blocks (f b) = bi_blocks b" for b
    using assms by (simp add: bi_blocks_def)
  obtain b v where u: "dce_req d = Bi_req b v"
    using d(2) by (auto simp: bi_answer_def bi_ready_def bi_clear_def bi_loop_def)
  have "bi_answer L cs (d\<lparr>dce_req := Bi_req (f b) v\<rparr>)"
    using d(2) u assms blocks
    by (simp add: bi_answer_def rpc_room_def bi_ready_def bi_clear_def bi_loop_def ctx_live_def owns_def)
  then show "case set_bi f d of (Inr _, e) \<Rightarrow> ndr_inv e \<and> bi_answer L cs e | (Inl (Err _), e) \<Rightarrow> E e | (Inl Fault, e) \<Rightarrow> False"
    using d u by (simp add: set_bi_def get_req_def bi_of_def bi_under_def bnd_def modify_def)
qed

lemma get_bi_valid:
  "valid (\<lambda>d. ndr_inv d \<and> bi_answer L cs d) (get_req bi_of) (\<lambda>_ d. ndr_inv d \<and> bi_answer L cs d) E"
  by (rule validI) (auto simp: get_req_def bi_of_def bi_answer_def bi_ready_def bi_clear_def bi_loop_def)

lemma ndr_write_union16_safe [ndr_safe]: "ndr_safe (ndr_write_union_int16 v)" "ndr_forward (ndr_write_union_int16 v)"
  unfolding ndr_write_union_int16_def by (intro ndr_safe)+

lemma ack_context_valid:
  assumes c: "c \<in> set cs"
  shows "valid (\<lambda>d. ndr_inv d \<and> bi_answer L cs d) (bind_ack_context c) (\<lambda>_ d. ndr_inv d \<and> bi_answer L cs d)
     (\<lambda>d. ndr_inv d \<and> bi_answer L cs d)"
proof (rule validI)
  fix d :: "'a ksmbd_rpc_pipe_scheme"
  assume d: "ndr_inv d \<and> bi_answer L cs d"
  from d c have "ctx_live c d" by (simp add: bi_answer_def)
  from ctx_syntaxes_eq [OF this] obtain ss t where s: "ctx_syntaxes c d = (Inr ss, d)" "transfer_syntaxes c = Blk t ss"
    "t \<in> rpc_live d" "ss \<noteq> []" by blast
  define w :: "('a, unit) pipe_act" where "w = (case find (\<lambda>s. dcerpc_syntax_supported s \<ge> 0) ss of
      None \<Rightarrow> sq (ndr_write_union_int16 (word_of_int DCERPC_BIND_ACK_RES_PROVIDER_REJECT)) (dcerpc_write_syntax (hd ss))
    | Some s \<Rightarrow> if dcerpc_syntax_supported s = DCERPC_BIND_ACK_RES_ACCEPT
         then sq (ndr_write_union_int16 (word_of_int (dcerpc_syntax_supported s))) (dcerpc_write_syntax s)
         else if dcerpc_syntax_supported s = DCERPC_BIND_ACK_RES_NEGOTIATE_ACK
         then sq (ndr_write_int16 (word_of_int (dcerpc_syntax_supported s))) (sq (ndr_write_int16 0) (dcerpc_write_syntax negotiate_ack_PNIO_uuid))
         else dcerpc_write_syntax s)"
  have "ndr_safe w" "ndr_forward w"
    unfolding w_def by (auto intro!: ndr_safe split: option.split)
  from validD [OF valid_ndr [OF this calm_steady [OF calm_answer]] d]
  have "case w d of (Inr _, e) \<Rightarrow> ndr_inv e \<and> bi_answer L cs e | (Inl (Err _), e) \<Rightarrow> ndr_inv e \<and> bi_answer L cs e | (Inl Fault, e) \<Rightarrow> False" .
  moreover have "bind_ack_context c d = w d"
    using s by (simp add: bind_ack_context_def w_def bnd_def rpc_deref_def Let_def split: option.split)
  ultimately show "case bind_ack_context c d of (Inr _, e) \<Rightarrow> ndr_inv e \<and> bi_answer L cs e
     | (Inl (Err _), e) \<Rightarrow> ndr_inv e \<and> bi_answer L cs e | (Inl Fault, e) \<Rightarrow> False"
    by simp
qed

lemma valid_align_offset:
  assumes "steady R" and "ndr_width n" and "k = word_of_nat n"
  shows "valid (\<lambda>d. ndr_inv d \<and> R d) (align_offset k) (\<lambda>_ d. ndr_inv d \<and> R d) E"
proof (rule validI, elim conjE)
  fix d assume d: "ndr_inv d" "R d"
  show "case align_offset k d of (Inr _, t) \<Rightarrow> ndr_inv t \<and> R t | (Inl (Err e), t) \<Rightarrow> E t | (Inl Fault, t) \<Rightarrow> False"
    using align_offset_eq [OF d(1) assms(2)] ndr_inv_moved(1) [OF d(1) assms(2)] d(2) assms(1,3)
    by (simp add: seek_def steadyS)
qed

lemma pipe_name_small: "pipe_name f = Some a \<Longrightarrow> length a < 2 ^ 62"
  by (auto simp: pipe_name_def split: if_splits)

lemma ack_address_valid:
  assumes "calm R" and "length a < 2 ^ 62"
  shows "valid (\<lambda>d. ndr_inv d \<and> R d) (bind_ack_address a) (\<lambda>_ d. ndr_inv d \<and> R d) (\<lambda>d. ndr_inv d \<and> R d)"
  unfolding bind_ack_address_def
  apply (rule valid_bnd [OF valid_reads [where Q = "\<lambda>_ d. ndr_inv d \<and> R d"]], assumption)
  apply (rule valid_ndr)
    apply (intro ndr_safe; rule assms)
   apply (intro ndr_safe; rule assms)
  apply (rule calm_steady [OF assms(1)])
  done

lemma ack_valid:
  "valid (\<lambda>d. ndr_inv d \<and> bi_answer L [] d) dcerpc_bind_ack_return (\<lambda>_ d. ndr_inv d \<and> bi_ready L d) E"
proof -
  note st = calm_steady [OF calm_answer]
  have fin: "valid (\<lambda>d. ndr_inv d \<and> bi_answer L cs d) (finish_bind pt) (\<lambda>_ d. ndr_inv d \<and> bi_ready L d) E'"
    for cs pt and E' :: "'a ksmbd_rpc_pipe_scheme \<Rightarrow> bool"
    by (rule valid_post [OF finish_bind_valid [OF calm_answer [of L cs]]]) (auto dest: bi_answerD)
  have ctxs: "valid (\<lambda>d. ndr_inv d \<and> bi_answer L [] d) bi_contexts (\<lambda>cs d. ndr_inv d \<and> bi_answer L cs d) E'"
    for E' :: "'a ksmbd_rpc_pipe_scheme \<Rightarrow> bool"
    by (rule valid_post [OF bi_contexts_valid [where L = L]]) (auto simp: bi_answer_def)
  have acks: "valid (\<lambda>d. ndr_inv d \<and> bi_answer L cs d) (each bind_ack_context cs) (\<lambda>_ d. ndr_inv d \<and> bi_answer L cs d)
     (\<lambda>d :: 'a ksmbd_rpc_pipe_scheme. ndr_inv d \<and> bi_answer L cs d)" for cs
    by (rule valid_each [OF ack_context_valid])
  show ?thesis
    unfolding dcerpc_bind_ack_return_def
    apply (rule valid_sq [OF valid_goto [OF st]], simp add: sizeof_dcerpc_header_def)
    apply (rule valid_sq [OF set_bi_ready], simp)
    apply (rule valid_bnd [OF get_bi_valid])
    apply (rule valid_ndr_try [OF _ _ st], intro ndr_safe, intro ndr_safe)
      apply (rule valid_ndr_try [OF _ _ st], intro ndr_safe, intro ndr_safe)
        apply (rule valid_ndr_try [OF _ _ st], intro ndr_safe, intro ndr_safe)
          apply (rule valid_option, rule valid_ret, simp add: bi_answer_def)
          apply (rule valid_rpc_try [OF ack_address_valid [OF calm_answer]], erule pipe_name_small)
           apply (rule valid_sq [OF valid_align_offset [OF st, of 4]], simp, simp)
           apply (rule valid_ndr_try [OF _ _ st], intro ndr_safe, intro ndr_safe)
             apply (rule valid_sq [OF valid_align_offset [OF st, of 2]], simp, simp)
             apply (rule valid_bnd [OF ctxs])
             apply (rule valid_rpc_try [OF acks])
              apply (rule valid_bnd [OF valid_reads [where Q = "\<lambda>_ d. ndr_inv d \<and> bi_answer L cs d" for cs]], assumption)
              apply (rule fin)
             apply (auto dest: bi_answerD)
    done
qed

text \<open>A complete request is answered without leaving the response buffer or following a dead
  pointer, and afterwards none of its blocks is left.\<close>

lemma bind_return_valid:
  "valid (\<lambda>d. ndr_inv d \<and> rpc_room d \<and> bi_ready L d) dcerpc_bind_return (\<lambda>_ d. ndr_inv d \<and> bi_clear L d) E"
proof -
  have any: "valid (\<lambda>d. ndr_inv d \<and> rpc_room d \<and> bi_ready L d) (bnd bi_contexts any_ctx)
     (\<lambda>_ d. ndr_inv d \<and> bi_answer L [] d) E'" for E' :: "'a ksmbd_rpc_pipe_scheme \<Rightarrow> bool"
  proof (rule valid_bnd [OF bi_contexts_valid [where L = L]])
    fix cs
    show "valid (\<lambda>d. (ndr_inv d \<and> rpc_room d \<and> bi_ready L d) \<and> (\<forall>c\<in>set cs. ctx_live c d)) (any_ctx cs)
       (\<lambda>_ d. ndr_inv d \<and> bi_answer L [] d) E'"
      by (rule validI, elim conjE, drule any_ctx_eq) (auto simp: bi_answer_def)
  qed simp
  show ?thesis
    unfolding dcerpc_bind_return_def
    apply (rule valid_bnd [OF any])
    apply (rule valid_bnd [where R = "\<lambda>_ d. ndr_inv d \<and> bi_ready L d"])
     apply (rule valid_if [OF ack_valid])
     apply (rule valid_post [OF nack_valid [OF calm_answer [of L "[]"]]])
      apply (auto dest: bi_answerD)[2]
    apply (rule valid_sq [OF valid_pre [OF valid_total [OF bind_req_free_valid [where L = L]]]])
     apply (blast intro: bi_ready_held)
    apply (rule valid_ret, assumption)
    done
qed

lemma bind_invoke_valid:
  "valid (\<lambda>d. ndr_inv d \<and> bi_free L d \<and> dce_rpc_req d \<noteq> None) dcerpc_bind_invoke (\<lambda>_ d. ndr_inv d \<and> bi_ready L d) E"
proof -
  have set: "valid (\<lambda>d. (ndr_inv d \<and> bi_ready L d) \<and> (\<forall>c\<in>set cs. ctx_live c d)) (case find (\<lambda>c. is_dssetup_interface (abstract_syntax c)) cs of None \<Rightarrow> ret ()
         | Some c \<Rightarrow> modify (\<lambda>d. d\<lparr>dce_dssetup_context_id := uint (ctx_id c)\<rparr>)) (\<lambda>_ d. ndr_inv d \<and> bi_ready L d) E'"
    for cs and E' :: "'a ksmbd_rpc_pipe_scheme \<Rightarrow> bool"
    by (rule valid_option; rule valid_ret valid_modify; simp add: bi_ready_def bi_clear_def bi_loop_def owns_def)
  show ?thesis
    unfolding dcerpc_bind_invoke_def
    apply (rule valid_rpc_try [OF parse_bind_valid])
     apply (rule valid_bnd [OF bi_contexts_valid [where L = L]], simp)
     apply (rule valid_sq [OF set])
     apply (rule valid_sq [OF valid_modify [where Q = "\<lambda>_ d. ndr_inv d \<and> bi_ready L d"]])
      apply (simp add: bi_ready_def bi_clear_def bi_loop_def owns_def)
     apply (rule valid_ret, assumption)
    apply (simp add: bi_ready_def)
    done
qed

section \<open>The header is read back\<close>

lemma get_written:
  assumes c: "ndr_codec put get ok" and d: "ndr_inv d" "ok v" "put v d = (Inr (), d')" "ndr_inv d'"
    and z: "ndr_step d' z" "ndr_inv z"
    and e: "dce_payload e = dce_payload z" "dce_payload_sz e = dce_payload_sz z" "dce_flags e = dce_flags z"
      "dce_offset e = dce_offset d"
  shows "or_else EINVAL get e = (Inr v, e\<lparr>dce_offset := dce_offset d'\<rparr>)"
proof -
  have "ndr_agree (off d') d' e"
    using ndr_step_agree [OF z(1) d(4) z(2)] e by (simp add: ndr_agree_def)
  then have "get e = (Inr v, e\<lparr>dce_offset := dce_offset d'\<rparr>)"
    by (rule ndr_codec.put_get [OF c d(1-3) _ e(4)])
  then show ?thesis by simp
qed

lemma codec_drep: "ndr_codec ndr_write_bytes (ndr_read_bytes 4) (\<lambda>bs. length bs = 4)"
  by (rule codec_bytes) simp

text \<open>A value written on the way to \<open>z\<close> is read back from any pipe that has the bytes of \<open>z\<close>.\<close>

definition same_bytes :: "'x ksmbd_dcerpc_scheme \<Rightarrow> 'x ksmbd_dcerpc_scheme \<Rightarrow> bool" where
  "same_bytes z e \<longleftrightarrow> dce_payload e = dce_payload z \<and> dce_payload_sz e = dce_payload_sz z \<and> dce_flags e = dce_flags z"

lemma write_step:
  assumes c: "ndr_codec put get ok" "ok v" and d: "ndr_inv d" and w: "put v d = (Inr (), u)"
  shows "ndr_inv u" and "ndr_step d u"
    and "\<And>z e. ndr_step u z \<Longrightarrow> ndr_inv z \<Longrightarrow> same_bytes z e \<Longrightarrow> dce_offset e = dce_offset d \<Longrightarrow>
      or_else EINVAL get e = (Inr v, e\<lparr>dce_offset := dce_offset u\<rparr>)"
proof -
  show u: "ndr_inv u" using ndr_safeD [OF ndr_codec.put_safe [OF c] d w] by simp
  show "ndr_step d u" by (rule ndr_forwardD [OF ndr_codec.put_forward [OF c] d w])
  show "or_else EINVAL get e = (Inr v, e\<lparr>dce_offset := dce_offset u\<rparr>)"
    if "ndr_step u z" "ndr_inv z" "same_bytes z e" "dce_offset e = dce_offset d" for z e
    using get_written [OF c(1) d c(2) w u that(1,2)] that(3,4) by (simp add: same_bytes_def)
qed

lemma hdr_roundtrip:
  fixes d :: "'x ksmbd_rpc_pipe_scheme"
  assumes d: "ndr_inv d" and w: "dcerpc_hdr_write hdr d = (Inr (), z)" and len: "length (packed_drep hdr) = 4"
    and fl: "hdr_endian (hd (packed_drep hdr)) (dce_flags d) = dce_flags d"
  shows "dcerpc_hdr_read (z\<lparr>dce_offset := dce_offset d\<rparr>) = (Inr (), z\<lparr>dce_hdr := hdr\<rparr>)"
proof -
  have tk: "take 4 (packed_drep hdr) = packed_drep hdr" using len by simp
  from w obtain d1 d2 d3 d4 d5 d6 d7 where
    w1: "ndr_write_int8 (rpc_vers hdr) d = (Inr (), d1)" and w2: "ndr_write_int8 (rpc_vers_minor hdr) d1 = (Inr (), d2)"
    and w3: "ndr_write_int8 (ptype hdr) d2 = (Inr (), d3)" and w4: "ndr_write_int8 (pfc_flags hdr) d3 = (Inr (), d4)"
    and w5: "ndr_write_bytes (packed_drep hdr) d4 = (Inr (), d5)" and w6: "ndr_write_int16 (frag_length hdr) d5 = (Inr (), d6)"
    and w7: "ndr_write_int16 (auth_length hdr) d6 = (Inr (), d7)" and w8: "ndr_write_int32 (call_id hdr) d7 = (Inr (), z)"
    by (auto simp: dcerpc_hdr_write_def tk elim!: sq_InrE)
  note r1 = write_step [OF i8.ndr_codec_axioms TrueI d w1]
  note r2 = write_step [OF i8.ndr_codec_axioms TrueI r1(1) w2]
  note r3 = write_step [OF i8.ndr_codec_axioms TrueI r2(1) w3]
  note r4 = write_step [OF i8.ndr_codec_axioms TrueI r3(1) w4]
  note r5 = write_step [OF codec_drep len r4(1) w5]
  note r6 = write_step [OF i16.ndr_codec_axioms TrueI r5(1) w6]
  note r7 = write_step [OF i16.ndr_codec_axioms TrueI r6(1) w7]
  note r8 = write_step [OF i32.ndr_codec_axioms TrueI r7(1) w8]
  have t7: "ndr_step d7 z" by (rule r8(2))
  have t6: "ndr_step d6 z" by (rule ndr_step_trans [OF r7(2) t7])
  have t5: "ndr_step d5 z" by (rule ndr_step_trans [OF r6(2) t6])
  have t4: "ndr_step d4 z" by (rule ndr_step_trans [OF r5(2) t5])
  have t3: "ndr_step d3 z" by (rule ndr_step_trans [OF r4(2) t4])
  have t2: "ndr_step d2 z" by (rule ndr_step_trans [OF r3(2) t3])
  have t1: "ndr_step d1 z" by (rule ndr_step_trans [OF r2(2) t2])
  have t0: "ndr_step d z" by (rule ndr_step_trans [OF r1(2) t1])
  have fz: "hdr_endian (hd (packed_drep hdr)) (dce_flags z) = dce_flags z"
    using fl ndr_step_flags [OF t0] by simp
  note z = r8(1)
  note g = r1(3) [OF t1 z] r2(3) [OF t2 z] r3(3) [OF t3 z] r4(3) [OF t4 z] r5(3) [OF t5 z] r6(3) [OF t6 z] r7(3) [OF t7 z]
    r8(3) [OF ndr_step_refl z]
  have "dcerpc_hdr_read (z\<lparr>dce_offset := dce_offset d\<rparr>) = (Inr (), z\<lparr>dce_hdr := hdr, dce_offset := dce_offset z\<rparr>)"
    by (simp add: dcerpc_hdr_read_def bnd_def sq_def set_hdr_def modify_def g same_bytes_def fz)
  then show ?thesis by simp
qed

section \<open>Properties\<close>

lemma ready_set_ext [simp]: "bi_ready L (dcerpc_set_ext_payload p sz d) = bi_ready L d"
  by (simp add: dcerpc_set_ext_payload_def bi_ready_def bi_clear_def bi_loop_def owns_def)


text \<open>A pipe as \<open>rpc_open_request\<close> leaves it, with a request in its payload.\<close>

definition pipe_zero :: ksmbd_rpc_pipe where
  "pipe_zero = \<lparr>dce_flags = KSMBD_DCERPC_LITTLE_ENDIAN OR KSMBD_DCERPC_ALIGN4 OR KSMBD_DCERPC_EXTERNAL_PAYLOAD OR
       KSMBD_DCERPC_FIXED_PAYLOAD_SZ, dce_offset = 0, dce_payload_sz = 0, dce_payload = [], dce_num_pointers = 0,
     dce_dssetup_context_id = - 1,
     dce_hdr = \<lparr>rpc_vers = 0, rpc_vers_minor = 0, ptype = 0, pfc_flags = 0, packed_drep = [0, 0, 0, 0], frag_length = 0,
       auth_length = 0, call_id = 0\<rparr>,
     dce_req_hdr = \<lparr>alloc_hint = 0, context_id = 0, opnum = 0\<rparr>, dce_req = No_req, dce_rpc_req = None,
     dce_resp_payload_sz = 0, dce_entry_size = No_cb, dce_entry_rep = No_cb, dce_entry_data = No_cb, pipe_id = 0,
     pipe_ioctl_reply_consumed = False, pipe_num_entries = 0, pipe_num_processed = 0, pipe_entries = [],
     pipe_entry_processed = No_processed, rpc_live = {}, rpc_next = 0\<rparr>"

definition bind_sample :: bytes where
  "bind_sample = [0xB8, 0x10, 0xB8, 0x10, 0, 0, 0, 0, 1, 0, 0, 0] @ [0, 0, 1, 0] @
     [0xC8, 0x4F, 0x32, 0x4B, 0x70, 0x16, 0xD3, 0x01, 0x12, 0x78, 0x5A, 0x47, 0xBF, 0x6E, 0xE1, 0x88, 3, 0, 0, 0] @
     [0x04, 0x5D, 0x88, 0x8A, 0xEB, 0x1C, 0xC9, 0x11, 0x9F, 0xE8, 0x08, 0x00, 0x2B, 0x10, 0x48, 0x60, 2, 0, 0, 0]"

definition pipe_bind :: ksmbd_rpc_pipe where
  "pipe_bind = dcerpc_set_ext_payload bind_sample 56 (pipe_zero\<lparr>dce_rpc_req := Some KSMBD_RPC_SRVSVC_METHOD_INVOKE\<rparr>)"

lemma bi_free_zero: "bi_free {} pipe_bind"
  by (simp add: bi_free_def pipe_bind_def pipe_zero_def bi_of_def bi_zero_def owns_def dcerpc_set_ext_payload_def)



definition hdr_sample :: dcerpc_header where
  "hdr_sample = \<lparr>rpc_vers = 5, rpc_vers_minor = 0, ptype = DCERPC_PTYPE_RPC_BINDACK, pfc_flags = 3,
     packed_drep = [0x10, 0, 0, 0], frag_length = 68, auth_length = 0, call_id = 7\<rparr>"


end
