(* ===== verification/Rpc_Pipe.thy ===== *)
theory Rpc_Pipe
  imports Dcerpc_Bind Tree_Conn
begin

text \<open>
  What the RPC services share: the state a service procedure runs on (a pipe together with the
  users, shares and sessions of the daemon), the strings of a request, referent identifiers, the
  entries of a pipe with the callbacks that represent, write and release them, and the array
  writers of \<open>src/mountd/rpc.c\<close>.  The callbacks that the C code stores in function pointers are
  values of \<open>entry_cb\<close> and \<open>processed_cb\<close>; they are defined here because the generic code calls
  them.  The last section is the calculus in which procedures that only marshal are shown safe.
\<close>

section \<open>The state of a procedure\<close>

record 'g rpc_run = ksmbd_rpc_pipe +
  rpc_world :: 'g

type_synonym ('g, 'a) svc = "('g rpc_run, 'a) act"

definition on_world :: "('g, 'a) act \<Rightarrow> ('g, 'a) svc" where
  "on_world m = (\<lambda>d. case m (rpc_world d) of (r, g) \<Rightarrow> (r, d\<lparr>rpc_world := g\<rparr>))"

text \<open>
  The libraries the services call: the system databases, \<open>g_convert\<close>, \<open>g_utf8_strlen\<close>,
  \<open>inet_pton\<close>, \<open>gethostname\<close> (\<open>None\<close>: it fails) and \<open>getpwuid_r\<close> (the name of the entry).
\<close>

record rpc_env =
  env_sys :: sysdb
  env_convert :: g_convert
  env_strlen :: "bytes \<Rightarrow> nat"
  env_pton :: inet_pton
  env_hostname :: "bytes option"
  env_getpwuid :: "u32 \<Rightarrow> bytes option"

definition rpc_conf :: "(smbconf_global \<Rightarrow> 'a) \<Rightarrow> ('x usm_scheme, 'a) svc" where
  "rpc_conf f = reads (\<lambda>d. f (global_conf (rpc_world d)))"

definition restricted :: "('x usm_scheme, bool) svc" where
  "restricted = bnd (rpc_conf restrict_anon) rpc_restricted_context"

section \<open>Strings and referents\<close>

text \<open>\<open>upd\<close> assigns to the member of the request that holds the pointer.  A string is in a block
  of its own.\<close>

definition read_uniq_vstring ::
    "rpc_env \<Rightarrow> ((uniq_char_ptr \<Rightarrow> uniq_char_ptr) \<Rightarrow> ('x, unit) pipe_act) \<Rightarrow> ('x, unit) pipe_act" where
  "read_uniq_vstring env upd =
     bnd (or_else EINVAL ndr_read_int32) (\<lambda>r.
     sq (upd (ref_id_update (\<lambda>_. r)))
    (if r = 0 then upd (str_ptr_update (\<lambda>_. Null))
     else bnd (on_fail (or_else EINVAL (ndr_read_vstring (env_convert env))) (upd (str_ptr_update (\<lambda>_. Null)))) (\<lambda>s.
          bnd rpc_alloc (\<lambda>n. upd (str_ptr_update (\<lambda>_. Blk n s))))))"

definition read_vstring ::
    "rpc_env \<Rightarrow> (bytes cptr \<Rightarrow> ('x, unit) pipe_act) \<Rightarrow> ('x, unit) pipe_act" where
  "read_vstring env upd =
     bnd (on_fail (or_else EINVAL (ndr_read_vstring (env_convert env))) (upd Null)) (\<lambda>s.
     bnd rpc_alloc (\<lambda>n. upd (Blk n s)))"

definition free_uniq_vstring ::
    "('x, uniq_char_ptr) pipe_act \<Rightarrow> ((uniq_char_ptr \<Rightarrow> uniq_char_ptr) \<Rightarrow> ('x, unit) pipe_act) \<Rightarrow> ('x, unit) pipe_act" where
  "free_uniq_vstring get upd =
     sq (upd (ref_id_update (\<lambda>_. 0)))
    (bnd get (\<lambda>u. sq (rpc_free (str_ptr u)) (upd (str_ptr_update (\<lambda>_. Null)))))"

definition free_vstring :: "('x, bytes cptr) pipe_act \<Rightarrow> (bytes cptr \<Rightarrow> ('x, unit) pipe_act) \<Rightarrow> ('x, unit) pipe_act" where
  "free_vstring get upd = bnd get (\<lambda>p. sq (rpc_free p) (upd Null))"

definition str_val :: "bytes cptr \<Rightarrow> ('x, bytes option) pipe_act" where
  "str_val p = (case p of Null \<Rightarrow> ret None | _ \<Rightarrow> bnd (rpc_deref p) (\<lambda>s. ret (Some s)))"

text \<open>\<open>dce->num_pointers++\<close>, written as a referent identifier.\<close>

definition ndr_write_ref :: "('x ksmbd_dcerpc_scheme, unit) act" where
  "ndr_write_ref = sq (modify (\<lambda>d. d\<lparr>dce_num_pointers := dce_num_pointers d + 1\<rparr>))
     (bnd (reads dce_num_pointers) ndr_write_int32)"

section \<open>Callbacks of the shares service\<close>

definition SHARE_TYPE_DISKTREE :: u32 where "SHARE_TYPE_DISKTREE = 0"
definition SHARE_TYPE_IPC :: u32 where "SHARE_TYPE_IPC = 3"

definition share_type :: "ksmbd_share \<Rightarrow> u32" where
  "share_type share =
    (if test_share_flag share KSMBD_SHARE_FLAG_PIPE then SHARE_TYPE_IPC
     else if map ascii_lower (take 3 (sh_name share)) = map ascii_lower [0x49, 0x50, 0x43] then SHARE_TYPE_IPC
     else SHARE_TYPE_DISKTREE)"

definition opt_len :: "bytes option \<Rightarrow> int" where
  "opt_len s = (case s of None \<Rightarrow> 0 | Some b \<Rightarrow> int (length b) * 2)"

definition share_entry_size :: "nat \<Rightarrow> ksmbd_share \<Rightarrow> int" where
  "share_entry_size ctr share =
    (let name = int (length (sh_name share)) * 2 in
     if ctr = 0 then name + 4 * 4
     else if ctr = 1 then name + opt_len (sh_comment share) + 9 * 4
     else name + opt_len (sh_comment share) + opt_len (sh_path share) + 16 * 4)"

definition share_max_uses :: "ksmbd_share \<Rightarrow> u32" where
  "share_max_uses share = (if sh_max_connections share > 0 then word_of_int (sh_max_connections share) else 0xFFFFFFFF)"

definition share_entry_rep :: "nat \<Rightarrow> ksmbd_share \<Rightarrow> ('x ksmbd_dcerpc_scheme, unit) act" where
  "share_entry_rep ctr share =
    (if ctr = 0 then ndr_write_ref
     else if ctr = 1 then sq ndr_write_ref (sq (ndr_write_int32 (share_type share)) ndr_write_ref)
     else sq ndr_write_ref (sq (ndr_write_int32 (share_type share)) (sq ndr_write_ref
         (sq (ndr_write_int32 0) (sq (ndr_write_int32 (share_max_uses share))
         (sq (ndr_write_int32 (word_of_int (sh_num_connections share)))
         (sq ndr_write_ref ndr_write_ref)))))))"

definition write_vstring :: "rpc_env \<Rightarrow> bytes option \<Rightarrow> ('x ksmbd_dcerpc_scheme, unit) act" where
  "write_vstring env = ndr_write_vstring (env_convert env) (env_strlen env)"

definition share_entry_data :: "rpc_env \<Rightarrow> nat \<Rightarrow> ksmbd_share \<Rightarrow> ('x ksmbd_dcerpc_scheme, unit) act" where
  "share_entry_data env ctr share =
    (if ctr = 0 then write_vstring env (Some (sh_name share))
     else if ctr = 1 then sq (write_vstring env (Some (sh_name share))) (write_vstring env (sh_comment share))
     else sq (write_vstring env (Some (sh_name share))) (sq (write_vstring env (sh_comment share))
         (sq (write_vstring env (Some (case sh_path share of None \<Rightarrow> [] | Some p \<Rightarrow> p)))
             (write_vstring env (Some [])))))"

definition share_entry_null_rep :: "nat \<Rightarrow> ('x ksmbd_dcerpc_scheme, unit) act" where
  "share_entry_null_rep ctr = each (\<lambda>_. ndr_write_int32 0) [0..<(if ctr = 0 then 1 else if ctr = 1 then 3 else 8 :: nat)]"

section \<open>Callbacks of the workstation service\<close>

definition WKSSVC_PLATFORM_ID_NT :: u32 where "WKSSVC_PLATFORM_ID_NT = 500"
definition WKSSVC_VERSION_MAJOR :: u32 where "WKSSVC_VERSION_MAJOR = 2"
definition WKSSVC_VERSION_MINOR :: u32 where "WKSSVC_VERSION_MINOR = 1"

definition netwksta_entry_rep_ctr100 :: "('x ksmbd_dcerpc_scheme, unit) act" where
  "netwksta_entry_rep_ctr100 =
     sq (ndr_write_int32 WKSSVC_PLATFORM_ID_NT) (sq ndr_write_ref (sq ndr_write_ref
    (sq (ndr_write_int32 WKSSVC_VERSION_MAJOR) (ndr_write_int32 WKSSVC_VERSION_MINOR))))"

definition netwksta_entry_data_ctr100 :: "rpc_env \<Rightarrow> ('x usm_scheme, unit) svc" where
  "netwksta_entry_data_ctr100 env =
     bnd (get_req wi_of) (\<lambda>w.
     bnd (str_val (str_ptr (wi_server_name w))) (\<lambda>s.
     sq (write_vstring env s)
    (bnd (rpc_conf work_group) (write_vstring env))))"

section \<open>Calling them\<close>

definition entry_share :: "rpc_entry option \<Rightarrow> ('x shm_scheme, ksmbd_share) svc" where
  "entry_share e = (case e of Some (Share_entry a) \<Rightarrow> on_world (get_share a) | _ \<Rightarrow> fail Fault)"

definition entry_rep :: "entry_cb \<Rightarrow> rpc_entry option \<Rightarrow> ('x shm_scheme, unit) svc" where
  "entry_rep cb e = (case cb of No_cb \<Rightarrow> fail Fault
     | Share_cb ctr \<Rightarrow> if ctr = 0 then ndr_write_ref else bnd (entry_share e) (share_entry_rep ctr)
     | Share_null_cb ctr \<Rightarrow> share_entry_null_rep ctr
     | Wksta_cb \<Rightarrow> netwksta_entry_rep_ctr100)"

definition entry_data :: "rpc_env \<Rightarrow> entry_cb \<Rightarrow> rpc_entry option \<Rightarrow> ('x shm_scheme, unit) svc" where
  "entry_data env cb e = (case cb of Share_cb ctr \<Rightarrow> bnd (entry_share e) (share_entry_data env ctr)
     | Wksta_cb \<Rightarrow> netwksta_entry_data_ctr100 env
     | _ \<Rightarrow> fail Fault)"

definition entry_size :: "entry_cb \<Rightarrow> rpc_entry option \<Rightarrow> ('x shm_scheme, int) svc" where
  "entry_size cb e = (case cb of Share_cb ctr \<Rightarrow> bnd (entry_share e) (\<lambda>sh. ret (share_entry_size ctr sh)) | _ \<Rightarrow> fail Fault)"

text \<open>\<open>g_ptr_array_remove_index (pipe->entries, 0)\<close>: NULL when the array is empty.\<close>

definition remove_first :: "('x, rpc_entry option) pipe_act" where
  "remove_first = (\<lambda>d. case pipe_entries d of [] \<Rightarrow> (Inr None, d) | e # es \<Rightarrow> (Inr (Some e), d\<lparr>pipe_entries := es\<rparr>))"

definition share_entry_processed :: "rpc_env \<Rightarrow> ('x shm_scheme, unit) svc" where
  "share_entry_processed env =
     bnd remove_first (\<lambda>e.
     sq (modify (\<lambda>d. d\<lparr>pipe_num_entries := pipe_num_entries d - 1, pipe_num_processed := pipe_num_processed d + 1\<rparr>))
    (case e of None \<Rightarrow> ret ()
     | Some (Share_entry a) \<Rightarrow> on_world (put_ksmbd_share (env_sys env) (Some a))
     | Some (Names_entry _) \<Rightarrow> fail Fault))"

definition lsarpc_entry_processed :: "('x usm_scheme, unit) svc" where
  "lsarpc_entry_processed =
     bnd remove_first (\<lambda>e. case e of Some (Names_entry ni) \<Rightarrow> on_world (put_ksmbd_user (ni_user ni)) | _ \<Rightarrow> fail Fault)"

definition entry_processed :: "rpc_env \<Rightarrow> processed_cb \<Rightarrow> ('x shm_scheme, unit) svc" where
  "entry_processed env cb = (case cb of No_processed \<Rightarrow> fail Fault
     | Share_processed \<Rightarrow> share_entry_processed env | Names_processed \<Rightarrow> lsarpc_entry_processed)"

definition process_entries :: "rpc_env \<Rightarrow> int \<Rightarrow> ('x shm_scheme, unit) svc" where
  "process_entries env n =
     bnd (reads pipe_entry_processed) (\<lambda>cb.
     if cb = No_processed then ret () else each (\<lambda>_. entry_processed env cb) [0..<nat n])"

definition rpc_pipe_reset :: "rpc_env \<Rightarrow> ('x shm_scheme, unit) svc" where
  "rpc_pipe_reset env =
     bnd (reads pipe_num_entries) (\<lambda>n.
     sq (process_entries env n)
        (modify (\<lambda>d. d\<lparr>pipe_num_entries := 0, pipe_ioctl_reply_consumed := False\<rparr>)))"

section \<open>Arrays of structures\<close>

definition entry_at :: "nat \<Rightarrow> ('x, rpc_entry) pipe_act" where
  "entry_at i = (\<lambda>d. if i < length (pipe_entries d) then (Inr (pipe_entries d ! i), d) else (Inl Fault, d))"

definition ndr_write_array :: "rpc_env \<Rightarrow> int \<Rightarrow> ('x shm_scheme, int) svc" where
  "ndr_write_array env max_entry_nr =
     rpc_try KSMBD_RPC_EBAD_DATA
       (each (\<lambda>i. bnd (entry_at i) (\<lambda>e. bnd (reads dce_entry_rep) (\<lambda>cb. entry_rep cb (Some e)))) [0..<nat max_entry_nr]) (\<lambda>_.
     rpc_try KSMBD_RPC_EBAD_DATA
       (each (\<lambda>i. bnd (entry_at i) (\<lambda>e. bnd (reads dce_entry_data) (\<lambda>cb. entry_data env cb (Some e)))) [0..<nat max_entry_nr]) (\<lambda>_.
     sq (process_entries env max_entry_nr) (ret KSMBD_RPC_OK)))"

text \<open>The loop of \<open>__max_entries\<close> from entry \<open>i\<close> on.\<close>

fun max_entries_from :: "nat \<Rightarrow> nat \<Rightarrow> int \<Rightarrow> ('x shm_scheme, int) svc" where
  "max_entries_from 0 i current_size = reads pipe_num_entries"
| "max_entries_from (Suc k) i current_size =
     bnd (entry_at i) (\<lambda>e.
     bnd (bnd (reads dce_entry_size) (\<lambda>cb. entry_size cb (Some e))) (\<lambda>sz.
     bnd (reads (\<lambda>d. word_of_int (current_size + sz) < 4 * dce_payload_sz d div 5)) (\<lambda>fits.
     if fits then max_entries_from k (Suc i) (current_size + sz) else ret (int i))))"

definition max_entries :: "('x shm_scheme, int) svc" where
  "max_entries =
     bnd (reads (dce_test KSMBD_DCERPC_FIXED_PAYLOAD_SZ)) (\<lambda>fixed.
     bnd (reads dce_entry_size) (\<lambda>cb.
     bnd (reads pipe_num_entries) (\<lambda>n.
     if \<not> fixed \<or> cb = No_cb then ret n else max_entries_from (nat n) 0 0)))"

definition ndr_write_empty_array_of_struct :: "('x ksmbd_dcerpc_scheme, int) act" where
  "ndr_write_empty_array_of_struct =
     rpc_try KSMBD_RPC_EBAD_DATA ndr_write_ref (\<lambda>_.
     rpc_try KSMBD_RPC_EBAD_DATA (ndr_write_int32 0) (\<lambda>_.
     rpc_try KSMBD_RPC_EBAD_DATA (ndr_write_int32 0) (\<lambda>_. ret KSMBD_RPC_OK)))"

definition ndr_write_array_of_structs :: "rpc_env \<Rightarrow> ('x shm_scheme, int) svc" where
  "ndr_write_array_of_structs env =
     bnd (reads pipe_num_entries) (\<lambda>n.
     if n = 0 then ndr_write_empty_array_of_struct
     else bnd max_entries (\<lambda>nr.
     rpc_try KSMBD_RPC_EBAD_DATA (ndr_write_int32 (word_of_int nr)) (\<lambda>_.
     rpc_try KSMBD_RPC_EBAD_DATA (ndr_write_int32 (word_of_int nr)) (\<lambda>_.
     rpc_try KSMBD_RPC_EBAD_DATA (ndr_write_int32 0) (\<lambda>_.
     rpc_try KSMBD_RPC_EBAD_DATA (ndr_write_int32 (word_of_int nr)) (\<lambda>_.
     if nr = 0 then sq (rpc_pipe_reset env) (ret KSMBD_RPC_EBAD_DATA)
     else ndr_write_array env nr))))))"

section \<open>The common end of a response\<close>

text \<open>The status, the headers in front, and the size of the answer.\<close>

definition finish_response :: "int \<Rightarrow> int \<Rightarrow> ('x, int) pipe_act" where
  "finish_response status r =
     rpc_try KSMBD_RPC_EBAD_DATA (ndr_write_int32 (word_of_int status)) (\<lambda>_.
     rpc_try KSMBD_RPC_EBAD_DATA (dcerpc_write_headers status) (\<lambda>_.
     sq (modify (\<lambda>d. d\<lparr>dce_resp_payload_sz := ucast (dce_offset d)\<rparr>)) (ret r)))"

text \<open>\<open>buf\<close> is the memory behind \<open>resp->payload\<close>.\<close>

definition set_resp :: "bytes \<Rightarrow> int \<Rightarrow> ('x ksmbd_dcerpc_scheme, unit) act" where
  "set_resp buf max_resp_sz =
     (let sz = word_of_int max_resp_sz in modify (dcerpc_set_ext_payload (take (unat sz) buf) sz))"

section \<open>Procedures that only marshal\<close>

text \<open>
  A \<open>writer\<close> moves the cursor, writes bytes and counts referents, and nothing else; it does not
  fault from states with \<open>P\<close>.  \<open>mild\<close> predicates do not look at what a writer changes.
\<close>

definition drift :: "'x ksmbd_dcerpc_scheme \<Rightarrow> 'x ksmbd_dcerpc_scheme \<Rightarrow> bool" where
  "drift d e \<longleftrightarrow> (\<exists>k p n. e = d\<lparr>dce_offset := k, dce_payload := p, dce_num_pointers := n\<rparr>)"

definition mild :: "('x ksmbd_dcerpc_scheme \<Rightarrow> bool) \<Rightarrow> bool" where
  "mild P \<longleftrightarrow> (\<forall>d k p n. P (d\<lparr>dce_offset := k, dce_payload := p, dce_num_pointers := n\<rparr>) = P d)"

definition writer :: "('x ksmbd_dcerpc_scheme \<Rightarrow> bool) \<Rightarrow> ('x ksmbd_dcerpc_scheme, 'a) act \<Rightarrow> bool" where
  "writer P m \<longleftrightarrow> (\<forall>d. ndr_inv d \<and> P d \<longrightarrow> (case m d of (r, e) \<Rightarrow> r \<noteq> Inl Fault \<and> ndr_inv e \<and> drift d e))"

named_theorems writer \<open>structural rules for writers\<close>

lemma drift_refl: "drift d d"
  unfolding drift_def by (rule exI [of _ "dce_offset d"], rule exI [of _ "dce_payload d"], rule exI [of _ "dce_num_pointers d"]) simp

lemma drift_trans: "drift d e \<Longrightarrow> drift e f \<Longrightarrow> drift d f"
  unfolding drift_def by (elim exE) (simp, blast)

lemma mildD: "mild P \<Longrightarrow> drift d e \<Longrightarrow> P e = P d"
  by (auto simp: mild_def drift_def)

lemma mild_true [simp]: "mild (\<lambda>_. True)"
  by (simp add: mild_def)

lemma mild_conj: "mild P \<Longrightarrow> mild Q \<Longrightarrow> mild (\<lambda>d. P d \<and> Q d)"
  by (simp add: mild_def)

lemma writerD: "writer P m \<Longrightarrow> ndr_inv d \<Longrightarrow> P d \<Longrightarrow> m d = (r, e) \<Longrightarrow> r \<noteq> Inl Fault \<and> ndr_inv e \<and> drift d e"
  unfolding writer_def by (drule spec [of _ d]) simp

lemma writerI:
  "(\<And>d r e. ndr_inv d \<Longrightarrow> P d \<Longrightarrow> m d = (r, e) \<Longrightarrow> r \<noteq> Inl Fault \<and> ndr_inv e \<and> drift d e) \<Longrightarrow> writer P m"
  unfolding writer_def by (auto split: prod.split)

lemma writer_ret [writer]: "writer P (ret x)"
  by (rule writerI) (auto simp: ret_def drift_refl)

lemma writer_fail [writer]: "writer P (fail (Err e))"
  by (rule writerI) (auto simp: fail_def drift_refl)

lemma writer_pure: "(\<And>d. P d \<Longrightarrow> \<exists>x. m d = (Inr x, d)) \<Longrightarrow> writer P m"
  by (rule writerI) (force simp: drift_refl)

lemma writer_reads [writer]: "writer P (reads f)"
  by (rule writer_pure) (simp add: reads_def)

lemma writer_ndr: "ndr_safe m \<Longrightarrow> ndr_forward m \<Longrightarrow> writer P m"
proof (rule writerI)
  fix d r e assume m: "ndr_safe m" "ndr_forward m" and d: "ndr_inv d" "m d = (r, e)"
  have "ndr_step d e" by (rule ndr_forwardD [OF m(2) d])
  then obtain k p where "e = d\<lparr>dce_offset := k, dce_payload := p\<rparr>" by (auto simp: ndr_step_def)
  then have "e = d\<lparr>dce_offset := k, dce_payload := p, dce_num_pointers := dce_num_pointers d\<rparr>" by simp
  then show "r \<noteq> Inl Fault \<and> ndr_inv e \<and> drift d e"
    using ndr_safeD [OF m(1) d] unfolding drift_def by blast
qed

lemma writer_bnd [writer]:
  assumes P: "mild P" and m: "writer P m" and f: "\<And>x. writer P (f x)"
  shows "writer P (bnd m f)"
proof (rule writerI)
  fix d r e assume d: "ndr_inv d" "P d" and b: "bnd m f d = (r, e)"
  obtain r' d' where m': "m d = (r', d')" by (cases "m d")
  note s = writerD [OF m d m']
  show "r \<noteq> Inl Fault \<and> ndr_inv e \<and> drift d e"
  proof (cases r')
    case (Inl x)
    with b m' s show ?thesis by auto
  next
    case (Inr x)
    with b m' have "f x d' = (r, e)" by simp
    with s P d(2) show ?thesis
      using writerD [OF f, of d' x r e] by (auto simp: mildD intro: drift_trans)
  qed
qed

lemma writer_sq [writer]: "mild P \<Longrightarrow> writer P m \<Longrightarrow> writer P n \<Longrightarrow> writer P (sq m n)"
  unfolding sq_def by (rule writer_bnd)

lemma writer_if [writer]: "(b \<Longrightarrow> writer P m) \<Longrightarrow> (\<not> b \<Longrightarrow> writer P n) \<Longrightarrow> writer P (if b then m else n)"
  by simp

lemma writer_option [writer]:
  "(r = None \<Longrightarrow> writer P m) \<Longrightarrow> (\<And>x. r = Some x \<Longrightarrow> writer P (f x)) \<Longrightarrow> writer P (case r of None \<Rightarrow> m | Some x \<Rightarrow> f x)"
  by (cases r) simp_all

lemma writer_each [writer]: "mild P \<Longrightarrow> (\<And>x. x \<in> set xs \<Longrightarrow> writer P (f x)) \<Longrightarrow> writer P (each f xs)"
  by (induction xs) (simp_all add: writer_ret writer_sq)

lemma writer_try [writer]:
  assumes P: "mild P" and m: "writer P m" and f: "\<And>x. writer P (f x)"
  shows "writer P (rpc_try st m f)"
proof (rule writerI)
  fix d r e assume d: "ndr_inv d" "P d" and b: "rpc_try st m f d = (r, e)"
  obtain r' d' where m': "m d = (r', d')" by (cases "m d")
  note s = writerD [OF m d m']
  show "r \<noteq> Inl Fault \<and> ndr_inv e \<and> drift d e"
  proof (cases r')
    case (Inl x)
    with b m' s show ?thesis by (cases x) (auto simp: rpc_try_def)
  next
    case (Inr x)
    with b m' have "f x d' = (r, e)" by (simp add: rpc_try_def)
    with s P d(2) show ?thesis
      using writerD [OF f, of d' x r e] by (auto simp: mildD intro: drift_trans)
  qed
qed

lemma writer_or_else [writer]: "writer P m \<Longrightarrow> writer P (or_else er m)"
proof (rule writerI)
  fix d r e assume m: "writer P m" and d: "ndr_inv d" "P d" and o: "or_else er m d = (r, e)"
  obtain r' d' where m': "m d = (r', d')" by (cases "m d")
  from writerD [OF m d m'] o m' show "r \<noteq> Inl Fault \<and> ndr_inv e \<and> drift d e"
    by (auto simp: or_else_def split: sum.splits cerr.splits)
qed

lemma writer_weaken: "writer P m \<Longrightarrow> (\<And>d. Q d \<Longrightarrow> P d) \<Longrightarrow> writer Q m"
  by (auto simp: writer_def)

text \<open>The basic writers.\<close>

lemma writer_ints [writer]:
  "writer P (ndr_write_int8 a)" "writer P (ndr_write_int16 b)" "writer P (ndr_write_int32 c)" "writer P (ndr_write_int64 e)"
  by (rule writer_ndr; intro ndr_safe)+

lemma ndr_write_union32_safe: "ndr_safe (ndr_write_union_int32 v)" "ndr_forward (ndr_write_union_int32 v)"
  unfolding ndr_write_union_int32_def by (intro ndr_safe)+

lemma writer_union [writer]: "writer P (ndr_write_union_int32 v)"
  by (rule writer_ndr; rule ndr_write_union32_safe)

lemma writer_bytes [writer]: "length bs < 2 ^ 62 \<Longrightarrow> writer P (ndr_write_bytes bs)"
  by (rule writer_ndr; intro ndr_safe; simp)

lemma writer_ref [writer]: "writer P ndr_write_ref"
proof (rule writer_weaken [of "\<lambda>_. True"])
  have "writer (\<lambda>_. True) (modify (\<lambda>d. d\<lparr>dce_num_pointers := dce_num_pointers d + 1\<rparr>) :: ('a ksmbd_dcerpc_scheme, unit) act)"
  proof (rule writerI)
    fix d :: "'a ksmbd_dcerpc_scheme" and r e
    assume d: "ndr_inv d" and m: "modify (\<lambda>d. d\<lparr>dce_num_pointers := dce_num_pointers d + 1\<rparr>) d = (r, e)"
    from m have e: "r = Inr ()" "e = d\<lparr>dce_num_pointers := dce_num_pointers d + 1\<rparr>" by (simp_all add: modify_def)
    then have "e = d\<lparr>dce_offset := dce_offset d, dce_payload := dce_payload d, dce_num_pointers := dce_num_pointers d + 1\<rparr>" by simp
    then have "drift d e" unfolding drift_def by blast
    with e d show "r \<noteq> Inl Fault \<and> ndr_inv e \<and> drift d e" by (simp add: ndr_inv_def)
  qed
  then show "writer (\<lambda>_. True) (ndr_write_ref :: ('a ksmbd_dcerpc_scheme, unit) act)"
    unfolding ndr_write_ref_def by (intro writer) simp_all
qed simp

text \<open>Conversions deliver strings that fit into memory.\<close>

definition convert_ok :: "g_convert \<Rightarrow> bool" where
  "convert_ok g \<longleftrightarrow> (\<forall>s a b out. ksmbd_gconvert g s a b = Some out \<longrightarrow> length out < 2 ^ 62)"

lemma ndr_convert_length:
  assumes "convert_ok g" and "ndr_convert_char_to_unicode g s d = (Inr out, e)"
  shows "length out < 2 ^ 62"
  using assms unfolding convert_ok_def ndr_convert_char_to_unicode_def
  by (auto simp: bnd_def reads_def ret_def fail_def split: option.splits)

lemma writer_convert:
  assumes g: "convert_ok g" and P: "mild P" and f: "\<And>out. length out < 2 ^ 62 \<Longrightarrow> writer P (f out)"
  shows "writer P (bnd (ndr_convert_char_to_unicode g s) f)"
proof (rule writerI)
  fix d r e assume d: "ndr_inv d" "P d" and b: "bnd (ndr_convert_char_to_unicode g s) f d = (r, e)"
  have w: "writer P (ndr_convert_char_to_unicode g s)"
    by (rule writer_ndr; intro ndr_safe)
  obtain r' d' where m: "ndr_convert_char_to_unicode g s d = (r', d')" by (cases "ndr_convert_char_to_unicode g s d")
  note st = writerD [OF w d m]
  show "r \<noteq> Inl Fault \<and> ndr_inv e \<and> drift d e"
  proof (cases r')
    case (Inl x)
    with b m st show ?thesis by auto
  next
    case (Inr out)
    with b m have "f out d' = (r, e)" by simp
    moreover have "length out < 2 ^ 62"
      by (rule ndr_convert_length [OF g]) (use m Inr in simp)
    ultimately show ?thesis
      using writerD [OF f, of out d' r e] st P d(2) by (auto simp: mildD intro: drift_trans)
  qed
qed

lemma writer_align [writer]: "writer P auto_align_offset"
  by (rule writer_ndr) (rule auto_align_offset_safe)+

lemma writer_bytes_aligned [writer]:
  assumes "length out < 2 ^ 62"
  shows "writer P (ndr_write_bytes_aligned out)"
proof (rule writerI)
  fix d r e assume d: "ndr_inv d" "P d" and b: "ndr_write_bytes_aligned out d = (r, e)"
  obtain d' where m: "ndr_write_bytes out d = (r, d')"
    using b by (cases "ndr_write_bytes out d") (auto simp: ndr_write_bytes_aligned_def)
  with b have e: "snd (auto_align_offset d') = e" by (simp add: ndr_write_bytes_aligned_def)
  note s = writerD [OF writer_bytes [OF assms] d(1) TrueI m]
  obtain r' where a: "auto_align_offset d' = (r', e)" using e by (cases "auto_align_offset d'") simp
  have "ndr_inv d'" using s by simp
  from writerD [OF writer_align this TrueI a] s show "r \<noteq> Inl Fault \<and> ndr_inv e \<and> drift d e"
    by (auto intro: drift_trans)
qed

lemma writer_vstring [writer]:
  "convert_ok (env_convert env) \<Longrightarrow> mild P \<Longrightarrow> writer P (write_vstring env s)"
  unfolding write_vstring_def ndr_write_vstring_def Let_def by (intro writer_convert writer) assumption

lemma writer_string [writer]: "convert_ok g \<Longrightarrow> mild P \<Longrightarrow> writer P (ndr_write_string g s)"
  unfolding ndr_write_string_def Let_def by (intro writer_convert writer) assumption

lemma writer_lsa_string [writer]: "convert_ok g \<Longrightarrow> mild P \<Longrightarrow> writer P (ndr_write_lsa_string g s)"
  unfolding ndr_write_lsa_string_def Let_def by (intro writer_convert writer) assumption

lemma valid_writer:
  assumes "writer P m" and "mild R" and "\<And>d. R d \<Longrightarrow> P d"
  shows "valid (\<lambda>d. ndr_inv d \<and> R d) m (\<lambda>_ d. ndr_inv d \<and> R d) (\<lambda>d. ndr_inv d \<and> R d)"
proof (rule validI, elim conjE)
  fix d assume d: "ndr_inv d" "R d"
  obtain r e where m: "m d = (r, e)" by (cases "m d")
  from writerD [OF assms(1) d(1) assms(3) [OF d(2)] m] mildD [OF assms(2)] d(2)
  show "case m d of (Inr x, t) \<Rightarrow> ndr_inv t \<and> R t | (Inl (Err e), t) \<Rightarrow> ndr_inv t \<and> R t | (Inl Fault, t) \<Rightarrow> False"
    by (cases r) (auto simp: m split: cerr.splits)
qed

section \<open>Writing the headers\<close>

definition resp_body :: "(dcerpc_header \<Rightarrow> dcerpc_header) \<Rightarrow> (dcerpc_request_header \<Rightarrow> dcerpc_request_header) \<Rightarrow> ('x, unit) pipe_act" where
  "resp_body f g = sq (sq (set_hdr f) (bnd (reads dce_hdr) dcerpc_hdr_write))
     (sq (modify (\<lambda>d. d\<lparr>dce_req_hdr := g (dce_req_hdr d)\<rparr>)) (bnd (reads dce_req_hdr) dcerpc_response_hdr_write))"

lemma write_headers_eq:
  "dcerpc_write_headers st =
     bnd (reads (\<lambda>d. int_offset (dce_offset d))) (\<lambda>l. sq (goto_offset 0) (sq (resp_body
       (\<lambda>h. h\<lparr>ptype := DCERPC_PTYPE_RPC_RESPONSE,
          pfc_flags := (if st = KSMBD_RPC_EMORE_DATA then DCERPC_PFC_FIRST_FRAG
                        else DCERPC_PFC_FIRST_FRAG OR DCERPC_PFC_LAST_FRAG), frag_length := ucast l\<rparr>)
       (\<lambda>h. h\<lparr>alloc_hint := l, opnum := 0\<rparr>)) (set_offset l)))"
  by (simp add: dcerpc_write_headers_def resp_body_def sq_def bnd_assoc)

lemma resp_body_valid:
  assumes "calm R"
  shows "valid (\<lambda>d. ndr_inv d \<and> R d) (resp_body f g) (\<lambda>_ d. ndr_inv d \<and> R d) (\<lambda>d. ndr_inv d \<and> R d)"
  unfolding resp_body_def
  apply (rule valid_sq [OF hdr_write_valid [OF assms]])
  apply (rule valid_sq [OF valid_modify [where Q = "\<lambda>_ d. ndr_inv d \<and> R d"]])
   apply (simp add: assms)
  apply (rule valid_bnd [OF valid_reads [where Q = "\<lambda>_ d. ndr_inv d \<and> R d"]], assumption)
  apply (rule valid_ndr, intro ndr_safe, intro ndr_safe)
  apply (rule calm_steady [OF assms])
  done

lemma resp_body_psz:
  fixes d :: "'x ksmbd_rpc_pipe_scheme"
  assumes "ndr_inv d"
  shows "psz (snd (resp_body f g d)) = psz d"
proof -
  have R: "calm (\<lambda>e :: 'x ksmbd_rpc_pipe_scheme. psz e = psz d)"
    by (simp add: calm_def steady_def)
  have "ndr_inv d \<and> psz d = psz d" using assms by simp
  from validD [OF resp_body_valid [OF R, of f g] this] show ?thesis
    by (cases "resp_body f g d"; cases "fst (resp_body f g d)") (auto split: cerr.splits)
qed

lemma write_headers_valid:
  assumes R: "calm R" "\<And>d. R d \<Longrightarrow> rpc_room d"
  shows "valid (\<lambda>d. ndr_inv d \<and> R d) (dcerpc_write_headers st) (\<lambda>_ d. ndr_inv d \<and> R d) (\<lambda>d. ndr_inv d \<and> R d)"
  unfolding write_headers_eq
  by (rule valid_excursion [OF calm_steady [OF R(1)] R(2) resp_body_valid [OF R(1)] calm_steady [OF R(1)] resp_body_psz])

lemma finish_response_valid:
  assumes R: "calm R" "\<And>d. R d \<Longrightarrow> rpc_room d"
  shows "valid (\<lambda>d. ndr_inv d \<and> R d) (finish_response st r) (\<lambda>_ d. ndr_inv d \<and> R d) E"
  unfolding finish_response_def
  apply (rule valid_ndr_try [OF _ _ calm_steady [OF R(1)]], intro ndr_safe, intro ndr_safe)
   apply (rule valid_rpc_try [OF write_headers_valid [OF R]], assumption)
    apply (rule valid_sq [OF valid_modify [where Q = "\<lambda>_ d. ndr_inv d \<and> R d"]], simp add: R(1))
    apply (rule valid_ret)
    apply simp_all
  done

lemma valid_writer_try:
  assumes "writer P m" and "mild R" and "\<And>d. R d \<Longrightarrow> P d"
    and "\<And>x. valid (\<lambda>d. ndr_inv d \<and> R d) (f x) Q E" and "\<And>d. ndr_inv d \<Longrightarrow> R d \<Longrightarrow> Q st d"
  shows "valid (\<lambda>d. ndr_inv d \<and> R d) (rpc_try st m f) Q E"
  by (rule valid_rpc_try [OF valid_writer [OF assms(1-3)] assms(4)]) (use assms(5) in auto)

text \<open>The world of a procedure.\<close>

lemma valid_on_world:
  assumes "valid P m Q E"
  shows "valid (\<lambda>d. R d \<and> P (rpc_world d)) (on_world m) (\<lambda>x d. (\<exists>e. R e \<and> d = e\<lparr>rpc_world := rpc_world d\<rparr>) \<and> Q x (rpc_world d))
     (\<lambda>d. (\<exists>e. R e \<and> d = e\<lparr>rpc_world := rpc_world d\<rparr>) \<and> E (rpc_world d))"
proof (rule validI, elim conjE)
  fix d assume R: "R d" and P: "P (rpc_world d)"
  obtain r g where m: "m (rpc_world d) = (r, g)" by (cases "m (rpc_world d)")
  have e: "\<exists>e. R e \<and> d\<lparr>rpc_world := g\<rparr> = e\<lparr>rpc_world := g\<rparr>" using R by blast
  from validD [OF assms P] m e
  show "case on_world m d of (Inr x, t) \<Rightarrow> (\<exists>e. R e \<and> t = e\<lparr>rpc_world := rpc_world t\<rparr>) \<and> Q x (rpc_world t)
     | (Inl (Err _), t) \<Rightarrow> (\<exists>e. R e \<and> t = e\<lparr>rpc_world := rpc_world t\<rparr>) \<and> E (rpc_world t) | (Inl Fault, t) \<Rightarrow> False"
    by (cases r) (auto simp: on_world_def split: cerr.splits)
qed

lemma owns_req [simp]: "owns L bs (d\<lparr>dce_req := r\<rparr>) = owns L bs d"
  by (simp add: owns_def)

lemma restricted_valid:
  assumes "\<And>d. R d \<Longrightarrow> dce_rpc_req d \<noteq> None"
  shows "valid R restricted (\<lambda>_. R) E"
proof (rule validI)
  fix d assume "R d"
  moreover then obtain f where "dce_rpc_req d = Some f" using assms by blast
  ultimately show "case restricted d of (Inr x, t) \<Rightarrow> R t | (Inl (Err e), t) \<Rightarrow> E t | (Inl Fault, t) \<Rightarrow> False"
    by (simp add: restricted_def rpc_conf_def rpc_restricted_context_def rpc_req_flags_def bnd_def reads_def ret_def)
qed

lemma rpc_pipe_reset_empty:
  "pipe_num_entries d = 0 \<Longrightarrow> rpc_pipe_reset env d = (Inr (), d\<lparr>pipe_num_entries := 0, pipe_ioctl_reply_consumed := False\<rparr>)"
  by (simp add: rpc_pipe_reset_def process_entries_def bnd_def sq_def reads_def modify_def ret_def)

lemma set_resp_eq:
  assumes "0 \<le> n" and "n < 2 ^ 30" and "length buf = nat n"
  shows "set_resp buf n d = (Inr (), dcerpc_set_ext_payload buf (word_of_int n) d)"
    and "ndr_inv (dcerpc_set_ext_payload buf (word_of_int n) d)" and "rpc_room (dcerpc_set_ext_payload buf (word_of_int n) d)"
proof -
  have n: "unat (word_of_int n :: u64) = nat n"
    using assms(1,2) by (simp add: unsigned_of_int take_bit_int_eq_self)
  then show "set_resp buf n d = (Inr (), dcerpc_set_ext_payload buf (word_of_int n) d)"
    using assms(3) by (simp add: set_resp_def modify_def Let_def)
  show "ndr_inv (dcerpc_set_ext_payload buf (word_of_int n) d)"
    using assms n by (intro dcerpc_set_ext_payload_inv) auto
  show "rpc_room (dcerpc_set_ext_payload buf (word_of_int n) d)"
    using assms n by (simp add: rpc_room_def dcerpc_set_ext_payload_def)
qed

section \<open>Strings of a request\<close>

text \<open>
  The contract of a member that holds a string.  \<open>ready\<close>: the member owns no block; \<open>held\<close>: its
  pointer is NULL or points to a block of its own.  Once the referent identifier has been read the
  member is in one of the two states, and freeing it brings it back.
\<close>

lemma vstring_tail_forward:
  "ndr_forward (bnd (vstring_bytes a) (\<lambda>raw_bytes. bnd (dce_load raw_bytes) (\<lambda>raw.
     bnd (reads (\<lambda>d. ksmbd_gconvert g raw KSMBD_CHARSET_UTF8 (ndr_charset d))) (\<lambda>out.
     case out of None \<Rightarrow> fail (Err EINVAL)
     | Some bs \<Rightarrow> sq (dce_advance raw_bytes) (sq auto_align_offset (ret (takeWhile (\<lambda>b. b \<noteq> 0) bs)))))))"
    (is "ndr_forward ?m")
  unfolding ndr_forward_def
proof (intro allI impI)
  fix d :: "'a ksmbd_dcerpc_scheme"
  assume d: "ndr_inv d"
  obtain r t where v: "vstring_bytes a d = (r, t)" by (cases "vstring_bytes a d")
  with vstring_bytes_cases [OF d v] consider "r = Inl (Err EINVAL)" "t = d"
    | n where "r = Inr n" "t = d" "off d + n \<le> psz d" by auto
  then show "ndr_step d (snd (?m d))"
  proof cases
    case 1
    with v show ?thesis by (simp add: bnd_def ndr_step_refl)
  next
    case (2 n)
    let ?s = "seek (off d + n) d"
    have s: "ndr_inv ?s" by (rule ndr_inv_moved(2) [OF d 2(3)])
    have "ndr_step ?s (snd (auto_align_offset ?s))"
      using auto_align_offset_safe(2) s by (auto simp: ndr_forward_def)
    with ndr_step_moved(2) [OF d 2(3)] have "ndr_step d (snd (auto_align_offset ?s))"
      by (auto intro: ndr_step_trans)
    then show ?thesis
      using vstring_tail_eq [OF d, of a n g] v 2 by (simp add: ndr_step_refl split: option.split)
  qed
qed

lemma vstring_forward: "ndr_forward (ndr_read_vstring g)"
  unfolding ndr_read_vstring_def by (intro ndr_safe vstring_tail_forward)

abbreviation room4 :: "'x ksmbd_dcerpc_scheme \<Rightarrow> bool" where
  "room4 d \<equiv> up 4 (off d) + 4 \<le> psz d"

lemma read_int32_room:
  assumes "ndr_inv d" and "room4 d"
  shows "\<exists>v k. or_else EINVAL ndr_read_int32 d = (Inr v, d\<lparr>dce_offset := k\<rparr>) \<and> ndr_inv (d\<lparr>dce_offset := k\<rparr>)"
proof -
  have "ndr_width 4" by simp
  from ndr_read_int_eq [OF assms(1) this] assms(2) have
    "fst (ndr_read_int 4 d) \<noteq> Inl Fault" "\<exists>n k. ndr_read_int 4 d = (Inr n, d\<lparr>dce_offset := k\<rparr>)"
    by (auto simp: Let_def seek_def)
  then obtain n k where r: "ndr_read_int 4 d = (Inr n, d\<lparr>dce_offset := k\<rparr>)" by blast
  then have v: "or_else EINVAL ndr_read_int32 d = (Inr (word_of_nat n), d\<lparr>dce_offset := k\<rparr>)"
    by (simp add: ndr_read_int32_def or_else_def bnd_def ret_def)
  have "ndr_safe (or_else EINVAL ndr_read_int32 :: ('a ksmbd_dcerpc_scheme, u32) act)" by (intro ndr_safe)
  from ndr_safeD [OF this assms(1) v] v show ?thesis by blast
qed

locale string_slot =
  fixes upd :: "(uniq_char_ptr \<Rightarrow> uniq_char_ptr) \<Rightarrow> ('x, unit) pipe_act" and get :: "('x, uniq_char_ptr) pipe_act"
    and ready :: "'x ksmbd_rpc_pipe_scheme \<Rightarrow> bool" and held :: "'x ksmbd_rpc_pipe_scheme \<Rightarrow> bool"
  assumes ready_steady: "steady ready" and held_steady: "steady held"
    and upd_ref: "valid (\<lambda>d. ndr_inv d \<and> ready d) (upd (ref_id_update f)) (\<lambda>_ d. ndr_inv d \<and> ready d) (\<lambda>_. False)"
    and upd_null: "valid (\<lambda>d. ndr_inv d \<and> ready d) (upd (str_ptr_update (\<lambda>_. Null))) (\<lambda>_ d. ndr_inv d \<and> held d) (\<lambda>_. False)"
    and upd_block: "valid (\<lambda>d. ndr_inv d \<and> ready d) (bnd rpc_alloc (\<lambda>n. upd (str_ptr_update (\<lambda>_. Blk n s))))
       (\<lambda>_ d. ndr_inv d \<and> held d) (\<lambda>_. False)"
    and free_slot: "valid (\<lambda>d. ndr_inv d \<and> held d) (free_uniq_vstring get upd) (\<lambda>_ d. ndr_inv d \<and> ready d) (\<lambda>_. False)"
begin

lemma read_string:
  "valid (\<lambda>d. ndr_inv d \<and> ready d)
     (bnd (on_fail (or_else EINVAL (ndr_read_vstring g)) (upd (str_ptr_update (\<lambda>_. Null)))) (\<lambda>s.
      bnd rpc_alloc (\<lambda>n. upd (str_ptr_update (\<lambda>_. Blk n s)))))
     (\<lambda>_ d. ndr_inv d \<and> held d) (\<lambda>d. ndr_inv d \<and> held d)"
proof (rule valid_bnd)
  show "valid (\<lambda>d. ndr_inv d \<and> ready d) (on_fail (or_else EINVAL (ndr_read_vstring g)) (upd (str_ptr_update (\<lambda>_. Null))))
     (\<lambda>_ d. ndr_inv d \<and> ready d) (\<lambda>d. ndr_inv d \<and> held d)"
    by (rule valid_on_fail [OF valid_ndr upd_null]) (intro ndr_safe vstring_forward ready_steady)+
qed (rule valid_total [OF upd_block])

lemma read_uniq_room:
  "valid (\<lambda>d. (ndr_inv d \<and> ready d) \<and> room4 d) (read_uniq_vstring env upd) (\<lambda>_ d. ndr_inv d \<and> held d) (\<lambda>d. ndr_inv d \<and> held d)"
  unfolding read_uniq_vstring_def
proof (rule valid_bnd)
  show "valid (\<lambda>d. (ndr_inv d \<and> ready d) \<and> room4 d) (or_else EINVAL ndr_read_int32) (\<lambda>_ d. ndr_inv d \<and> ready d) (\<lambda>d. ndr_inv d \<and> held d)"
  proof (rule validI, elim conjE)
    fix d :: "'x ksmbd_rpc_pipe_scheme" assume d: "ndr_inv d" "ready d" "room4 d"
    from read_int32_room [OF d(1,3)] obtain v k where "or_else EINVAL ndr_read_int32 d = (Inr v, d\<lparr>dce_offset := k\<rparr>)"
      "ndr_inv (d\<lparr>dce_offset := k\<rparr>)" by blast
    then show "case or_else EINVAL ndr_read_int32 d of (Inr x, t) \<Rightarrow> ndr_inv t \<and> ready t | (Inl (Err e), t) \<Rightarrow> ndr_inv t \<and> held t
       | (Inl Fault, t) \<Rightarrow> False"
      using d(2) by (simp add: steadyS [OF ready_steady])
  qed
  fix r
  show "valid (\<lambda>d. ndr_inv d \<and> ready d) (sq (upd (ref_id_update (\<lambda>_. r))) (if r = 0 then upd (str_ptr_update (\<lambda>_. Null))
     else bnd (on_fail (or_else EINVAL (ndr_read_vstring (env_convert env))) (upd (str_ptr_update (\<lambda>_. Null)))) (\<lambda>s.
          bnd rpc_alloc (\<lambda>n. upd (str_ptr_update (\<lambda>_. Blk n s)))))) (\<lambda>_ d. ndr_inv d \<and> held d) (\<lambda>d. ndr_inv d \<and> held d)"
    by (rule valid_sq [OF valid_total [OF upd_ref] valid_if [OF valid_total [OF upd_null] read_string]])
qed

end

section \<open>Samples\<close>

definition run_of :: "ksmbd_rpc_pipe \<Rightarrow> 'g \<Rightarrow> 'g rpc_run" where
  "run_of p g = ksmbd_rpc_pipe.extend p (rpc_run.fields g)"

definition short_ucs2 :: g_convert where
  "short_ucs2 to frm str = (case ucs2 to frm str of None \<Rightarrow> None | Some out \<Rightarrow> if length out < 2 ^ 62 then Some out else None)"

lemma gconvert_from: "ksmbd_gconvert g s a b = Some out \<Longrightarrow> \<exists>x y. g x y s = Some out"
  by (induction g s a b rule: ksmbd_gconvert.induct)
    (subst (asm) (2) ksmbd_gconvert.simps, auto split: if_splits option.splits)

lemma short_ucs2_ok: "convert_ok short_ucs2"
  unfolding convert_ok_def using gconvert_from [of short_ucs2]
  by (fastforce simp: short_ucs2_def split: option.splits if_splits)

definition env_sample :: rpc_env where
  "env_sample = \<lparr>env_sys = sample_sys, env_convert = short_ucs2, env_strlen = length, env_pton = (\<lambda>_ _. None),
     env_hostname = Some [104], env_getpwuid = (\<lambda>_. None)\<rparr>"

text \<open>A pipe in the middle of a command with flags \<open>fl\<close>, its stub data not yet read.\<close>

definition run_sample :: "u32 \<Rightarrow> bytes \<Rightarrow> sms rpc_run" where
  "run_sample fl stub = run_of (dcerpc_set_ext_payload stub (word_of_nat (length stub)) (pipe_zero\<lparr>dce_rpc_req := Some fl\<rparr>)) sms_sample"

lemma run_of_sel [simp]:
  "dce_flags (run_of p g) = dce_flags p" "dce_offset (run_of p g) = dce_offset p" "dce_payload_sz (run_of p g) = dce_payload_sz p"
  "dce_payload (run_of p g) = dce_payload p" "dce_req (run_of p g) = dce_req p" "dce_rpc_req (run_of p g) = dce_rpc_req p"
  "dce_req_hdr (run_of p g) = dce_req_hdr p" "pipe_num_entries (run_of p g) = pipe_num_entries p" "rpc_live (run_of p g) = rpc_live p"
  "rpc_next (run_of p g) = rpc_next p" "rpc_world (run_of p g) = g" "ndr_inv (run_of p g) = ndr_inv p"
  "pipe_entries (run_of p g) = pipe_entries p" "pipe_entry_processed (run_of p g) = pipe_entry_processed p"
  "dce_hdr (run_of p g) = dce_hdr p"
  by (simp_all add: run_of_def ksmbd_rpc_pipe.extend_def rpc_run.fields_def ndr_inv_def dce_test_def)

lemma run_sample_inv: "length stub < 2 ^ 62 \<Longrightarrow> ndr_inv (run_sample fl stub)"
  unfolding run_sample_def by (simp, rule dcerpc_set_ext_payload_inv) (simp_all add: unat_of_nat)

end
