(* ===== verification/Rpc_Wkssvc.thy ===== *)
theory Rpc_Wkssvc
  imports Rpc_Pipe
begin

text \<open>
  The workstation service, \<open>src/mountd/rpc_wkssvc.c\<close>: the request parser, the answer, and what the
  two do with the memory of the pipe.
\<close>

section \<open>The service\<close>

definition WKSSVC_NETWKSTA_GET_INFO :: u16 where "WKSSVC_NETWKSTA_GET_INFO = 0"

definition get_wi_name :: "('x, uniq_char_ptr) pipe_act" where
  "get_wi_name = bnd (get_req wi_of) (\<lambda>w. ret (wi_server_name w))"

definition upd_wi_name :: "(uniq_char_ptr \<Rightarrow> uniq_char_ptr) \<Rightarrow> ('x, unit) pipe_act" where
  "upd_wi_name f = set_req wi_of Wi_req (wi_server_name_update f)"

definition wkssvc_clear_headers :: "('x, unit) pipe_act" where
  "wkssvc_clear_headers = free_uniq_vstring get_wi_name upd_wi_name"

definition wkssvc_netwksta_get_info_return :: "rpc_env \<Rightarrow> ('x shm_scheme, int) svc" where
  "wkssvc_netwksta_get_info_return env =
     bnd (get_req wi_of) (\<lambda>w.
     rpc_try KSMBD_RPC_EBAD_DATA (ndr_write_union_int32 (wi_level w)) (\<lambda>_.
     if wi_level w \<noteq> 100
     then sq (modify (\<lambda>d. d\<lparr>dce_entry_rep := No_cb\<rparr>)) (ret KSMBD_RPC_EINVALID_LEVEL)
     else
     rpc_try KSMBD_RPC_EBAD_DATA (bnd (reads dce_entry_rep) (\<lambda>cb. entry_rep cb None)) (\<lambda>_.
     rpc_try KSMBD_RPC_EBAD_DATA (bnd (reads dce_entry_data) (\<lambda>cb. entry_data env cb None)) (\<lambda>_.
     ret KSMBD_RPC_OK))))"

definition wkssvc_netwksta_info_return :: "rpc_env \<Rightarrow> ('x shm_scheme, int) svc" where
  "wkssvc_netwksta_info_return env =
     sq (goto_offset (sizeof_dcerpc_header + sizeof_dcerpc_response_header))
    (sq (modify (\<lambda>d. d\<lparr>pipe_num_processed := 0\<rparr>))
    (bnd (get_req wi_of) (\<lambda>w.
     sq (if wi_level w = 100 then modify (\<lambda>d. d\<lparr>dce_entry_rep := Wksta_cb, dce_entry_data := Wksta_cb\<rparr>)
         else rpc_pipe_reset env)
    (bnd (reads (\<lambda>d. opnum (dce_req_hdr d))) (\<lambda>opn.
     bnd (if opn = WKSSVC_NETWKSTA_GET_INFO then wkssvc_netwksta_get_info_return env else ret KSMBD_RPC_ENOTIMPLEMENTED) (\<lambda>status.
     bnd restricted (\<lambda>r.
     let status = (if r then KSMBD_RPC_EACCESS_DENIED else status) in
     sq wkssvc_clear_headers (finish_response status KSMBD_RPC_OK))))))))"

definition wkssvc_netwksta_get_info_invoke :: "('x, int) pipe_act" where
  "wkssvc_netwksta_get_info_invoke = ret KSMBD_RPC_OK"

definition wkssvc_parse_netwksta_info_req :: "rpc_env \<Rightarrow> ('x, unit) pipe_act" where
  "wkssvc_parse_netwksta_info_req env =
     sq (read_uniq_vstring env upd_wi_name)
    (bnd (or_else EINVAL ndr_read_int32) (\<lambda>val.
     if val > 0x7FFFFFFF then fail (Err EINVAL)
     else set_req wi_of Wi_req (wi_level_update (\<lambda>_. val))))"

definition wkssvc_netwksta_info_invoke :: "rpc_env \<Rightarrow> ('x usm_scheme, int) svc" where
  "wkssvc_netwksta_info_invoke env =
     rpc_try KSMBD_RPC_EBAD_DATA (wkssvc_parse_netwksta_info_req env) (\<lambda>_.
     bnd restricted (\<lambda>r.
     if r then ret KSMBD_RPC_OK
     else bnd (reads (\<lambda>d. opnum (dce_req_hdr d))) (\<lambda>opn.
     if opn = WKSSVC_NETWKSTA_GET_INFO then wkssvc_netwksta_get_info_invoke else ret KSMBD_RPC_ENOTIMPLEMENTED)))"

definition wkssvc_invoke :: "rpc_env \<Rightarrow> ('x usm_scheme, int) svc" where
  "wkssvc_invoke env =
     bnd (reads (\<lambda>d. opnum (dce_req_hdr d))) (\<lambda>opn.
     if opn = WKSSVC_NETWKSTA_GET_INFO then wkssvc_netwksta_info_invoke env else ret KSMBD_RPC_ENOTIMPLEMENTED)"

definition wkssvc_return :: "rpc_env \<Rightarrow> bytes \<Rightarrow> int \<Rightarrow> ('x shm_scheme, int) svc" where
  "wkssvc_return env buf max_resp_sz =
     bnd (reads (\<lambda>d. opnum (dce_req_hdr d))) (\<lambda>opn.
     if opn = WKSSVC_NETWKSTA_GET_INFO then sq (set_resp buf max_resp_sz) (wkssvc_netwksta_info_return env)
     else ret KSMBD_RPC_EBAD_FUNC)"

definition rpc_wkssvc_read_request :: "rpc_env \<Rightarrow> bytes \<Rightarrow> int \<Rightarrow> ('x shm_scheme, int) svc" where
  "rpc_wkssvc_read_request = wkssvc_return"

definition rpc_wkssvc_write_request :: "rpc_env \<Rightarrow> ('x usm_scheme, int) svc" where
  "rpc_wkssvc_write_request = wkssvc_invoke"

section \<open>What it does with memory\<close>

text \<open>The pipe during a call: the command is there, no entries, and the operation is known.\<close>

definition wi_call :: "'x ksmbd_rpc_pipe_scheme \<Rightarrow> bool" where
  "wi_call d \<longleftrightarrow> dce_rpc_req d \<noteq> None \<and> pipe_num_entries d = 0 \<and> opnum (dce_req_hdr d) = WKSSVC_NETWKSTA_GET_INFO"

definition wi_ready :: "nat set \<Rightarrow> 'x ksmbd_rpc_pipe_scheme \<Rightarrow> bool" where
  "wi_ready L d \<longleftrightarrow> wi_of (dce_req d) \<noteq> None \<and> owns L [] d \<and> wi_call d"

definition wi_name :: "nat set \<Rightarrow> uniq_char_ptr \<Rightarrow> 'x ksmbd_rpc_pipe_scheme \<Rightarrow> bool" where
  "wi_name L u d \<longleftrightarrow> str_ptr u \<noteq> Wild \<and> owns L (tok (str_ptr u)) d"

definition wi_held :: "nat set \<Rightarrow> 'x ksmbd_rpc_pipe_scheme \<Rightarrow> bool" where
  "wi_held L d \<longleftrightarrow> (\<exists>w. dce_req d = Wi_req w \<and> wi_name L (wi_server_name w) d) \<and> wi_call d"

lemma wi_call_simps [simp]:
  "wi_call (d\<lparr>dce_req := r\<rparr>) = wi_call d" "wi_call (d\<lparr>rpc_live := l\<rparr>) = wi_call d" "wi_call (d\<lparr>rpc_next := i\<rparr>) = wi_call d"
  "wi_call (d\<lparr>dce_offset := k\<rparr>) = wi_call d" "wi_call (d\<lparr>dce_payload := p\<rparr>) = wi_call d" "wi_call (d\<lparr>dce_num_pointers := j\<rparr>) = wi_call d"
  "wi_call (d\<lparr>pipe_num_processed := c\<rparr>) = wi_call d" "wi_call (d\<lparr>dce_entry_rep := x\<rparr>) = wi_call d"
  "wi_call (d\<lparr>dce_entry_data := y\<rparr>) = wi_call d" "wi_call (d\<lparr>pipe_ioctl_reply_consumed := z\<rparr>) = wi_call d"
  by (simp_all add: wi_call_def)

lemma steady_wi [simp]: "steady (wi_ready L)" "steady (wi_held L)"
  by (simp_all add: steady_def wi_ready_def wi_held_def wi_name_def owns_def)

lemma mild_wi [simp]: "mild (wi_held L)"
  by (simp add: mild_def wi_held_def wi_name_def owns_def)

lemma upd_wi_null:
  "valid (\<lambda>d. ndr_inv d \<and> wi_ready L d) (upd_wi_name (str_ptr_update (\<lambda>_. Null))) (\<lambda>_ d. ndr_inv d \<and> wi_held L d) E"
  by (rule validI) (auto simp: upd_wi_name_def set_req_def get_req_def bnd_def modify_def wi_ready_def wi_held_def wi_name_def tok_def
      split: option.splits)

lemma upd_wi_ref:
  "valid (\<lambda>d. ndr_inv d \<and> wi_ready L d) (upd_wi_name (ref_id_update f)) (\<lambda>_ d. ndr_inv d \<and> wi_ready L d) E"
  by (rule validI) (auto simp: upd_wi_name_def set_req_def get_req_def bnd_def modify_def wi_ready_def wi_of_def
      split: option.splits)

lemma upd_wi_block:
  "valid (\<lambda>d. ndr_inv d \<and> wi_ready L d) (bnd rpc_alloc (\<lambda>n. upd_wi_name (str_ptr_update (\<lambda>_. Blk n s))))
     (\<lambda>_ d. ndr_inv d \<and> wi_held L d) E"
proof (rule validI, elim conjE)
  fix d :: "'a ksmbd_rpc_pipe_scheme"
  assume d: "ndr_inv d" "wi_ready L d"
  then obtain w where w: "wi_of (dce_req d) = Some w" and o: "owns L [] d" and q: "wi_call d"
    by (auto simp: wi_ready_def)
  have "owns L [rpc_next d] (snd (rpc_alloc d))"
    using owns_alloc [OF o] by simp
  with w q d(1) show "case bnd rpc_alloc (\<lambda>n. upd_wi_name (str_ptr_update (\<lambda>_. Blk n s))) d of (Inr _, e) \<Rightarrow> ndr_inv e \<and> wi_held L e
     | (Inl (Err _), e) \<Rightarrow> E e | (Inl Fault, e) \<Rightarrow> False"
    by (simp add: bnd_def rpc_alloc_def upd_wi_name_def set_req_def get_req_def modify_def wi_held_def wi_name_def tok_def)
qed

lemma wi_free_frame:
  assumes F: "\<And>d r l. F (d\<lparr>rpc_live := l, dce_req := r\<rparr>) = F d"
  shows "valid (\<lambda>d. ndr_inv d \<and> wi_held L d \<and> F d) wkssvc_clear_headers (\<lambda>_ d. ndr_inv d \<and> wi_ready L d \<and> F d) (\<lambda>_. False)"
proof (rule validI, elim conjE)
  fix d :: "'a ksmbd_rpc_pipe_scheme"
  assume d: "ndr_inv d" "wi_held L d" "F d"
  then obtain w where w: "dce_req d = Wi_req w" "str_ptr (wi_server_name w) \<noteq> Wild"
    "owns L (tok (str_ptr (wi_server_name w)) @ []) d" and q: "wi_call d"
    by (auto simp: wi_held_def wi_name_def)
  let ?w = "wi_server_name_update (ref_id_update (\<lambda>_. 0)) w"
  have "owns L (tok (str_ptr (wi_server_name w)) @ []) (d\<lparr>dce_req := Wi_req ?w\<rparr>)"
    using w(3) by simp
  from rpc_free_blocks [OF this w(2)] obtain e where
    e: "rpc_free (str_ptr (wi_server_name w)) (d\<lparr>dce_req := Wi_req ?w\<rparr>) = (Inr (), e)"
    and o: "owns L [] e" and l: "e = (d\<lparr>dce_req := Wi_req ?w\<rparr>)\<lparr>rpc_live := rpc_live e\<rparr>" by blast
  have "dce_req e = Wi_req ?w" and "wi_call e = wi_call d" and "ndr_inv e = ndr_inv d"
    by (subst l, simp)+
  moreover have "F (e\<lparr>dce_req := r\<rparr>)" for r
    using d(3) F [where d = d and r = r and l = "rpc_live e"] by (subst l) simp
  ultimately show "case wkssvc_clear_headers d of (Inr _, t) \<Rightarrow> ndr_inv t \<and> wi_ready L t \<and> F t | (Inl (Err _), t) \<Rightarrow> False | (Inl Fault, t) \<Rightarrow> False"
    using w d q e o
    by (simp add: wkssvc_clear_headers_def free_uniq_vstring_def get_wi_name_def upd_wi_name_def set_req_def get_req_def
        bnd_def sq_def ret_def modify_def wi_of_def wi_ready_def)
qed

lemma wi_free: "valid (\<lambda>d. ndr_inv d \<and> wi_held L d) wkssvc_clear_headers (\<lambda>_ d. ndr_inv d \<and> wi_ready L d) (\<lambda>_. False)"
  using wi_free_frame [of "\<lambda>_. True" L] by simp

interpretation wi: string_slot upd_wi_name get_wi_name "wi_ready L" "wi_held L" for L
  by unfold_locales
    (simp_all add: upd_wi_null upd_wi_ref upd_wi_block wi_free [unfolded wkssvc_clear_headers_def])

lemma wi_level_valid:
  "valid (\<lambda>d. ndr_inv d \<and> wi_held L d) (set_req wi_of Wi_req (wi_level_update f)) (\<lambda>_ d. ndr_inv d \<and> wi_held L d) E"
  by (rule validI) (auto simp: set_req_def get_req_def bnd_def modify_def wi_of_def wi_held_def wi_name_def)

lemma wkssvc_parse_valid:
  "valid (\<lambda>d. (ndr_inv d \<and> wi_ready L d) \<and> room4 d) (wkssvc_parse_netwksta_info_req env)
     (\<lambda>_ d. ndr_inv d \<and> wi_held L d) (\<lambda>d. ndr_inv d \<and> wi_held L d)"
  unfolding wkssvc_parse_netwksta_info_req_def
  apply (rule valid_sq [OF wi.read_uniq_room])
  apply (rule valid_bnd [OF valid_ndr], intro ndr_safe, intro ndr_safe, simp)
  apply (rule valid_if [OF valid_fail wi_level_valid], assumption)
  done

lemma wkssvc_invoke_valid:
  "valid (\<lambda>d. (ndr_inv d \<and> wi_ready L d) \<and> room4 d) (wkssvc_invoke env) (\<lambda>_ d. ndr_inv d \<and> wi_held L d) (\<lambda>_. False)"
proof -
  have r: "valid (\<lambda>d. ndr_inv d \<and> wi_held L d) restricted (\<lambda>_ d. ndr_inv d \<and> wi_held L d) (\<lambda>_. False)"
    by (rule restricted_valid) (simp add: wi_held_def wi_call_def)
  have i: "valid (\<lambda>d. (ndr_inv d \<and> wi_ready L d) \<and> room4 d) (wkssvc_netwksta_info_invoke env :: ('a usm_scheme, int) svc)
     (\<lambda>_ d. ndr_inv d \<and> wi_held L d) (\<lambda>_. False)"
    unfolding wkssvc_netwksta_info_invoke_def wkssvc_netwksta_get_info_invoke_def
    apply (rule valid_rpc_try [OF wkssvc_parse_valid])
     apply (rule valid_bnd [OF r])
     apply (rule valid_if [OF valid_ret], assumption)
     apply (rule valid_bnd [OF valid_reads [where Q = "\<lambda>_ d. ndr_inv d \<and> wi_held L d"]], assumption)
     apply (rule valid_if [OF valid_ret valid_ret]; assumption)
    apply assumption
    done
  show ?thesis
  proof (rule validI)
    fix d :: "'a usm_scheme rpc_run"
    assume d: "(ndr_inv d \<and> wi_ready L d) \<and> room4 d"
    from validD [OF i d] d show "case wkssvc_invoke env d of (Inr x, t) \<Rightarrow> ndr_inv t \<and> wi_held L t | (Inl (Err e), t) \<Rightarrow> False | (Inl Fault, t) \<Rightarrow> False"
      by (simp add: wkssvc_invoke_def bnd_def reads_def wi_ready_def wi_call_def)
  qed
qed

text \<open>While the answer is written; the callbacks are set when the level is known.\<close>

definition wi_at :: "wkssvc_netwksta_info_request \<Rightarrow> nat set \<Rightarrow> 'x ksmbd_rpc_pipe_scheme \<Rightarrow> bool" where
  "wi_at w L d \<longleftrightarrow> rpc_room d \<and> dce_req d = Wi_req w \<and> wi_name L (wi_server_name w) d \<and> wi_call d"

definition wi_answer :: "wkssvc_netwksta_info_request \<Rightarrow> nat set \<Rightarrow> 'x ksmbd_rpc_pipe_scheme \<Rightarrow> bool" where
  "wi_answer w L d \<longleftrightarrow> wi_at w L d \<and> (wi_level w = 100 \<longrightarrow> dce_entry_rep d = Wksta_cb \<and> dce_entry_data d = Wksta_cb)"

lemma wi_at_props [simp]: "mild (wi_at w L)" "steady (wi_at w L)" "mild (wi_answer w L)" "steady (wi_answer w L)"
  by (simp_all add: calm_def steady_def mild_def wi_answer_def wi_at_def rpc_room_def wi_name_def owns_def)

lemma wi_atD: "wi_at w L d \<Longrightarrow> rpc_room d" "wi_at w L d \<Longrightarrow> wi_held L d" "wi_answer w L d \<Longrightarrow> wi_at w L d"
  by (auto simp: wi_at_def wi_answer_def wi_held_def)

lemma valid_get_wi:
  "(\<And>d. P d \<Longrightarrow> dce_req d = Wi_req w) \<Longrightarrow> valid P (f w) Q E \<Longrightarrow> valid P (bnd (get_req wi_of) f) Q E"
  by (auto simp: valid_def bnd_def get_req_def wi_of_def)

lemma netwksta_rep_writer [writer]: "writer P netwksta_entry_rep_ctr100"
  by (rule writer_weaken [of "\<lambda>_. True"]) (unfold netwksta_entry_rep_ctr100_def, intro writer, simp_all)

lemma wi_at_str:
  assumes "wi_at w L d"
  shows "\<exists>s. bnd (get_req wi_of) (\<lambda>w. str_val (str_ptr (wi_server_name w))) d = (Inr s, d)"
  using assms by (cases "str_ptr (wi_server_name w)")
    (simp_all add: wi_at_def wi_name_def owns_def tok_def get_req_def wi_of_def bnd_def str_val_def rpc_deref_def ret_def)

lemma wi_str_writer: "writer (wi_at w L) (bnd (get_req wi_of) (\<lambda>w. str_val (str_ptr (wi_server_name w))))"
  by (rule writer_pure) (rule wi_at_str)

lemma netwksta_data_eq:
  "netwksta_entry_data_ctr100 env = bnd (bnd (get_req wi_of) (\<lambda>w. str_val (str_ptr (wi_server_name w)))) (\<lambda>s.
     sq (write_vstring env s) (bnd (reads (\<lambda>d. work_group (global_conf (rpc_world d)))) (write_vstring env)))"
  by (simp add: netwksta_entry_data_ctr100_def bnd_assoc rpc_conf_def)

lemma netwksta_data_writer:
  "convert_ok (env_convert env) \<Longrightarrow> writer (wi_at w L) (netwksta_entry_data_ctr100 env)"
  unfolding netwksta_data_eq by (intro writer_bnd writer_sq wi_str_writer writer_vstring writer_reads) simp_all

lemma wksta_callbacks:
  assumes "convert_ok (env_convert env)" and "wi_level w = 100"
  shows "writer (wi_answer w L) (bnd (reads dce_entry_rep) (\<lambda>cb. entry_rep cb None))"
    and "writer (wi_answer w L) (bnd (reads dce_entry_data) (\<lambda>cb. entry_data env cb None))"
proof -
  have "writer (wi_answer w L) netwksta_entry_rep_ctr100" by (rule netwksta_rep_writer)
  then show "writer (wi_answer w L) (bnd (reads dce_entry_rep) (\<lambda>cb. entry_rep cb None))"
    by (simp add: writer_def bnd_def reads_def wi_answer_def assms(2) entry_rep_def)
  have "writer (wi_answer w L) (netwksta_entry_data_ctr100 env)"
    by (rule writer_weaken [OF netwksta_data_writer [OF assms(1)]]) (rule wi_atD(3))
  then show "writer (wi_answer w L) (bnd (reads dce_entry_data) (\<lambda>cb. entry_data env cb None))"
    by (simp add: writer_def bnd_def reads_def wi_answer_def assms(2) entry_data_def)
qed

lemma wkssvc_get_info_return_valid:
  assumes "convert_ok (env_convert env)"
  shows "valid (\<lambda>d. ndr_inv d \<and> wi_answer w L d) (wkssvc_netwksta_get_info_return env) (\<lambda>_ d. ndr_inv d \<and> wi_at w L d) E"
  unfolding wkssvc_netwksta_get_info_return_def
  apply (rule valid_get_wi [where w = w], simp add: wi_answer_def wi_at_def)
  apply (rule valid_writer_try [of "\<lambda>_. True"], intro writer, simp, simp)
   apply (rule valid_if)
    apply (rule valid_sq [OF valid_modify [where Q = "\<lambda>_ d. ndr_inv d \<and> wi_at w L d"] valid_ret])
     apply (simp add: wi_answer_def wi_at_def rpc_room_def wi_name_def owns_def ndr_inv_def dce_test_def, assumption)
   apply (rule valid_writer_try [OF wksta_callbacks(1) [OF assms]], simp, simp, assumption)
    apply (rule valid_writer_try [OF wksta_callbacks(2) [OF assms]], simp, simp, assumption)
     apply (rule valid_ret)
     apply (simp_all add: wi_atD(3))
  done

lemma wkssvc_callbacks_set:
  "valid (\<lambda>d. ndr_inv d \<and> wi_at w L d)
     (if wi_level w = 100 then modify (\<lambda>d. d\<lparr>dce_entry_rep := Wksta_cb, dce_entry_data := Wksta_cb\<rparr>) else rpc_pipe_reset env)
     (\<lambda>_ d. ndr_inv d \<and> wi_answer w L d) E"
  by (rule validI) (simp add: modify_def rpc_pipe_reset_empty wi_answer_def wi_at_def wi_call_def rpc_room_def wi_name_def owns_def ndr_inv_def dce_test_def)

lemma wkssvc_info_return_valid:
  assumes env: "convert_ok (env_convert env)"
  shows "valid (\<lambda>d. ndr_inv d \<and> wi_at w L d) (wkssvc_netwksta_info_return env) (\<lambda>_ d. ndr_inv d \<and> owns L [] d) (\<lambda>_. False)"
  unfolding wkssvc_netwksta_info_return_def Let_def
  apply (rule valid_sq [OF valid_goto])
    apply simp
   apply (simp add: sizeof_dcerpc_header_def sizeof_dcerpc_response_header_def)
  apply (rule valid_sq [OF valid_modify [where Q = "\<lambda>_ d. ndr_inv d \<and> wi_at w L d"]])
   apply (simp add: wi_at_def rpc_room_def wi_name_def owns_def ndr_inv_def dce_test_def)
  apply (rule valid_get_wi [where w = w], simp add: wi_at_def)
  apply (rule valid_sq [OF wkssvc_callbacks_set])
  apply (rule valid_bnd [OF valid_reads [where Q = "\<lambda>_ d. ndr_inv d \<and> wi_answer w L d"]], assumption)
  apply (rule valid_bnd [where R = "\<lambda>_ d. ndr_inv d \<and> wi_at w L d"])
   apply (rule valid_if [OF wkssvc_get_info_return_valid [OF env] valid_ret], simp add: wi_atD(3))
  apply (rule valid_bnd [OF restricted_valid], simp add: wi_at_def wi_call_def)
  apply (rule valid_sq [OF valid_pre [OF wi_free_frame [where L = L and F = rpc_room]]], simp add: rpc_room_def)
   apply (blast dest: wi_atD)
  apply (rule valid_pre [OF valid_post [OF finish_response_valid [where R = "\<lambda>d. owns L [] d \<and> rpc_room d"]]])
     apply (simp_all add: calm_def steady_def wi_ready_def rpc_room_def owns_def)
  done

lemma wkssvc_return_valid:
  assumes env: "convert_ok (env_convert env)" and n: "0 \<le> n" "n < 2 ^ 30" "length buf = nat n"
  shows "valid (wi_held L) (wkssvc_return env buf n) (\<lambda>_ d. ndr_inv d \<and> owns L [] d) (\<lambda>_. False)"
proof (rule validI)
  fix d :: "'a shm_scheme rpc_run"
  assume d: "wi_held L d"
  let ?d = "dcerpc_set_ext_payload buf (word_of_int n) d"
  obtain w where "wi_at w L ?d"
    using d set_resp_eq(3) [OF n, of d]
    by (auto simp: wi_held_def wi_at_def wi_name_def owns_def wi_call_def dcerpc_set_ext_payload_def)
  with set_resp_eq(2) [OF n, of d] have "ndr_inv ?d \<and> wi_at w L ?d" by simp
  from validD [OF wkssvc_info_return_valid [OF env] this] d set_resp_eq(1) [OF n, of d]
  show "case wkssvc_return env buf n d of (Inr x, t) \<Rightarrow> ndr_inv t \<and> owns L [] t | (Inl (Err e), t) \<Rightarrow> False | (Inl Fault, t) \<Rightarrow> False"
    by (simp add: wkssvc_return_def bnd_def sq_def reads_def wi_held_def wi_call_def)
qed

text \<open>An answer whose pointer was never assigned.\<close>

lemma wkssvc_bad_level:
  assumes "ndr_inv d" and "wi_of (dce_req d) = Some w" and "wi_level w \<noteq> 100"
  shows "\<exists>st t. wkssvc_netwksta_get_info_return env d = (Inr st, t) \<and> dce_req t = dce_req d \<and> wi_call t = wi_call d"
proof -
  obtain r e where u: "ndr_write_union_int32 (wi_level w) d = (r, e)" by (cases "ndr_write_union_int32 (wi_level w) d")
  from writerD [OF writer_union assms(1) TrueI u] have "r \<noteq> Inl Fault" and "drift d e" by simp_all
  then have "dce_req e = dce_req d" "wi_call e = wi_call d" by (auto simp: drift_def)
  with u assms(2,3) \<open>r \<noteq> Inl Fault\<close> show ?thesis
    by (cases r) (auto simp: wkssvc_netwksta_get_info_return_def bnd_def sq_def get_req_def rpc_try_def modify_def ret_def split: cerr.splits)
qed

lemma wkssvc_clear_wild:
  assumes "wi_of (dce_req d) = Some w" and "str_ptr (wi_server_name w) = Wild"
  shows "\<exists>e. wkssvc_clear_headers d = (Inl Fault, e)"
  using assms by (simp add: wkssvc_clear_headers_def free_uniq_vstring_def get_wi_name_def upd_wi_name_def set_req_def get_req_def
      bnd_def sq_def ret_def modify_def wi_of_def rpc_free_def)

lemma wkssvc_return_wild:
  assumes d: "dce_req d = u" "wi_call d" and w: "wi_of u = Some w" and lvl: "wi_level w \<noteq> 100" and ptr: "str_ptr (wi_server_name w) = Wild"
    and n: "0 \<le> n" "n < 2 ^ 30" "length buf = nat n"
  shows "\<exists>e. wkssvc_return env buf n d = (Inl Fault, e)"
proof -
  let ?d = "dcerpc_set_ext_payload buf (word_of_int n) d"
  let ?e = "?d\<lparr>dce_offset := word_of_nat 24, pipe_num_processed := 0, pipe_num_entries := 0, pipe_ioctl_reply_consumed := False\<rparr>"
  have e: "ndr_inv ?e" "dce_req ?e = u" "wi_call ?e"
    using d ndr_inv_goto [OF set_resp_eq(2) [OF n, of d], of 24]
    by (simp_all add: dcerpc_set_ext_payload_def wi_call_def ndr_inv_def dce_test_def)
  from wkssvc_bad_level [OF e(1), of w env] e(2) w lvl obtain st t where
    t: "wkssvc_netwksta_get_info_return env ?e = (Inr st, t)" "dce_req t = u" "wi_call t" using e(3) by auto
  obtain f where f: "dce_rpc_req t = Some f" using t(3) by (auto simp: wi_call_def)
  from wkssvc_clear_wild [of t w] t(2) w ptr obtain z where z: "wkssvc_clear_headers t = (Inl Fault, z)" by auto
  have r: "rpc_pipe_reset env (?d\<lparr>dce_offset := word_of_nat 24, pipe_num_processed := 0\<rparr>) = (Inr (), ?e)"
    using d(2) by (subst rpc_pipe_reset_empty) (simp_all add: wi_call_def dcerpc_set_ext_payload_def)
  have opn: "opnum (dce_req_hdr d) = WKSSVC_NETWKSTA_GET_INFO" "dce_req ?d = u" "opnum (dce_req_hdr ?e) = WKSSVC_NETWKSTA_GET_INFO"
    using d by (simp_all add: wi_call_def dcerpc_set_ext_payload_def)
  show ?thesis
    using t z f w lvl opn set_resp_eq(1) [OF n, of d] r
    by (simp add: wkssvc_return_def wkssvc_netwksta_info_return_def bnd_def sq_def reads_def goto_offset_def modify_def get_req_def
        sizeof_dcerpc_header_def sizeof_dcerpc_response_header_def restricted_def rpc_conf_def rpc_restricted_context_def
        rpc_req_flags_def ret_def Let_def)
qed

section \<open>Properties\<close>



text \<open>C22: a request of the workstation service without stub data, after a bind on the same pipe, makes
  the read free an address the client chose.  The bind request is overlaid by the pointer of the server
  name, the parser stops before it assigns the pointer, and the answer frees it.\<close>

theorem wkssvc_stale_pointer:
  assumes "ndr_inv d" and "\<not> room4 d" and "dce_req d = Bi_req b v" and "bi_list b = Null" and "assoc_group_id b \<noteq> 0"
    and "wi_call d" and "0 \<le> n" and "n < 2 ^ 30" and "length buf = nat n"
  shows "\<exists>d' e. rpc_wkssvc_write_request env d = (Inr KSMBD_RPC_EBAD_DATA, d')
    \<and> rpc_wkssvc_read_request env buf n d' = (Inl Fault, e)"
proof -
  let ?d = "seek (up 4 (off d)) d" and ?w = "\<lparr>wi_server_name = \<lparr>ref_id = bi_flags b, str_ptr = Wild\<rparr>, wi_level = 0\<rparr>"
  have w: "wi_of (Bi_req b v) = Some ?w"
    using assms(4,5) by (simp add: wi_of_def cptr_null_def wild_def)
  have "or_else EINVAL ndr_read_int32 d = (Inl (Err EINVAL), ?d)"
    using ndr_read_int_eq [OF assms(1), of 4] assms(2) by (simp add: ndr_read_int32_def or_else_def bnd_def Let_def)
  then have i: "rpc_wkssvc_write_request env d = (Inr KSMBD_RPC_EBAD_DATA, ?d)"
    using assms(6) by (simp add: rpc_wkssvc_write_request_def wkssvc_invoke_def wkssvc_netwksta_info_invoke_def
        wkssvc_parse_netwksta_info_req_def read_uniq_vstring_def rpc_try_def sq_def bnd_def reads_def wi_call_def)
  have "dce_req ?d = Bi_req b v" and "wi_call ?d"
    using assms(3,6) by (simp_all add: seek_def)
  from wkssvc_return_wild [OF this w _ _ assms(7-9)] i show ?thesis
    by (auto simp: rpc_wkssvc_read_request_def)
qed

text \<open>A pipe after a bind answered with the association group \<open>0x53f0\<close>, and a request of a header alone.\<close>

definition stale_sample :: "sms rpc_run" where
  "stale_sample = (run_sample KSMBD_RPC_WKSSVC_METHOD_INVOKE [])\<lparr>dce_req := Bi_req (bi_zero\<lparr>assoc_group_id := 0x53f0\<rparr>) No_req\<rparr>"

theorem wkssvc_stale_pointer_witness:
  "\<exists>d' e. rpc_wkssvc_write_request env_sample stale_sample = (Inr KSMBD_RPC_EBAD_DATA, d')
    \<and> rpc_wkssvc_read_request env_sample (replicate 200 0) 200 d' = (Inl Fault, e)"
  by (rule wkssvc_stale_pointer [where b = "bi_zero\<lparr>assoc_group_id := 0x53f0\<rparr>" and v = No_req])
    (simp_all add: stale_sample_def run_sample_inv, simp_all add: run_sample_def dcerpc_set_ext_payload_def pipe_zero_def bi_zero_def
      wi_call_def WKSSVC_NETWKSTA_GET_INFO_def)

end
