(* ===== verification/Spec2Isabelle.thy ===== *)
theory Spec2Isabelle
  imports Tools Ndr Tree_Conn Spnego_Krb5 Rpc_Wkssvc
begin

text \<open>
  A verification of ksmbd-tools, the user space of the ksmbd SMB server: \<open>ksmbd.mountd\<close> (the
  daemon that answers the kernel's requests for users, shares, sessions and RPC pipes), and the
  libraries and command line tools it shares with \<open>ksmbd.addshare\<close>, \<open>ksmbd.adduser\<close> and
  \<open>ksmbd.control\<close>.
\<close>

end
